(* ===== verification/Kernel_Prelude.thy ===== *)
theory Kernel_Prelude
  imports Main "HOL-Library.Word"
begin

text \<open>
  Shared vocabulary of the development: the machine integers of the i686 target, the ways the
  kernel stops, sequencing of computations that may stop, C arrays of bytes used as bitmaps, and
  the interface of an allocator of numbered cells.
\<close>

unbundle bit_operations_syntax

section \<open>Machine integers\<close>

type_synonym u8 = "8 word"
type_synonym u16 = "16 word"
type_synonym u32 = "32 word"
type_synonym u64 = "64 word"

text \<open>Arithmetic that does not wrap is arithmetic on the natural numbers read off the words.\<close>

lemma unat_u32_less: "unat (a :: u32) < 4294967296"
  using unsigned_less [of a] by simp

lemma unat_u8_less: "unat (a :: u8) < 256"
  using unsigned_less [of a] by simp

lemma unat_minus_1 [simp]: "unat (-1 :: u32) = 4294967295" "unat (-1 :: u8) = 255"
  by (simp_all add: unsigned_minus_1_eq_mask mask_eq_exp_minus_1)

lemma unat_add_exact:
  "unat (a :: 'a::len word) + unat b < 2 ^ LENGTH('a) \<Longrightarrow> unat (a + b) = unat a + unat b"
  by (rule unat_add_lem [THEN iffD1])

lemma unat_mult_exact:
  "unat (a :: 'a::len word) * unat b < 2 ^ LENGTH('a) \<Longrightarrow> unat (a * b) = unat a * unat b"
  by (rule unat_mult_lem [THEN iffD1])

lemma unat_pred:
  assumes "unat (p :: 'a::len word) = Suc n"
  shows "0 < p" and "unat (p - 1) = n"
proof -
  have "p \<noteq> 0" using assms by auto
  then show "0 < p" "unat (p - 1) = n" using assms by (simp_all add: word_gt_0 unat_minus_one)
qed

lemma unat_of_nat_exact: "n < 2 ^ LENGTH('a) \<Longrightarrow> unat (of_nat n :: 'a::len word) = n"
  by (simp add: unat_of_nat)

lemma unat_ucast_up:
  assumes "LENGTH('a) \<le> LENGTH('b)"
  shows "unat (ucast (w :: 'a::len word) :: 'b::len word) = unat w"
proof -
  have "unat w < 2 ^ LENGTH('a)" by (rule unsigned_less)
  also have "(2 :: nat) ^ LENGTH('a) \<le> 2 ^ LENGTH('b)" using assms by (rule power_increasing) simp
  finally show ?thesis by (simp add: unsigned_ucast_eq take_bit_nat_eq_self)
qed

lemma unat_ucast_down: "unat (w :: 'a::len word) < 2 ^ LENGTH('b) \<Longrightarrow> unat (ucast w :: 'b::len word) = unat w"
  by (simp add: unsigned_ucast_eq take_bit_nat_eq_self)

lemma sint_eq_unat:
  fixes w :: "'a::len word"
  assumes "unat w < 2 ^ (LENGTH('a) - 1)"
  shows "sint w = int (unat w)"
proof -
  have less: "uint w < 2 ^ (LENGTH('a) - 1)"
    unfolding uint_nat using assms by (metis of_nat_less_iff of_nat_numeral of_nat_power)
  then have "\<not> bit (uint w) (LENGTH('a) - 1)"
    by (simp add: bit_iff_odd)
  moreover have "take_bit (LENGTH('a) - 1) (uint w) = uint w"
    using less by (simp add: take_bit_int_eq_self)
  ultimately have "signed_take_bit (LENGTH('a) - 1) (uint w) = uint w"
    by (simp add: signed_take_bit_eq_if_positive)
  then show ?thesis by (simp add: sint_uint)
qed

lemma scast_nonneg:
  fixes w :: "'a::len word"
  assumes "unat w < 2 ^ (LENGTH('a) - 1)"
  shows "(scast w :: 'b::len word) = ucast w"
  by (simp add: scast_eq sint_eq_unat [OF assms])

section \<open>Computations that may stop the kernel\<close>

text \<open>
  \<open>panic\<close> (errors.c) prints and spins, \<open>__assert_fail\<close> (std/assert.c) prints and halts; neither
  returns. An access outside an array or to a freed object is undefined in C, so it gets a value
  of its own and no result; an access to an unmapped page and a division by zero trap. \<open>Halted\<close> is a loop
  that never ends.
\<close>

datatype halt =
    Panic string
  | Assertion string
  | Out_of_bounds
  | Use_after_free u32
  | Page_fault u32
  | Divide_error
  | Halted

type_synonym 'a run = "halt + 'a"

definition bind_run :: "'a run \<Rightarrow> ('a \<Rightarrow> 'b run) \<Rightarrow> 'b run" where
  "bind_run m f = (case m of Inl h \<Rightarrow> Inl h | Inr x \<Rightarrow> f x)"

text \<open>The result of a loop defined with \<open>partial_function\<close>: \<open>None\<close> is the loop that never ends.\<close>

definition returns :: "'a run option \<Rightarrow> 'a run" where
  "returns r = (case r of None \<Rightarrow> Inl Halted | Some m \<Rightarrow> m)"

lemma returns_simps [simp]: "returns None = Inl Halted" "returns (Some m) = m"
  by (simp_all add: returns_def)

definition assert_run :: "bool \<Rightarrow> string \<Rightarrow> 'a run \<Rightarrow> 'a run" where
  "assert_run b msg m = (if b then m else Inl (Assertion msg))"

lemma bind_run_Inl [simp]: "bind_run (Inl h) f = Inl h"
  by (simp add: bind_run_def)

lemma bind_run_Inr [simp]: "bind_run (Inr x) f = f x"
  by (simp add: bind_run_def)

lemma bind_run_eq_Inr [simp]:
  "bind_run m f = Inr y \<longleftrightarrow> (\<exists>x. m = Inr x \<and> f x = Inr y)"
  by (cases m) auto

lemma bind_run_assoc: "bind_run (bind_run m f) g = bind_run m (\<lambda>x. bind_run (f x) g)"
  by (cases m) simp_all

lemma bind_run_Inr_right [simp]: "bind_run m Inr = m"
  by (cases m) simp_all

lemma bind_run_cong [fundef_cong]:
  "m = m' \<Longrightarrow> (\<And>x. m' = Inr x \<Longrightarrow> f x = f' x) \<Longrightarrow> bind_run m f = bind_run m' f'"
  by (cases m') auto

text \<open>\<open>run_ok m Q\<close>: the computation returns, with a result of which \<open>Q\<close> holds.\<close>

definition run_ok :: "'a run \<Rightarrow> ('a \<Rightarrow> bool) \<Rightarrow> bool" where
  "run_ok m Q \<longleftrightarrow> (\<exists>x. m = Inr x \<and> Q x)"

lemma run_ok_Inr [simp]: "run_ok (Inr x) Q \<longleftrightarrow> Q x"
  by (simp add: run_ok_def)

lemma run_ok_bind: "run_ok m P \<Longrightarrow> (\<And>x. P x \<Longrightarrow> run_ok (f x) Q) \<Longrightarrow> run_ok (bind_run m f) Q"
  by (auto simp: run_ok_def)

lemma run_ok_bind2:
  "run_ok m (\<lambda>(a, b). P a b) \<Longrightarrow> (\<And>a b. P a b \<Longrightarrow> run_ok (f a b) Q) \<Longrightarrow> run_ok (bind_run m (\<lambda>(a, b). f a b)) Q"
  by (auto simp: run_ok_def)

lemma run_ok_bind3:
  "run_ok m (\<lambda>(a, b, c). P a b c) \<Longrightarrow> (\<And>a b c. P a b c \<Longrightarrow> run_ok (f a b c) Q) \<Longrightarrow>
     run_ok (bind_run m (\<lambda>(a, b, c). f a b c)) Q"
  by (auto simp: run_ok_def)

lemmas run_ok_binds = run_ok_bind3 run_ok_bind2 run_ok_bind

lemma run_ok_mono: "run_ok m P \<Longrightarrow> (\<And>x. P x \<Longrightarrow> Q x) \<Longrightarrow> run_ok m Q"
  by (auto simp: run_ok_def)

lemma assert_run_eq_Inr [simp]: "assert_run b msg m = Inr y \<longleftrightarrow> b \<and> m = Inr y"
  by (simp add: assert_run_def)

lemma assert_run_True [simp]: "assert_run True msg m = m"
  by (simp add: assert_run_def)

section \<open>Bit tests and bit updates\<close>

text \<open>\<open>one_shl j\<close> is C's \<open>1 << j\<close> truncated to the width of its use.\<close>

definition one_shl :: "nat \<Rightarrow> 'a::len word" where
  "one_shl j = push_bit j 1"

named_theorems mask_simps \<open>reading a word after C's set-bit and clear-bit idioms\<close>

lemma bit_one_shl [mask_simps]: "bit (one_shl j :: 'a::len word) k \<longleftrightarrow> k = j \<and> j < LENGTH('a)"
  by (auto simp: one_shl_def bit_simps)

lemma and_one_shl_eq_0_iff [mask_simps]:
  "(w :: 'a::len word) AND one_shl j = 0 \<longleftrightarrow> \<not> bit w j"
proof
  assume "w AND one_shl j = 0"
  then have "\<not> bit (w AND one_shl j) j" by simp
  then show "\<not> bit w j" by (auto simp: bit_simps mask_simps dest: bit_imp_le_length)
next
  assume "\<not> bit w j"
  then show "w AND one_shl j = 0" by (intro bit_word_eqI) (auto simp: bit_simps mask_simps)
qed

lemma bit_or_one_shl [mask_simps]:
  "j < LENGTH('a) \<Longrightarrow> bit ((w :: 'a::len word) OR one_shl j) k \<longleftrightarrow> bit w k \<or> k = j"
  by (auto simp: bit_simps mask_simps)

lemma bit_and_not_one_shl [mask_simps]:
  "bit ((w :: 'a::len word) AND NOT (one_shl j)) k \<longleftrightarrow> bit w k \<and> k \<noteq> j"
  by (auto simp: bit_simps mask_simps dest: bit_imp_le_length)

lemma and_mask_const:
  "(w :: 'a::len word) AND 0x0F = take_bit 4 w"
  "w AND 0xFF = take_bit 8 w"
  "w AND 0xFFF = take_bit 12 w"
  "w AND 0xFFFF = take_bit 16 w"
  by (simp_all add: take_bit_eq_mask mask_eq_exp_minus_1)

lemma full_byte_iff: "(w :: u8) = 0xFF \<longleftrightarrow> (\<forall>j < 8. bit w j)"
proof
  assume "w = 0xFF"
  then have "w = - 1" by simp
  then show "\<forall>j < 8. bit w j" by (simp add: bit_simps)
next
  assume "\<forall>j < 8. bit w j"
  then have "w = - 1" by (intro bit_word_eqI) (simp add: bit_simps)
  then show "w = 0xFF" by simp
qed

section \<open>Buffers\<close>

text \<open>A \<open>char\<close> or \<open>uint8_t\<close> buffer reached through a pointer is the list of its bytes.\<close>

type_synonym buffer = "u8 list"

definition rd :: "buffer \<Rightarrow> nat \<Rightarrow> u8 run" where
  "rd b i = (if i < length b then Inr (b ! i) else Inl Out_of_bounds)"

definition wr :: "nat \<Rightarrow> u8 \<Rightarrow> buffer \<Rightarrow> buffer run" where
  "wr i v b = (if i < length b then Inr (b[i := v]) else Inl Out_of_bounds)"

lemma take_Suc_update [simp]: "i < length b \<Longrightarrow> take (Suc i) (b[i := v]) = take i b @ [v]"
  by (simp add: take_Suc_conv_app_nth)

lemma rd_eq_Inr [simp]: "rd b i = Inr c \<longleftrightarrow> i < length b \<and> c = b ! i"
  by (auto simp: rd_def)

lemma rd_in [simp]: "i < length b \<Longrightarrow> rd b i = Inr (b ! i)"
  by (simp add: rd_def)

lemma wr_eq_Inr [simp]: "wr i v b = Inr b' \<longleftrightarrow> i < length b \<and> b' = b[i := v]"
  by (auto simp: wr_def)

lemma wr_in [simp]: "i < length b \<Longrightarrow> wr i v b = Inr (b[i := v])"
  by (simp add: wr_def)

text \<open>
  A buffer holds the string \<open>s\<close> when \<open>s\<close> is what precedes its first zero byte. \<open>ascii\<close> turns a literal
  into the bytes a C string literal has, terminator included.
\<close>

definition holds_str :: "buffer \<Rightarrow> u8 list \<Rightarrow> bool" where
  "holds_str b s \<longleftrightarrow> length s < length b \<and> take (length s) b = s \<and> b ! length s = 0 \<and> 0 \<notin> set s"

definition chars :: "string \<Rightarrow> u8 list" where
  "chars s = map of_char s"

definition ascii :: "string \<Rightarrow> buffer" where
  "ascii s = chars s @ [0]"

lemma holds_str_nth: "holds_str b s \<Longrightarrow> i < length s \<Longrightarrow> b ! i = s ! i"
  by (metis holds_str_def nth_take)

lemma holds_str_nth_nz: "holds_str b s \<Longrightarrow> i < length s \<Longrightarrow> b ! i \<noteq> 0"
  by (metis holds_str_nth holds_str_def nth_mem)

lemma holds_str_len: "holds_str b s \<Longrightarrow> length s < length b" "holds_str b s \<Longrightarrow> b ! length s = 0"
  by (simp_all add: holds_str_def)

lemma holds_str_append: "0 \<notin> set s \<Longrightarrow> holds_str (s @ 0 # rest) s"
  by (simp add: holds_str_def nth_append)

text \<open>Walking a string through its buffer, one position at a time.\<close>

lemma holds_str_at_Nil: "holds_str (drop i b) [] \<longleftrightarrow> i < length b \<and> b ! i = 0"
  by (auto simp: holds_str_def)

lemma holds_str_at_Cons:
  "holds_str (drop i b) (x # xs) \<longleftrightarrow> i < length b \<and> b ! i = x \<and> x \<noteq> 0 \<and> holds_str (drop (Suc i) b) xs"
proof (cases "i < length b")
  case True
  then have "drop i b = b ! i # drop (Suc i) b" by (rule Cons_nth_drop_Suc [symmetric])
  with True show ?thesis by (auto simp: holds_str_def)
qed (simp add: holds_str_def)

lemmas holds_str_at = holds_str_at_Nil holds_str_at_Cons

lemma holds_str_drop: "holds_str b s \<Longrightarrow> k \<le> length s \<Longrightarrow> holds_str (drop k b) (drop k s)"
  by (auto simp: holds_str_def take_drop dest: in_set_dropD)

section \<open>Byte arrays used as bitmaps\<close>

text \<open>
  A C array of bytes is a function from indices; the constant that bounds the array stays with the
  component that declares it. Cell \<open>n\<close> is bit \<open>n mod 8\<close> of byte \<open>n div 8\<close>.
\<close>

type_synonym bytes = "nat \<Rightarrow> u8"

definition bitmap_bit :: "bytes \<Rightarrow> nat \<Rightarrow> bool" where
  "bitmap_bit bm n = bit (bm (n div 8)) (n mod 8)"

definition bitmap_set :: "bytes \<Rightarrow> nat \<Rightarrow> nat set" where
  "bitmap_set bm len = {n. n < 8 * len \<and> bitmap_bit bm n}"

lemma div_mod_8_eq_iff: "j < 8 \<Longrightarrow> n div 8 = i \<and> n mod 8 = j \<longleftrightarrow> n = 8 * i + (j :: nat)"
  by auto

lemma bitmap_bit_mark [simp]:
  assumes "j < 8"
  shows "bitmap_bit (bm(i := bm i OR one_shl j)) n \<longleftrightarrow> n = 8 * i + j \<or> bitmap_bit bm n"
  using assms div_mod_8_eq_iff [OF assms, of n i]
  by (auto simp: bitmap_bit_def mask_simps)

lemma bitmap_bit_clear [simp]:
  assumes "j < 8"
  shows "bitmap_bit (bm(i := bm i AND NOT (one_shl j))) n \<longleftrightarrow> n \<noteq> 8 * i + j \<and> bitmap_bit bm n"
  using assms div_mod_8_eq_iff [OF assms, of n i]
  by (auto simp: bitmap_bit_def mask_simps)

lemma bitmap_set_mark:
  assumes "j < 8" and "i < len"
  shows "bitmap_set (bm(i := bm i OR one_shl j)) len = insert (8 * i + j) (bitmap_set bm len)"
  using assms by (auto simp: bitmap_set_def)

lemma bitmap_set_clear:
  assumes "j < 8"
  shows "bitmap_set (bm(i := bm i AND NOT (one_shl j))) len = bitmap_set bm len - {8 * i + j}"
  using assms by (auto simp: bitmap_set_def)

lemma bitmap_bit_pair: "j < 8 \<Longrightarrow> bitmap_bit bm (8 * i + j) = bit (bm i) j"
  by (simp add: bitmap_bit_def)

lemma bitmap_bit_in_byte:
  "8 * i \<le> m \<Longrightarrow> m < 8 * i + 8 \<Longrightarrow> bitmap_bit bm m = bit (bm i) (m - 8 * i)"
  using bitmap_bit_pair [of "m - 8 * i" bm i] by simp

section \<open>Allocators of numbered cells\<close>

text \<open>
  The physical memory manager and the disk's swap area both hand out numbered cells from a bitmap
  and report exhaustion with a reserved value. Clients that allocate in a loop
  (\<open>kmalloc_large\<close>, \<open>process_create_stack\<close>) rely on two laws only: a cell handed out was not in
  use, and it is in use afterwards.
\<close>

fun alloc_many :: "('s \<Rightarrow> (u32 \<times> 's) run) \<Rightarrow> nat \<Rightarrow> 's \<Rightarrow> (u32 list \<times> 's) run" where
  "alloc_many alloc 0 s = Inr ([], s)"
| "alloc_many alloc (Suc n) s =
     bind_run (alloc s) (\<lambda>(a, s').
     bind_run (alloc_many alloc n s') (\<lambda>(as, s'').
     Inr (a # as, s'')))"

locale cell_allocator =
  fixes alloc :: "'s \<Rightarrow> (u32 \<times> 's) run"
    and used :: "'s \<Rightarrow> nat set"
    and cell :: "u32 \<Rightarrow> nat"
    and none :: u32
    and inv :: "'s \<Rightarrow> bool"
  assumes alloc_returns: "inv s \<Longrightarrow> \<exists>a s'. alloc s = Inr (a, s')"
    and alloc_inv: "inv s \<Longrightarrow> alloc s = Inr (a, s') \<Longrightarrow> inv s'"
    and alloc_fresh: "inv s \<Longrightarrow> alloc s = Inr (a, s') \<Longrightarrow> a \<noteq> none \<Longrightarrow>
          cell a \<notin> used s \<and> used s' = insert (cell a) (used s)"
    and alloc_none: "inv s \<Longrightarrow> alloc s = Inr (none, s') \<Longrightarrow> used s \<subseteq> used s'"
begin

lemma alloc_many_returns: "inv s \<Longrightarrow> \<exists>as s'. alloc_many alloc n s = Inr (as, s') \<and> inv s'"
proof (induction n arbitrary: s)
  case 0
  then show ?case by simp
next
  case (Suc n)
  obtain a s1 where step: "alloc s = Inr (a, s1)" using alloc_returns [OF Suc.prems] by blast
  from Suc.IH [OF alloc_inv [OF Suc.prems step]] step show ?case by auto
qed

lemma alloc_mono: "inv s \<Longrightarrow> alloc s = Inr (a, s') \<Longrightarrow> used s \<subseteq> used s'"
  by (cases "a = none") (auto dest: alloc_fresh alloc_none)

lemma alloc_many_used:
  assumes "inv s" and "alloc_many alloc n s = Inr (as, s')" and "none \<notin> set as"
  shows "length as = n \<and> distinct (map cell as) \<and> cell ` set as \<inter> used s = {}
         \<and> used s' = cell ` set as \<union> used s"
  using assms
proof (induction n arbitrary: s as)
  case 0
  then show ?case by simp
next
  case (Suc n)
  from Suc.prems obtain a s1 bs where step: "alloc s = Inr (a, s1)"
    and rest: "alloc_many alloc n s1 = Inr (bs, s')" and as: "as = a # bs"
    by auto
  with Suc.prems have a: "a \<noteq> none" and bs: "none \<notin> set bs" by auto
  have fresh: "cell a \<notin> used s" "used s1 = insert (cell a) (used s)"
    using alloc_fresh [OF Suc.prems(1) step a] by auto
  have "inv s1" using Suc.prems(1) step by (rule alloc_inv)
  from Suc.IH [OF this rest bs] fresh show ?case by (auto simp: as)
qed

end

section \<open>First-in first-out buffers\<close>

text \<open>
  The keyboard's ring is filled by an interrupt handler and drained by the shell: an execution is an
  interleaving of puts (\<open>Some x\<close>) and attempts to get (\<open>None\<close>). An attempt on an empty buffer finds
  nothing and leaves it as it is.
\<close>

fun fifo_exec ::
  "('a \<Rightarrow> 's \<Rightarrow> 's run) \<Rightarrow> ('s \<Rightarrow> ('a \<times> 's) option run) \<Rightarrow> 'a option list \<Rightarrow> 's \<Rightarrow> ('a list \<times> 's) run" where
  "fifo_exec put get [] s = Inr ([], s)"
| "fifo_exec put get (Some x # ops) s = bind_run (put x s) (fifo_exec put get ops)"
| "fifo_exec put get (None # ops) s =
     bind_run (get s) (\<lambda>r. case r of
       None \<Rightarrow> fifo_exec put get ops s
     | Some (x, s') \<Rightarrow> bind_run (fifo_exec put get ops s') (\<lambda>(xs, s''). Inr (x # xs, s'')))"

text \<open>\<open>fits cap n ops\<close>: starting with \<open>n\<close> elements, the interleaving never puts into a full buffer.\<close>

fun fits :: "nat \<Rightarrow> nat \<Rightarrow> 'a option list \<Rightarrow> bool" where
  "fits cap n [] \<longleftrightarrow> True"
| "fits cap n (Some x # ops) \<longleftrightarrow> n < cap \<and> fits cap (Suc n) ops"
| "fits cap n (None # ops) \<longleftrightarrow> fits cap (n - 1) ops"

definition inputs :: "'a option list \<Rightarrow> 'a list" where
  "inputs ops = List.map_filter (\<lambda>x. x) ops"

lemma inputs_simps [simp]:
  "inputs [] = []" "inputs (Some x # ops) = x # inputs ops" "inputs (None # ops) = inputs ops"
  by (simp_all add: inputs_def map_filter_simps)

locale fifo =
  fixes put :: "'a \<Rightarrow> 's \<Rightarrow> 's run"
    and get :: "'s \<Rightarrow> ('a \<times> 's) option run"
    and contents :: "'s \<Rightarrow> 'a list"
    and cap :: nat
    and inv :: "'s \<Rightarrow> bool"
  assumes put_law: "inv s \<Longrightarrow> length (contents s) < cap \<Longrightarrow>
        \<exists>s'. put x s = Inr s' \<and> contents s' = contents s @ [x] \<and> inv s'"
    and get_empty: "inv s \<Longrightarrow> contents s = [] \<Longrightarrow> get s = Inr None"
    and get_law: "inv s \<Longrightarrow> contents s = x # xs \<Longrightarrow>
        \<exists>s'. get s = Inr (Some (x, s')) \<and> contents s' = xs \<and> inv s'"
begin

lemma exec_in_order:
  "inv s \<Longrightarrow> fits cap (length (contents s)) ops \<Longrightarrow>
     \<exists>xs s'. fifo_exec put get ops s = Inr (xs, s') \<and> xs @ contents s' = contents s @ inputs ops \<and> inv s'"
proof (induction ops arbitrary: s rule: list.induct)
  case Nil
  then show ?case by simp
next
  case (Cons op ops)
  show ?case
  proof (cases op)
    case (Some x)
    with Cons.prems obtain s1 where s1: "put x s = Inr s1" "contents s1 = contents s @ [x]" "inv s1"
      using put_law [of s x] by auto
    with Cons.IH [of s1] Cons.prems Some show ?thesis by auto
  next
    case None
    show ?thesis
    proof (cases "contents s")
      case Nil
      with Cons.IH [of s] Cons.prems None get_empty [of s] show ?thesis by simp
    next
      case (Cons x xs)
      with Cons.prems(1) obtain s1 where s1: "get s = Inr (Some (x, s1))" "contents s1 = xs" "inv s1"
        using get_law by blast
      with Cons Cons.IH [of s1] Cons.prems(2) None show ?thesis by auto
    qed
  qed
qed

end

end
