(* ===== verification/CString.thy ===== *)
theory CString
  imports Kernel_Prelude
begin

text \<open>
  std/string.c and memory/utills.c: the string and memory routines of the kernel, over byte
  buffers, with every read and write bounded by its buffer. \<open>char\<close> is signed on the target, so a
  difference of characters is a difference of \<open>sint\<close> values.
\<close>

section \<open>std/string.c\<close>

function strlen_loop :: "buffer \<Rightarrow> nat \<Rightarrow> nat run" where
  "strlen_loop str len =
     bind_run (rd str len) (\<lambda>c. if c \<noteq> 0 then strlen_loop str (Suc len) else Inr len)"
  by pat_completeness auto
termination by (relation "measure (\<lambda>(str, len). length str - len)") auto

definition strlen :: "buffer \<Rightarrow> nat run" where
  "strlen str = strlen_loop str 0"

text \<open>\<open>cdiff str1 str2 i\<close> is the value of \<open>str1[i] - str2[i]\<close>.\<close>

definition cdiff :: "buffer \<Rightarrow> buffer \<Rightarrow> nat \<Rightarrow> int run" where
  "cdiff str1 str2 i =
     bind_run (rd str1 i) (\<lambda>a. bind_run (rd str2 i) (\<lambda>b. Inr (sint a - sint b)))"

function strcmp_loop :: "buffer \<Rightarrow> buffer \<Rightarrow> nat \<Rightarrow> int run" where
  "strcmp_loop str1 str2 i =
     bind_run (rd str1 i) (\<lambda>a.
       if a \<noteq> 0 then
         bind_run (rd str2 i) (\<lambda>b.
           if b \<noteq> 0 then
             if a \<noteq> b then cdiff str1 str2 i else strcmp_loop str1 str2 (Suc i)
           else cdiff str1 str2 i)
       else cdiff str1 str2 i)"
  by pat_completeness auto
termination by (relation "measure (\<lambda>(str1, str2, i). length str1 - i)") auto

definition strcmp :: "buffer \<Rightarrow> buffer \<Rightarrow> int run" where
  "strcmp str1 str2 = strcmp_loop str1 str2 0"

text \<open>\<open>strncmp\<close> reads both characters before it compares the index with \<open>n\<close>.\<close>

definition strncmp_end :: "buffer \<Rightarrow> buffer \<Rightarrow> int \<Rightarrow> nat \<Rightarrow> int run" where
  "strncmp_end str1 str2 n i = (if int i = n then Inr 0 else cdiff str1 str2 i)"

function strncmp_loop :: "buffer \<Rightarrow> buffer \<Rightarrow> int \<Rightarrow> nat \<Rightarrow> int run" where
  "strncmp_loop str1 str2 n i =
     bind_run (rd str1 i) (\<lambda>a.
       if a \<noteq> 0 then
         bind_run (rd str2 i) (\<lambda>b.
           if b \<noteq> 0 \<and> int i < n then
             if a \<noteq> b then cdiff str1 str2 i else strncmp_loop str1 str2 n (Suc i)
           else strncmp_end str1 str2 n i)
       else strncmp_end str1 str2 n i)"
  by pat_completeness auto
termination by (relation "measure (\<lambda>(str1, str2, n, i). length str1 - i)") auto

definition strncmp :: "buffer \<Rightarrow> buffer \<Rightarrow> int \<Rightarrow> int run" where
  "strncmp str1 str2 n = strncmp_loop str1 str2 n 0"

function strcpy_loop :: "buffer \<Rightarrow> buffer \<Rightarrow> nat \<Rightarrow> buffer run" where
  "strcpy_loop dest src i =
     bind_run (rd src i) (\<lambda>c.
       if c \<noteq> 0 then bind_run (wr i c dest) (\<lambda>dest'. strcpy_loop dest' src (Suc i))
       else wr i 0 dest)"
  by pat_completeness auto
termination by (relation "measure (\<lambda>(dest, src, i). length src - i)") auto

definition strcpy :: "buffer \<Rightarrow> buffer \<Rightarrow> buffer run" where
  "strcpy dest src = strcpy_loop dest src 0"

text \<open>The two loops of \<open>strncpy\<close>, each with the number of positions still to fill.\<close>

fun strncpy_pad :: "buffer \<Rightarrow> nat \<Rightarrow> nat \<Rightarrow> buffer run" where
  "strncpy_pad dest i 0 = Inr dest"
| "strncpy_pad dest i (Suc n) = bind_run (wr i 0 dest) (\<lambda>dest'. strncpy_pad dest' (Suc i) n)"

fun strncpy_loop :: "buffer \<Rightarrow> buffer \<Rightarrow> nat \<Rightarrow> nat \<Rightarrow> buffer run" where
  "strncpy_loop dest src i 0 = Inr dest"
| "strncpy_loop dest src i (Suc n) =
     bind_run (rd src i) (\<lambda>c.
       if c \<noteq> 0 then bind_run (wr i c dest) (\<lambda>dest'. strncpy_loop dest' src (Suc i) n)
       else strncpy_pad dest i (Suc n))"

definition strncpy :: "buffer \<Rightarrow> buffer \<Rightarrow> int \<Rightarrow> buffer run" where
  "strncpy dest src n = strncpy_loop dest src 0 (nat n)"

fun memcmp_loop :: "buffer \<Rightarrow> buffer \<Rightarrow> nat \<Rightarrow> nat \<Rightarrow> int run" where
  "memcmp_loop buf1 buf2 i 0 = Inr 0"
| "memcmp_loop buf1 buf2 i (Suc n) =
     bind_run (rd buf1 i) (\<lambda>a. bind_run (rd buf2 i) (\<lambda>b.
       if a \<noteq> b then Inr (uint a - uint b) else memcmp_loop buf1 buf2 (Suc i) n))"

definition memcmp :: "buffer \<Rightarrow> buffer \<Rightarrow> u32 \<Rightarrow> int run" where
  "memcmp buf1 buf2 num = memcmp_loop buf1 buf2 0 (unat num)"

section \<open>memory/utills.c\<close>

text \<open>The destination starts \<open>off\<close> bytes into its buffer, as in \<open>memcpy(buffer + total_read, ...)\<close>.\<close>

fun memset_loop :: "buffer \<Rightarrow> nat \<Rightarrow> u8 \<Rightarrow> nat \<Rightarrow> buffer run" where
  "memset_loop p i v 0 = Inr p"
| "memset_loop p i v (Suc n) = bind_run (wr i v p) (\<lambda>p'. memset_loop p' (Suc i) v n)"

definition memset :: "buffer \<Rightarrow> u8 \<Rightarrow> u32 \<Rightarrow> buffer run" where
  "memset p v num = memset_loop p 0 v (unat num)"

fun memcpy_loop :: "buffer \<Rightarrow> nat \<Rightarrow> buffer \<Rightarrow> nat \<Rightarrow> nat \<Rightarrow> buffer run" where
  "memcpy_loop d off s i 0 = Inr d"
| "memcpy_loop d off s i (Suc n) =
     bind_run (rd s i) (\<lambda>c. bind_run (wr (off + i) c d) (\<lambda>d'. memcpy_loop d' off s (Suc i) n))"

definition memcpy :: "buffer \<Rightarrow> nat \<Rightarrow> buffer \<Rightarrow> u32 \<Rightarrow> buffer run" where
  "memcpy d off s num = memcpy_loop d off s 0 (unat num)"

section \<open>Reference functions\<close>

text \<open>Comparison of two strings without their terminators, reading a missing character as 0.\<close>

fun str_diff :: "u8 list \<Rightarrow> u8 list \<Rightarrow> int" where
  "str_diff [] [] = 0"
| "str_diff [] (y # ys) = - sint y"
| "str_diff (x # xs) [] = sint x"
| "str_diff (x # xs) (y # ys) = (if x = y then str_diff xs ys else sint x - sint y)"

section \<open>The loops\<close>

declare strlen_loop.simps [simp del] strcmp_loop.simps [simp del] strncmp_loop.simps [simp del]
  strcpy_loop.simps [simp del]

lemma strlen_loop_str: "holds_str (drop i b) s \<Longrightarrow> strlen_loop b i = Inr (i + length s)"
  by (induction s arbitrary: i) (subst strlen_loop.simps, auto simp: holds_str_at)+

lemma strlen_str: "holds_str b s \<Longrightarrow> strlen b = Inr (length s)"
  using strlen_loop_str [of 0 b s] by (simp add: strlen_def)

lemma strcmp_loop_str:
  "holds_str (drop i a) s \<Longrightarrow> holds_str (drop i b) t \<Longrightarrow> strcmp_loop a b i = Inr (str_diff s t)"
  by (induction s t arbitrary: i rule: str_diff.induct)
     (subst strcmp_loop.simps, auto simp: holds_str_at cdiff_def)+

lemma strcmp_str: "holds_str a s \<Longrightarrow> holds_str b t \<Longrightarrow> strcmp a b = Inr (str_diff s t)"
  using strcmp_loop_str [of 0 a s b t] by (simp add: strcmp_def)

lemma strncmp_loop_str:
  "holds_str (drop i a) s \<Longrightarrow> holds_str (drop i b) t \<Longrightarrow>
     strncmp_loop a b (int i + int m) i = Inr (str_diff (take m s) (take m t))"
proof (induction s t arbitrary: i m rule: str_diff.induct)
  case (4 x xs y ys)
  show ?case
  proof (cases m)
    case 0
    with 4 show ?thesis
      by (subst strncmp_loop.simps) (auto simp: holds_str_at strncmp_end_def)
  next
    case (Suc k)
    with 4(2,3) 4(1) [of "Suc i" k] show ?thesis
      by (subst strncmp_loop.simps) (auto simp: holds_str_at cdiff_def add_ac)
  qed
qed (subst strncmp_loop.simps, case_tac m, auto simp: holds_str_at strncmp_end_def cdiff_def)+

lemma strncmp_str:
  "holds_str a s \<Longrightarrow> holds_str b t \<Longrightarrow> 0 \<le> n \<Longrightarrow>
     strncmp a b n = Inr (str_diff (take (nat n) s) (take (nat n) t))"
  using strncmp_loop_str [of 0 a s b t "nat n"] by (simp add: strncmp_def)

section \<open>The order on strings\<close>

lemma sint_eq_0_iff: "sint (x :: u8) = 0 \<longleftrightarrow> x = 0"
  by (metis sint_0 signed_eq_0_iff)

lemma str_diff_eq_0: "0 \<notin> set s \<Longrightarrow> 0 \<notin> set t \<Longrightarrow> str_diff s t = 0 \<longleftrightarrow> s = t"
  by (induction s t rule: str_diff.induct) (auto simp: sint_eq_0_iff dest: signed_word_eqI)

lemma str_diff_swap: "str_diff t s = - str_diff s t"
  by (induction s t rule: str_diff.induct) auto

lemma str_diff_less:
  assumes "\<forall>c \<in> set s \<union> set t. c \<noteq> 0 \<and> unat c < 128"
  shows "str_diff s t < 0 \<longleftrightarrow> (s, t) \<in> lexord {(x, y). x < y}"
proof -
  have sint: "sint c = int (unat c)" if "unat c < 128" for c :: u8
    using that by (intro sint_eq_unat) simp
  show ?thesis
    using assms
    by (induction s t rule: str_diff.induct)
       (auto simp: sint word_less_nat_alt unat_gt_0 simp del: of_nat_unat)
qed

section \<open>Copying\<close>

lemma strncpy_pad_spec:
  "i + n \<le> length dest \<Longrightarrow> strncpy_pad dest i n = Inr (take i dest @ replicate n 0 @ drop (i + n) dest)"
  by (induction n arbitrary: dest i) auto

lemma strncpy_loop_spec:
  "holds_str (drop i src) s \<Longrightarrow> i + n \<le> length dest \<Longrightarrow>
     strncpy_loop dest src i n = Inr (take i dest @ take n s @ replicate (n - length s) 0 @ drop (i + n) dest)"
proof (induction n arbitrary: dest i s)
  case (Suc n)
  then show ?case
    by (cases s) (auto simp: holds_str_at strncpy_pad_spec [of i "Suc n"] simp del: strncpy_pad.simps)
qed simp

lemma strcpy_loop_spec:
  "holds_str (drop i src) s \<Longrightarrow> i + length s < length dest \<Longrightarrow>
     strcpy_loop dest src i = Inr (take i dest @ s @ 0 # drop (Suc (i + length s)) dest)"
proof (induction s arbitrary: dest i)
  case Nil
  then show ?case
    by (subst strcpy_loop.simps) (simp add: holds_str_at upd_conv_take_nth_drop)
next
  case (Cons x xs)
  then show ?case by (subst strcpy_loop.simps) (simp add: holds_str_at)
qed

lemma memset_loop_spec:
  "i + n \<le> length p \<Longrightarrow> memset_loop p i v n = Inr (take i p @ replicate n v @ drop (i + n) p)"
  by (induction n arbitrary: p i) auto

lemma memcpy_loop_spec:
  "i + n \<le> length s \<Longrightarrow> off + i + n \<le> length d \<Longrightarrow>
     memcpy_loop d off s i n = Inr (take (off + i) d @ take n (drop i s) @ drop (off + i + n) d)"
proof (induction n arbitrary: d i)
  case (Suc n)
  moreover have "drop i s = s ! i # drop (Suc i) s"
    using Suc.prems by (intro Cons_nth_drop_Suc [symmetric]) simp
  ultimately show ?case
    using Suc.IH [of "Suc i" "d[off + i := s ! i]"] by simp
qed simp

lemma memcmp_loop_spec:
  "i + n \<le> length a \<Longrightarrow> i + n \<le> length b \<Longrightarrow>
     \<exists>d. memcmp_loop a b i n = Inr d \<and> (d = 0 \<longleftrightarrow> take n (drop i a) = take n (drop i b))"
proof (induction n arbitrary: i)
  case (Suc n)
  moreover have "drop i a = a ! i # drop (Suc i) a" "drop i b = b ! i # drop (Suc i) b"
    using Suc.prems by (simp_all add: Cons_nth_drop_Suc)
  ultimately show ?case using Suc.IH [of "Suc i"] by (auto dest: unsigned_word_eqI)
qed simp

lemma memset_spec:
  "unat num \<le> length p \<Longrightarrow> memset p v num = Inr (replicate (unat num) v @ drop (unat num) p)"
  using memset_loop_spec [of 0 "unat num" p v] by (simp add: memset_def)

lemma memcpy_spec:
  "unat num \<le> length s \<Longrightarrow> off + unat num \<le> length d \<Longrightarrow>
     memcpy d off s num = Inr (take off d @ take (unat num) s @ drop (off + unat num) d)"
  using memcpy_loop_spec [of 0 "unat num" s off d] by (simp add: memcpy_def)

lemma strncpy_spec:
  "holds_str src s \<Longrightarrow> nat n \<le> length dest \<Longrightarrow>
     strncpy dest src n = Inr (take (nat n) s @ replicate (nat n - length s) 0 @ drop (nat n) dest)"
  using strncpy_loop_spec [of 0 src s "nat n" dest] by (simp add: strncpy_def)

section \<open>Properties\<close>

text \<open>On two terminated strings strcmp returns, its result is 0 exactly when the strings are equal,
  exchanging the arguments changes its sign, and on 7-bit characters it is negative exactly when the
  first string comes before the second in the lexicographic order; strncmp with a bound at or above
  0 is strcmp on the prefixes of that length.\<close>

theorem strcmp_orders_strings:
  assumes "holds_str a s" and "holds_str b t" and "0 \<le> n"
  shows "\<exists>d. strcmp a b = Inr d \<and> strcmp b a = Inr (- d) \<and> (d = 0 \<longleftrightarrow> s = t)
           \<and> ((\<forall>c \<in> set s \<union> set t. unat c < 128) \<longrightarrow> (d < 0 \<longleftrightarrow> (s, t) \<in> lexord {(x, y). x < y}))
           \<and> (\<exists>e. strncmp a b n = Inr e \<and> (e = 0 \<longleftrightarrow> take (nat n) s = take (nat n) t))"
proof -
  have nz: "0 \<notin> set s" "0 \<notin> set t" using assms by (simp_all add: holds_str_def)
  then have "0 \<notin> set (take (nat n) s)" "0 \<notin> set (take (nat n) t)" by (auto dest: in_set_takeD)
  then have "str_diff (take (nat n) s) (take (nat n) t) = 0 \<longleftrightarrow> take (nat n) s = take (nat n) t"
    by (rule str_diff_eq_0)
  moreover have "str_diff s t < 0 \<longleftrightarrow> (s, t) \<in> lexord {(x, y). x < y}"
    if "\<forall>c \<in> set s \<union> set t. unat c < 128"
    using that nz by (intro str_diff_less) auto
  ultimately show ?thesis
    using assms strcmp_str [OF assms(1,2)] strcmp_str [OF assms(2,1)] strncmp_str [OF assms]
      str_diff_eq_0 [OF nz] str_diff_swap [of t s] by auto
qed

lemma strcmp_orders_strings_witness:
  "holds_str (ascii ''clear'') (chars ''clear'') \<and> holds_str (ascii ''clean'') (chars ''clean'')
   \<and> (\<exists>d. strcmp (ascii ''clear'') (ascii ''clean'') = Inr d \<and> d \<noteq> 0)"
proof -
  have h: "holds_str (ascii ''clear'') (chars ''clear'')" "holds_str (ascii ''clean'') (chars ''clean'')"
    by (simp_all add: holds_str_def ascii_def chars_def)
  have ne: "chars ''clear'' \<noteq> chars ''clean''" by (simp add: chars_def)
  from strcmp_orders_strings [OF h, of 4] h ne show ?thesis by auto
qed

text \<open>strcpy into a buffer with room for the string and its terminator copies both and changes
  nothing after them; strncpy fills exactly n bytes with the string cut at n and then zeros, so it
  leaves no terminator when the string has n characters or more.\<close>

theorem strcpy_strncpy_contents:
  assumes "holds_str src s" and "nat n \<le> length dest"
  shows "strncpy dest src n
           = Inr (take (nat n) s @ replicate (nat n - length s) 0 @ drop (nat n) dest)
         \<and> (length s < length dest \<longrightarrow> strcpy dest src = Inr (s @ 0 # drop (Suc (length s)) dest))"
  using strncpy_spec [OF assms] strcpy_loop_spec [of 0 src s dest] assms(1)
  by (simp add: strcpy_def)

lemma strcpy_strncpy_contents_witness:
  "strncpy [1, 2, 3, 4] (ascii ''init'') 3 = Inr (chars ''ini'' @ [4])
   \<and> strcpy [1, 2, 3, 4, 5, 6] (ascii ''init'') = Inr (chars ''init'' @ [0, 6])"
proof -
  have "holds_str (ascii ''init'') (chars ''init'')" by (simp add: holds_str_def ascii_def chars_def)
  from strcpy_strncpy_contents [OF this, of 3 "[1, 2, 3, 4]"]
    strcpy_strncpy_contents [OF this, of 0 "[1, 2, 3, 4, 5, 6]"]
  show ?thesis by (simp add: chars_def eval_nat_numeral)
qed

end
