(* ===== verification/Stdlib.thy ===== *)
theory Stdlib
  imports CString "HOL-Library.Signed_Division"
begin

text \<open>
  std/stdlib.c: conversion between 32-bit signed integers and decimal strings. C's \<open>/\<close> and \<open>%\<close> on
  \<open>int\<close> truncate towards zero (\<open>sdiv\<close>, \<open>smod\<close>); negation and the accumulation in \<open>atoi\<close> wrap around
  at 32 bits, as the code compiled for the target does.
\<close>

section \<open>int_to_string\<close>

text \<open>The do-while loop that writes the digits, least significant first.\<close>

function itos_digits :: "int \<Rightarrow> nat \<Rightarrow> buffer \<Rightarrow> (nat \<times> buffer) run" where
  "itos_digits num i str =
     bind_run (wr i (word_of_int (num smod 10 + 48)) str) (\<lambda>str'.
       if num sdiv 10 > 0 then itos_digits (num sdiv 10) (Suc i) str' else Inr (Suc i, str'))"
  by pat_completeness auto
termination
proof (relation "measure (\<lambda>(num, i, str). nat num)")
  fix num :: int and i :: nat and str x :: buffer
  assume "0 < num sdiv 10"
  then have "0 < num" by (simp add: signed_divide_int_def sgn_if split: if_splits)
  then have "num sdiv 10 = num div 10" by (simp add: signed_divide_int_def)
  with \<open>0 < num\<close> show "((num sdiv 10, Suc i, x), num, i, str) \<in> measure (\<lambda>(num, i, str). nat num)"
    by simp
qed simp

text \<open>The loop that reverses the first \<open>i\<close> bytes in place.\<close>

function itos_reverse :: "nat \<Rightarrow> nat \<Rightarrow> buffer \<Rightarrow> buffer run" where
  "itos_reverse i j str =
     (if j < i div 2 then
        bind_run (rd str j) (\<lambda>temp.
        bind_run (rd str (i - j - 1)) (\<lambda>c.
        bind_run (wr j c str) (\<lambda>str'.
        bind_run (wr (i - j - 1) temp str') (\<lambda>str''.
        itos_reverse i (Suc j) str''))))
      else Inr str)"
  by pat_completeness auto
termination by (relation "measure (\<lambda>(i, j, str). i div 2 - j)") auto

definition int_to_string :: "u32 \<Rightarrow> buffer \<Rightarrow> buffer run" where
  "int_to_string num str =
     (let is_negative = sint num < 0;
          n = (if is_negative then sint (- num) else sint num)
      in bind_run (itos_digits n 0 str) (\<lambda>(i, str1).
         bind_run (if is_negative
                   then bind_run (wr i 45 str1) (\<lambda>str2. Inr (Suc i, str2))
                   else Inr (i, str1)) (\<lambda>(i', str2).
         bind_run (wr i' 0 str2) (\<lambda>str3.
         itos_reverse i' 0 str3))))"

section \<open>atoi\<close>

function atoi_loop :: "buffer \<Rightarrow> nat \<Rightarrow> u32 \<Rightarrow> u32 run" where
  "atoi_loop str i result =
     bind_run (rd str i) (\<lambda>c.
       if c \<noteq> 0 then atoi_loop str (Suc i) (result * 10 + scast c - 48) else Inr result)"
  by pat_completeness auto
termination by (relation "measure (\<lambda>(str, i, result). length str - i)") auto

definition atoi :: "buffer \<Rightarrow> u32 run" where
  "atoi str =
     bind_run (rd str 0) (\<lambda>c.
       if c = 45 then bind_run (atoi_loop str 1 0) (\<lambda>r. Inr (- r))
       else atoi_loop str 0 0)"

section \<open>Decimal notation\<close>

text \<open>The digits of a natural number and of an integer, most significant first.\<close>

fun dec :: "nat \<Rightarrow> u8 list" where
  "dec n = (if n < 10 then [of_nat n + 48] else dec (n div 10) @ [of_nat (n mod 10) + 48])"

definition dec_int :: "int \<Rightarrow> u8 list" where
  "dec_int n = (if n < 0 then 45 # dec (nat (- n)) else dec (nat n))"

declare dec.simps [simp del] itos_digits.simps [simp del] itos_reverse.simps [simp del]
  atoi_loop.simps [simp del]

lemma dec_digit:
  assumes "c \<in> set (dec n)"
  shows "48 \<le> unat c \<and> unat c < 58"
  using assms
proof (induction n rule: dec.induct)
  case (1 n)
  have "unat (of_nat (k mod 10) + 48 :: u8) = k mod 10 + 48" for k
    by (subst unat_add_exact) (simp_all add: unat_of_nat)
  from this [of n] "1.IH" "1.prems" show ?case
    by (subst (asm) (2) dec.simps) (auto split: if_splits)
qed

lemma dec_length: "n < 10 ^ k \<Longrightarrow> 0 < k \<Longrightarrow> length (dec n) \<le> k"
proof (induction n arbitrary: k rule: dec.induct)
  case (1 n)
  show ?case
  proof (cases "n < 10")
    case True
    with "1.prems" show ?thesis by (subst dec.simps) simp
  next
    case False
    then have "k \<noteq> 1" using "1.prems"(1) by auto
    with "1.prems"(2) obtain m where k: "k = Suc m" "0 < m" by (cases k) auto
    then have "length (dec (n div 10)) \<le> m"
      using "1.IH" [OF False] "1.prems"(1) by simp
    with False k show ?thesis by (subst dec.simps) simp
  qed
qed

section \<open>Correctness of the loops\<close>

lemma itos_digits_spec:
  "i + length (dec n) \<le> length str \<Longrightarrow>
     itos_digits (int n) i str =
       Inr (i + length (dec n), take i str @ rev (dec n) @ drop (i + length (dec n)) str)"
proof (induction n arbitrary: i str rule: dec.induct)
  case (1 n)
  have quot: "int n sdiv 10 = int (n div 10)" "int n smod 10 = int (n mod 10)"
    by (simp_all add: signed_divide_int_def signed_modulo_int_def zdiv_int zmod_int sgn_if)
  have digit: "word_of_int (int (n mod 10) + 48) = (of_nat (n mod 10) + 48 :: u8)"
    by simp
  show ?case
  proof (cases "n < 10")
    case True
    then have "n div 10 = 0" "n mod 10 = n" "dec n = [of_nat n + 48]" by (simp_all add: dec.simps)
    with "1.prems" digit show ?thesis
      by (subst itos_digits.simps) (simp add: quot upd_conv_take_nth_drop)
  next
    case False
    then have n: "0 < n div 10" "dec n = dec (n div 10) @ [of_nat (n mod 10) + 48]"
      by (simp_all add: dec.simps [of n] div_greater_zero_iff)
    with "1.prems" have "Suc i + length (dec (n div 10)) \<le> length str" by simp
    with "1.IH" [OF False, of "Suc i" "str[i := of_nat (n mod 10) + 48]"] n digit show ?thesis
      by (subst itos_digits.simps) (simp add: quot)
  qed
qed

lemma swap_reverse_nth:
  fixes s :: "'a list"
  assumes "j < m" "m < length s" "k < length s"
    and nth: "t ! k = (if Suc j \<le> k \<and> k < m then s[j := s ! m, m := s ! j] ! (m + j - k) else s[j := s ! m, m := s ! j] ! k)"
  shows "t ! k = (if j \<le> k \<and> k \<le> m then s ! (m + j - k) else s ! k)"
proof -
  consider "k = j" | "k = m" | "j < k" "k < m" | "k < j" | "m < k" by linarith
  then show ?thesis
  proof cases
    case 3
    then have "m + j - k \<noteq> m" "m + j - k \<noteq> j" using assms by linarith+
    with 3 assms show ?thesis by simp
  qed (use assms in simp_all)
qed

lemma itos_reverse_nth:
  "j \<le> i div 2 \<Longrightarrow> i \<le> length str \<Longrightarrow>
     \<exists>str'. itos_reverse i j str = Inr str' \<and> length str' = length str \<and>
       (\<forall>k < length str. str' ! k = (if j \<le> k \<and> k < i - j then str ! (i - 1 - k) else str ! k))"
proof (induction "i div 2 - j" arbitrary: j str)
  case 0
  then have "j = i div 2" by simp
  then have "itos_reverse i j str = Inr str" by (subst itos_reverse.simps) simp
  moreover have "k = i - 1 - k" if "j \<le> k" "k < i - j" for k using that \<open>j = i div 2\<close> by linarith
  ultimately show ?case by auto
next
  case (Suc d)
  then have j: "j < i div 2" "i - j - 1 < length str" "j < length str" by simp_all
  let ?s = "str[j := str ! (i - j - 1), i - j - 1 := str ! j]"
  have "\<exists>str'. itos_reverse i (Suc j) ?s = Inr str' \<and> length str' = length ?s \<and>
       (\<forall>k < length ?s. str' ! k = (if Suc j \<le> k \<and> k < i - Suc j then ?s ! (i - 1 - k) else ?s ! k))"
    using Suc j by (intro Suc.hyps(1)) auto
  then obtain str' where str': "itos_reverse i (Suc j) ?s = Inr str'" "length str' = length str"
    and nth: "\<And>k. k < length str \<Longrightarrow>
      str' ! k = (if Suc j \<le> k \<and> k < i - Suc j then ?s ! (i - 1 - k) else ?s ! k)" by auto
  have "itos_reverse i j str = Inr str'"
    using j str' by (subst itos_reverse.simps) simp
  moreover have "str' ! k = (if j \<le> k \<and> k < i - j then str ! (i - 1 - k) else str ! k)"
    if k: "k < length str" for k
  proof -
    have m: "j < i - Suc j" "(i - Suc j) + j - k = i - 1 - k" "k \<le> i - Suc j \<longleftrightarrow> k < i - j"
      using j by linarith+
    from swap_reverse_nth [OF m(1) _ k, of str'] nth [OF k] j show ?thesis
      unfolding m by simp
  qed
  ultimately show ?case using str' by auto
qed

lemma itos_reverse_spec:
  assumes "i \<le> length str"
  shows "itos_reverse i 0 str = Inr (rev (take i str) @ drop i str)"
proof -
  obtain str' where str': "itos_reverse i 0 str = Inr str'" "length str' = length str"
    and nth: "\<And>k. k < length str \<Longrightarrow> str' ! k = (if k < i then str ! (i - 1 - k) else str ! k)"
    using itos_reverse_nth [OF _ assms, of 0] by auto
  have "str' = rev (take i str) @ drop i str"
    using assms str'(2) nth by (intro nth_equalityI) (auto simp: nth_append rev_nth)
  with str'(1) show ?thesis by simp
qed

section \<open>The printed number\<close>

lemma dec_not_0: "0 \<notin> set (dec n)"
  using dec_digit [of 0 n] by auto

lemma sint_minus_exact:
  fixes num :: u32
  assumes "num \<noteq> 0x80000000"
  shows "sint (- num) = - sint num"
proof -
  have "sint num \<noteq> - 2147483648"
  proof
    assume "sint num = - 2147483648"
    then have "word_of_int (sint num) = (word_of_int (- 2147483648) :: u32)" by simp
    then have "num = 0x80000000" by simp
    with assms show False by simp
  qed
  moreover have "- 2147483648 \<le> sint num" "sint num < 2147483648"
    using sint_greater_eq [of num] sint_less [of num] by simp_all
  ultimately have "signed_take_bit 31 (- sint num) = - sint num"
    by (intro signed_take_bit_int_eq_self) simp_all
  moreover have "sint (- num) = signed_take_bit 31 (- sint num)"
    by (simp add: sint_word_minus)
  ultimately show ?thesis by simp
qed

lemma wr_next:
  "length xs < length str \<Longrightarrow>
     wr (length xs) c (xs @ drop (length xs) str) = Inr ((xs @ [c]) @ drop (length (xs @ [c])) str)"
  by (simp add: upd_conv_take_nth_drop)

lemma int_to_string_spec:
  assumes "num \<noteq> 0x80000000" and "12 \<le> length str"
  shows "int_to_string num str =
           Inr (dec_int (sint num) @ 0 # drop (Suc (length (dec_int (sint num)))) str)"
    and "length (dec_int (sint num)) \<le> 11"
proof -
  define n where "n = nat \<bar>sint num\<bar>"
  have "n < 10 ^ 10" using sint_greater_eq [of num] sint_less [of num] unfolding n_def by simp
  then have len: "length (dec n) \<le> 10" by (rule dec_length) simp
  have num: "(if sint num < 0 then sint (- num) else sint num) = int n"
    using sint_minus_exact [OF assms(1)] by (simp add: n_def)
  have digits: "itos_digits (int n) 0 str =
      Inr (length (rev (dec n)), rev (dec n) @ drop (length (rev (dec n))) str)"
    using itos_digits_spec [of 0 n str] len assms(2) by simp
  let ?t = "if sint num < 0 then rev (dec n) @ [45] else rev (dec n)"
  have t: "dec_int (sint num) = rev ?t" "length ?t \<le> 11"
    using len by (auto simp: dec_int_def n_def)
  then show "length (dec_int (sint num)) \<le> 11" by simp
  have rev: "itos_reverse (length xs) 0 (xs @ 0 # ys) = Inr (rev xs @ 0 # ys)" for xs ys
    using itos_reverse_spec [of "length xs" "xs @ 0 # ys"] by simp
  have "wr (length (rev (dec n))) 45 (rev (dec n) @ drop (length (rev (dec n))) str) =
      Inr ((rev (dec n) @ [45]) @ drop (length (rev (dec n) @ [45])) str)"
    using len assms(2) by (intro wr_next) simp
  then have "int_to_string num str =
      bind_run (wr (length ?t) 0 (?t @ drop (length ?t) str)) (itos_reverse (length ?t) 0)"
    by (simp add: int_to_string_def num digits)
  also have "\<dots> = Inr (rev ?t @ 0 # drop (Suc (length ?t)) str)"
    using wr_next [of ?t str 0] t(2) assms(2) rev [of ?t] by simp
  finally show "int_to_string num str =
      Inr (dec_int (sint num) @ 0 # drop (Suc (length (dec_int (sint num)))) str)"
    by (simp only: t(1) length_rev)
qed

lemma dec_int_not_0: "0 \<notin> set (dec_int k)"
  by (simp add: dec_int_def dec_not_0)

lemma int_to_string_holds:
  assumes "num \<noteq> 0x80000000" and "12 \<le> length str"
  obtains str' where "int_to_string num str = Inr str'" "holds_str str' (dec_int (sint num))"
    "length str' = length str"
  using int_to_string_spec [OF assms] assms(2)
  by (auto simp: holds_str_append dec_int_not_0 intro!: that)

section \<open>Reading a number back\<close>

definition atoi_step :: "u8 \<Rightarrow> u32 \<Rightarrow> u32" where
  "atoi_step c r = r * 10 + scast c - 48"

lemma atoi_loop_str:
  "holds_str (drop i b) s \<Longrightarrow> atoi_loop b i r = Inr (fold atoi_step s r)"
proof (induction s arbitrary: i r)
  case Nil
  then show ?case by (subst atoi_loop.simps) (auto simp: holds_str_at)
next
  case (Cons x xs)
  then show ?case
    by (subst atoi_loop.simps) (auto simp: holds_str_at atoi_step_def [symmetric])
qed

lemma atoi_step_digit: "d < 10 \<Longrightarrow> atoi_step (of_nat d + 48) r = r * 10 + of_nat d"
proof -
  assume "d < 10"
  then have u: "unat (of_nat d + 48 :: u8) = d + 48"
    by (subst unat_add_exact) (simp_all add: unat_of_nat)
  have "(scast (of_nat d + 48 :: u8) :: u32) = ucast (of_nat d + 48 :: u8)"
    by (rule scast_nonneg) (use u \<open>d < 10\<close> in simp)
  also have "\<dots> = of_nat (d + 48)" unfolding u [symmetric] by (rule of_nat_unat [symmetric])
  finally show ?thesis by (simp add: atoi_step_def)
qed

lemma fold_atoi_dec: "fold atoi_step (dec n) 0 = of_nat n"
proof (induction n rule: dec.induct)
  case (1 n)
  show ?case
  proof (cases "n < 10")
    case True
    then show ?thesis by (subst dec.simps) (simp add: atoi_step_digit)
  next
    case False
    with 1 have "fold atoi_step (dec n) 0 = of_nat (n div 10) * 10 + of_nat (n mod 10)"
      by (subst dec.simps) (simp add: atoi_step_digit)
    also have "\<dots> = of_nat (n div 10 * 10 + n mod 10)" by (simp only: of_nat_add of_nat_mult of_nat_numeral)
    finally show ?thesis by simp
  qed
qed

lemma dec_Cons: "\<exists>c cs. dec n = c # cs \<and> c \<noteq> 45"
proof -
  have "dec n \<noteq> []" by (subst dec.simps) simp
  then obtain c cs where "dec n = c # cs" by (cases "dec n") auto
  moreover have "c \<noteq> 45" using dec_digit [of c n] \<open>dec n = c # cs\<close> by auto
  ultimately show ?thesis by blast
qed

lemma atoi_dec_int:
  assumes "holds_str b (dec_int k)"
  shows "atoi b = Inr (word_of_int k)"
proof (cases "k < 0")
  case True
  with assms have b: "holds_str (drop 0 b) (45 # dec (nat (- k)))" by (simp add: dec_int_def)
  then have "holds_str (drop 1 b) (dec (nat (- k)))" by (simp only: holds_str_at) simp
  then have "atoi_loop b 1 0 = Inr (of_nat (nat (- k)))"
    using atoi_loop_str fold_atoi_dec by metis
  moreover have "rd b 0 = Inr 45" using b by (simp only: holds_str_at) simp
  ultimately show ?thesis using True by (simp add: atoi_def)
next
  case False
  obtain c cs where c: "dec (nat k) = c # cs" "c \<noteq> 45" using dec_Cons by blast
  with False assms have b: "holds_str (drop 0 b) (c # cs)" by (simp add: dec_int_def)
  then have "atoi_loop b 0 0 = Inr (of_nat (nat k))"
    using atoi_loop_str [of 0 b] by (simp add: fold_atoi_dec flip: c)
  moreover have "rd b 0 = Inr c" using b by (simp only: holds_str_at) simp
  ultimately show ?thesis using False c(2) by (simp add: atoi_def)
qed

section \<open>Properties\<close>

text \<open>Printing a 32-bit integer other than INT_MIN into a buffer of 12 bytes or more stays inside
  the buffer, leaves its decimal notation there with a minus sign for negative numbers, and atoi reads
  the same integer back.\<close>

theorem int_to_string_atoi:
  assumes "num \<noteq> 0x80000000" and "12 \<le> length str"
  shows "\<exists>str'. int_to_string num str = Inr str' \<and> length str' = length str
           \<and> holds_str str' (dec_int (sint num)) \<and> atoi str' = Inr num"
proof -
  obtain str' where str': "int_to_string num str = Inr str'" "holds_str str' (dec_int (sint num))"
    "length str' = length str" using assms by (rule int_to_string_holds)
  have "atoi str' = Inr num" using atoi_dec_int [OF str'(2)] by simp
  with str' show ?thesis by blast
qed

lemma int_to_string_atoi_witness:
  "\<exists>str'. int_to_string (- 120) (replicate 12 0) = Inr str' \<and> length str' = 12
     \<and> holds_str str' (chars ''-120'') \<and> atoi str' = Inr (- 120)"
proof -
  have "dec_int (sint (- 120 :: u32)) = chars ''-120''" by code_simp
  then show ?thesis using int_to_string_atoi [of "- 120" "replicate 12 0"] by simp
qed

text \<open>For INT_MIN the negation in int_to_string wraps back to INT_MIN, the single pass of the digit
  loop takes a negative remainder, and the text printed is \<open>-(\<close>.\<close>

theorem int_to_string_INT_MIN:
  assumes "3 \<le> length str"
  shows "int_to_string 0x80000000 str = Inr (chars ''-('' @ 0 # drop 3 str)"
proof -
  obtain a b c rest where "str = a # b # c # rest"
    using assms by (auto simp: numeral_3_eq_3 Suc_le_length_iff)
  moreover have "itos_reverse 2 0 (40 # 45 # 0 # rest) = Inr (45 # 40 # 0 # rest)"
    using itos_reverse_spec [of 2 "40 # 45 # 0 # rest"] by simp
  ultimately show ?thesis
    by (simp add: int_to_string_def itos_digits.simps chars_def signed_divide_int_def
        signed_modulo_int_def eval_nat_numeral)
qed

lemma int_to_string_INT_MIN_witness:
  "int_to_string 0x80000000 (replicate 12 0) = Inr (chars ''-('' @ 0 # replicate 9 0)"
  using int_to_string_INT_MIN [of "replicate 12 0"] by simp

end
