(* ===== verification/Screen.thy ===== *)
theory Screen
  imports Stdlib
begin

text \<open>
  drivers/screen.c: the VGA text screen. The 80 x 25 text buffer at VGA_ADDRESS is a list of 2000
  letters, reads and writes outside it stop the run; \<open>pos_on_screen\<close> and \<open>color\<close> are the static
  variables of the file. The abstract terminal is the unbounded list of the letters printed so far; the
  lemmas show that the screen is a window of 25 rows on it.
\<close>

section \<open>State\<close>

record letter =
  letter_c :: u8
  letter_color :: u8

record screen =
  video_memory :: "letter list"
  pos_on_screen :: u32
  color :: u8

definition VGA_WIDTH :: nat where "VGA_WIDTH = 80"
definition VGA_HEIGHT :: nat where "VGA_HEIGHT = 25"
definition VGA_MAX_CHARS :: nat where "VGA_MAX_CHARS = VGA_WIDTH * VGA_HEIGHT"
definition WHITE_ON_BLACK :: u8 where "WHITE_ON_BLACK = 0x07"
definition EMPTY_LETTER :: letter where "EMPTY_LETTER = \<lparr>letter_c = 0, letter_color = WHITE_ON_BLACK\<rparr>"

lemmas vga_defs = VGA_WIDTH_def VGA_HEIGHT_def VGA_MAX_CHARS_def

definition video_rd :: "letter list \<Rightarrow> nat \<Rightarrow> letter run" where
  "video_rd v i = (if i < length v then Inr (v ! i) else Inl Out_of_bounds)"

definition video_wr :: "nat \<Rightarrow> letter \<Rightarrow> letter list \<Rightarrow> letter list run" where
  "video_wr i l v = (if i < length v then Inr (v[i := l]) else Inl Out_of_bounds)"

section \<open>Operations\<close>

text \<open>\<open>clear_cells i n\<close> is a loop that writes EMPTY_LETTER to \<open>n\<close> cells from cell \<open>i\<close> on.\<close>

fun clear_cells :: "nat \<Rightarrow> nat \<Rightarrow> letter list \<Rightarrow> letter list run" where
  "clear_cells i 0 v = Inr v"
| "clear_cells i (Suc n) v = bind_run (video_wr i EMPTY_LETTER v) (clear_cells (Suc i) n)"

definition clear_screen :: "screen \<Rightarrow> screen run" where
  "clear_screen s = bind_run (clear_cells 0 VGA_MAX_CHARS (video_memory s)) (\<lambda>v.
     Inr (s\<lparr>video_memory := v, pos_on_screen := 0\<rparr>))"

definition clear_row :: "int \<Rightarrow> screen \<Rightarrow> screen run" where
  "clear_row row s =
     (if row < 0 \<or> row \<ge> int VGA_HEIGHT then Inr s
      else bind_run (clear_cells (nat row * VGA_WIDTH) VGA_WIDTH (video_memory s)) (\<lambda>v.
        Inr (s\<lparr>video_memory := v\<rparr>)))"

text \<open>The two nested loops of \<open>scroll_screen\<close>: \<open>n\<close> columns, then \<open>n\<close> rows still to move.\<close>

fun scroll_cols :: "nat \<Rightarrow> nat \<Rightarrow> nat \<Rightarrow> letter list \<Rightarrow> letter list run" where
  "scroll_cols row col 0 v = Inr v"
| "scroll_cols row col (Suc n) v =
     bind_run (video_rd v (row * VGA_WIDTH + col)) (\<lambda>l.
     bind_run (video_wr ((row - 1) * VGA_WIDTH + col) l v) (scroll_cols row (Suc col) n))"

fun scroll_rows :: "nat \<Rightarrow> nat \<Rightarrow> letter list \<Rightarrow> letter list run" where
  "scroll_rows row 0 v = Inr v"
| "scroll_rows row (Suc n) v = bind_run (scroll_cols row 0 VGA_WIDTH v) (scroll_rows (Suc row) n)"

definition scroll_screen :: "screen \<Rightarrow> screen run" where
  "scroll_screen s =
     bind_run (scroll_rows 1 (VGA_HEIGHT - 1) (video_memory s)) (\<lambda>v.
     bind_run (clear_row (int VGA_HEIGHT - 1) (s\<lparr>video_memory := v\<rparr>)) (\<lambda>s'.
     Inr (s'\<lparr>pos_on_screen := of_nat ((VGA_HEIGHT - 1) * VGA_WIDTH)\<rparr>)))"

definition put_char :: "u8 \<Rightarrow> screen \<Rightarrow> screen run" where
  "put_char c s =
     bind_run (if unat (pos_on_screen s) \<ge> VGA_MAX_CHARS then scroll_screen s else Inr s) (\<lambda>s.
       if c = 10 then
         Inr (s\<lparr>pos_on_screen := (pos_on_screen s div of_nat VGA_WIDTH + 1) * of_nat VGA_WIDTH\<rparr>)
       else
         bind_run (video_wr (unat (pos_on_screen s)) \<lparr>letter_c = c, letter_color = color s\<rparr>
                     (video_memory s)) (\<lambda>v.
         Inr (s\<lparr>video_memory := v, pos_on_screen := pos_on_screen s + 1\<rparr>)))"

text \<open>\<open>put_string\<close> walks a pointer through the string; \<open>i\<close> is its offset.\<close>

function put_string_loop :: "buffer \<Rightarrow> nat \<Rightarrow> screen \<Rightarrow> screen run" where
  "put_string_loop str i s =
     bind_run (rd str i) (\<lambda>c.
       if c \<noteq> 0 then bind_run (put_char c s) (put_string_loop str (Suc i)) else Inr s)"
  by pat_completeness auto
termination by (relation "measure (\<lambda>(str, i, s). length str - i)") auto

definition put_string :: "buffer \<Rightarrow> screen \<Rightarrow> screen run" where
  "put_string str s = put_string_loop str 0 s"

text \<open>\<open>num_str\<close> is the uninitialised array of 12 bytes on the stack; what it holds does not matter.\<close>

definition put_int :: "u32 \<Rightarrow> screen \<Rightarrow> screen run" where
  "put_int num s = bind_run (int_to_string num (replicate 12 0)) (\<lambda>num_str. put_string num_str s)"

definition set_color :: "u8 \<Rightarrow> screen \<Rightarrow> screen" where
  "set_color new_color s = s\<lparr>color := new_color\<rparr>"

definition set_color_to_default :: "screen \<Rightarrow> screen" where
  "set_color_to_default s = s\<lparr>color := WHITE_ON_BLACK\<rparr>"

function move_cursor_back :: "screen \<Rightarrow> screen run" where
  "move_cursor_back s =
     (if pos_on_screen s > 0 then
        let s = s\<lparr>pos_on_screen := pos_on_screen s - 1\<rparr> in
        bind_run (video_rd (video_memory s) (unat (pos_on_screen s))) (\<lambda>l.
          if letter_c l \<noteq> letter_c EMPTY_LETTER then
            bind_run (video_wr (unat (pos_on_screen s)) EMPTY_LETTER (video_memory s)) (\<lambda>v.
            Inr (s\<lparr>video_memory := v\<rparr>))
          else move_cursor_back s)
      else Inr s)"
  by pat_completeness auto
termination
  by (relation "measure (\<lambda>s. unat (pos_on_screen s))") (auto simp: measure_unat)

declare put_string_loop.simps [simp del] move_cursor_back.simps [simp del]

text \<open>The static initialisers, over whatever the firmware left in video memory.\<close>

definition screen_boot :: "letter list \<Rightarrow> screen" where
  "screen_boot v = \<lparr>video_memory = v, pos_on_screen = 0, color = WHITE_ON_BLACK\<rparr>"

section \<open>What the loops do\<close>

definition screen_inv :: "screen \<Rightarrow> bool" where
  "screen_inv s \<longleftrightarrow> length (video_memory s) = 2000 \<and> unat (pos_on_screen s) \<le> 2000"

lemma video_rd_in [simp]: "i < length v \<Longrightarrow> video_rd v i = Inr (v ! i)"
  by (simp add: video_rd_def)

lemma video_wr_in [simp]: "i < length v \<Longrightarrow> video_wr i l v = Inr (v[i := l])"
  by (simp add: video_wr_def)

lemma take_Suc_updated [simp]: "i < length v \<Longrightarrow> take (Suc i) (v[i := l]) = take i v @ [l]"
  by (simp add: take_Suc_conv_app_nth)

lemma clear_cells_spec:
  "i + n \<le> length v \<Longrightarrow>
     clear_cells i n v = Inr (take i v @ replicate n EMPTY_LETTER @ drop (i + n) v)"
  by (induction n arbitrary: v i) auto

lemma scroll_cols_spec:
  "0 < row \<Longrightarrow> row * 80 + col + n \<le> length v \<Longrightarrow> col + n \<le> 80 \<Longrightarrow>
     scroll_cols row col n v =
       Inr (take ((row - 1) * 80 + col) v @ take n (drop (row * 80 + col) v)
            @ drop ((row - 1) * 80 + col + n) v)"
proof (induction n arbitrary: v col)
  case (Suc n)
  let ?i = "row * 80 + col" and ?j = "(row - 1) * 80 + col"
  have j: "?j < ?i" "?i < length v" "?j < length v" "?j + Suc n \<le> ?i" using Suc.prems by (cases row; simp)+
  have "drop ?i v = v ! ?i # drop (Suc ?i) v" using j by (simp add: Cons_nth_drop_Suc)
  with Suc.IH [of "Suc col" "v[?j := v ! ?i]"] Suc.prems j show ?case
    by (simp add: VGA_WIDTH_def)
qed simp

lemma scroll_rows_spec:
  "length A = 80 * r \<Longrightarrow> length B = 80 \<Longrightarrow> length C = 80 * n \<Longrightarrow>
     scroll_rows (Suc r) n (A @ B @ C) = Inr (A @ C @ drop (80 * n) (B @ C))"
proof (induction n arbitrary: A B C r)
  case 0
  then show ?case by simp
next
  case (Suc n)
  define C1 C2 where "C1 = take 80 C" and "C2 = drop 80 C"
  then have C: "C = C1 @ C2" "length C1 = 80" "length C2 = 80 * n" using Suc.prems by simp_all
  have "scroll_cols (Suc r) 0 VGA_WIDTH (A @ B @ C) = Inr (A @ C1 @ C1 @ C2)"
    using scroll_cols_spec [of "Suc r" 0 80 "A @ B @ C"] Suc.prems C
    by (simp add: VGA_WIDTH_def mult.commute)
  moreover have "scroll_rows (Suc (Suc r)) n ((A @ C1) @ C1 @ C2)
      = Inr ((A @ C1) @ C2 @ drop (80 * n) (C1 @ C2))"
    using Suc.prems C by (intro Suc.IH) simp_all
  moreover have "drop (80 * Suc n) (B @ C) = drop (80 * n) C" using Suc.prems(2) by simp
  ultimately show ?case using C(1) by (simp del: mult_Suc_right)
qed

lemma scroll_screen_spec:
  assumes "length (video_memory s) = 2000"
  shows "scroll_screen s = Inr (s\<lparr>video_memory := drop 80 (video_memory s) @ replicate 80 EMPTY_LETTER,
           pos_on_screen := 1920\<rparr>)"
proof -
  have "scroll_rows 1 24 (video_memory s)
      = Inr (drop 80 (video_memory s) @ drop 1920 (video_memory s))"
    using scroll_rows_spec [of "[]" 0 "take 80 (video_memory s)" "drop 80 (video_memory s)" 24] assms
    by simp
  then show ?thesis
    using assms by (simp add: scroll_screen_def vga_defs clear_row_def clear_cells_spec)
qed

section \<open>The terminal behind the screen\<close>

text \<open>
  \<open>tput col c out\<close> is the output \<open>out\<close> after printing \<open>c\<close> in colour \<open>col\<close>: a newline fills the row. The
  screen \<open>shows out k\<close> when its rows are those of \<open>out\<close> from row \<open>k\<close> on, the rest is empty and the cursor
  is where \<open>out\<close> ends.
\<close>

definition tput :: "u8 \<Rightarrow> u8 \<Rightarrow> letter list \<Rightarrow> letter list" where
  "tput col c out =
     (if c = 10 then out @ replicate (80 - length out mod 80) EMPTY_LETTER
      else out @ [\<lparr>letter_c = c, letter_color = col\<rparr>])"

definition shows_rows :: "letter list \<Rightarrow> nat \<Rightarrow> screen \<Rightarrow> bool" where
  "shows_rows out k s \<longleftrightarrow> 80 * k \<le> length out \<and> length out \<le> 80 * k + 2000
     \<and> unat (pos_on_screen s) = length out - 80 * k
     \<and> video_memory s = drop (80 * k) out @ replicate (2000 + 80 * k - length out) EMPTY_LETTER"

lemma shows_rows_inv: "shows_rows out k s \<Longrightarrow> screen_inv s"
  by (auto simp: shows_rows_def screen_inv_def)

lemma clear_screen_spec:
  "length (video_memory s) = 2000 \<Longrightarrow>
     clear_screen s = Inr (s\<lparr>video_memory := replicate 2000 EMPTY_LETTER, pos_on_screen := 0\<rparr>)"
  by (simp add: clear_screen_def vga_defs clear_cells_spec)

lemma scroll_screen_shows:
  assumes "shows_rows out k s" and "unat (pos_on_screen s) = 2000"
  shows "\<exists>s'. scroll_screen s = Inr s' \<and> shows_rows out (Suc k) s' \<and> color s' = color s"
proof -
  have "length (video_memory s) = 2000" using shows_rows_inv [OF assms(1)] by (simp add: screen_inv_def)
  moreover have "length out = 2000 + 80 * k" using assms unfolding shows_rows_def by linarith
  ultimately show ?thesis
    using scroll_screen_spec [of s] assms by (simp add: shows_rows_def)
qed

text \<open>The first statement of \<open>put_char\<close> makes room without changing what has been printed.\<close>

lemma put_char_room:
  assumes "shows_rows out k s"
  obtains s' k' where
    "(if unat (pos_on_screen s) \<ge> VGA_MAX_CHARS then scroll_screen s else Inr s) = Inr s'"
    "shows_rows out k' s'" "color s' = color s" "unat (pos_on_screen s') < 2000" "k \<le> k'" "k' \<le> Suc k"
proof (cases "unat (pos_on_screen s) \<ge> 2000")
  case True
  then have full: "unat (pos_on_screen s) = 2000"
    using shows_rows_inv [OF assms] by (simp add: screen_inv_def)
  then obtain s' where s': "scroll_screen s = Inr s'" "shows_rows out (Suc k) s'" "color s' = color s"
    using scroll_screen_shows [OF assms] by blast
  moreover have "length out = 2000 + 80 * k" using assms full unfolding shows_rows_def by linarith
  then have "unat (pos_on_screen s') < 2000"
    using s'(2) by (simp add: shows_rows_def)
  ultimately show ?thesis using that True by (simp add: vga_defs)
next
  case False
  with that [of s k] assms show ?thesis by (simp add: vga_defs)
qed

lemma row_end: "((n :: nat) div 80 + 1) * 80 = n + (80 - n mod 80)"
proof -
  define q r where "q = n div 80" and "r = n mod 80"
  then have "n = 80 * q + r" "r < 80" by simp_all
  then show ?thesis unfolding q_def [symmetric] r_def [symmetric] by simp
qed

lemma row_end_le: "(n :: nat) < 2000 \<Longrightarrow> n + (80 - n mod 80) \<le> 2000"
proof -
  assume "n < 2000"
  then have "n div 80 < 25" by (intro less_mult_imp_div_less) simp
  then show ?thesis unfolding row_end [symmetric] by simp
qed

lemma newline_pos:
  assumes "unat (p :: u32) < 2000"
  shows "unat ((p div 80 + 1) * 80) = unat p + (80 - unat p mod 80)"
proof -
  have "unat (p div 80) = unat p div 80" by (simp add: unat_div)
  moreover then have "unat (p div 80 + 1) = unat p div 80 + 1"
    using assms by (subst unat_add_exact) auto
  ultimately have "unat ((p div 80 + 1) * 80) = (unat p div 80 + 1) * 80"
    using assms by (subst unat_mult_exact) auto
  also have "\<dots> = unat p + (80 - unat p mod 80)"
    by (rule row_end)
  finally show ?thesis .
qed

lemma shows_rows_tput:
  assumes "shows_rows out k s" and "unat (pos_on_screen s) < 2000" and "c \<noteq> 10"
  shows "shows_rows (tput (color s) c out) k (s\<lparr>video_memory :=
    (video_memory s)[unat (pos_on_screen s) := \<lparr>letter_c = c, letter_color = color s\<rparr>],
    pos_on_screen := pos_on_screen s + 1\<rparr>)"
proof -
  have "unat (pos_on_screen s + 1) = unat (pos_on_screen s) + 1"
    using assms(2) by (subst unat_add_exact) auto
  moreover obtain n where "2000 + 80 * k - length out = Suc n"
    "2000 + 80 * k - Suc (length out) = n"
    using assms by (cases "2000 + 80 * k - length out") (auto simp: shows_rows_def)
  ultimately show ?thesis
    using assms by (auto simp: shows_rows_def tput_def list_update_append)
qed

lemma shows_rows_newline:
  assumes "shows_rows out k s" and "unat (pos_on_screen s) < 2000"
  shows "shows_rows (tput col 10 out) k
           (s\<lparr>pos_on_screen := (pos_on_screen s div of_nat VGA_WIDTH + 1) * of_nat VGA_WIDTH\<rparr>)"
proof -
  have out: "length out = 80 * k + unat (pos_on_screen s)" using assms by (simp add: shows_rows_def)
  define n where "n = 80 - unat (pos_on_screen s) mod 80"
  have n: "80 - length out mod 80 = n" by (simp add: out n_def)
  have le: "unat (pos_on_screen s) + n \<le> 2000" unfolding n_def using assms(2) by (rule row_end_le)
  then have "replicate (2000 - unat (pos_on_screen s)) EMPTY_LETTER =
      replicate n EMPTY_LETTER @ replicate (2000 - (unat (pos_on_screen s) + n)) EMPTY_LETTER"
    by (simp flip: replicate_add)
  moreover have "unat ((pos_on_screen s div of_nat VGA_WIDTH + 1) * of_nat VGA_WIDTH) = unat (pos_on_screen s) + n"
    using newline_pos [OF assms(2)] by (simp add: n_def VGA_WIDTH_def)
  moreover have "tput col 10 out = out @ replicate n EMPTY_LETTER" by (simp add: tput_def n)
  ultimately show ?thesis using assms(1) le by (simp add: shows_rows_def out)
qed

lemma put_char_shows_le:
  assumes "shows_rows out k s"
  shows "\<exists>s' k'. put_char c s = Inr s' \<and> shows_rows (tput (color s) c out) k' s'
           \<and> color s' = color s \<and> k \<le> k' \<and> k' \<le> Suc k \<and> 80 * k' \<le> length out"
proof -
  obtain s1 k' where s1: "(if unat (pos_on_screen s) \<ge> VGA_MAX_CHARS then scroll_screen s else Inr s) = Inr s1"
    "shows_rows out k' s1" "color s1 = color s" "unat (pos_on_screen s1) < 2000" "k \<le> k'" "k' \<le> Suc k"
    using assms by (rule put_char_room)
  have "80 * k' \<le> length out" using s1(2) by (simp add: shows_rows_def)
  have "length (video_memory s1) = 2000"
    using shows_rows_inv [OF s1(2)] by (simp add: screen_inv_def)
  with s1 \<open>80 * k' \<le> length out\<close> shows_rows_tput [OF s1(2,4)] shows_rows_newline [OF s1(2,4)] show ?thesis
    by (cases "c = 10") (auto simp: put_char_def)
qed

lemma put_char_shows:
  assumes "shows_rows out k s"
  shows "\<exists>s' k'. put_char c s = Inr s' \<and> shows_rows (tput (color s) c out) k' s'
           \<and> color s' = color s \<and> k \<le> k'"
  using put_char_shows_le [OF assms] by blast

lemma put_string_loop_shows:
  "holds_str (drop i b) str \<Longrightarrow> shows_rows out k s \<Longrightarrow>
     \<exists>s' k'. put_string_loop b i s = Inr s' \<and> shows_rows (fold (tput (color s)) str out) k' s'
        \<and> color s' = color s \<and> k \<le> k'"
proof (induction str arbitrary: i out k s)
  case Nil
  then show ?case by (subst put_string_loop.simps) (auto simp: holds_str_at)
next
  case (Cons c str)
  from put_char_shows [OF Cons.prems(2), of c] obtain s1 k1 where
    s1: "put_char c s = Inr s1" "shows_rows (tput (color s) c out) k1 s1" "color s1 = color s" "k \<le> k1"
    by blast
  from Cons.prems(1) have h: "i < length b" "b ! i = c" "c \<noteq> 0" "holds_str (drop (Suc i) b) str"
    by (simp_all add: holds_str_at)
  from Cons.IH [OF h(4) s1(2)] obtain s' k' where "put_string_loop b (Suc i) s1 = Inr s'"
    "shows_rows (fold (tput (color s)) str (tput (color s) c out)) k' s'" "color s' = color s" "k1 \<le> k'"
    using s1(3) by auto
  with s1 h show ?case by (subst put_string_loop.simps) (auto intro: order_trans)
qed

lemma put_string_shows:
  assumes "holds_str b str" and "shows_rows out k s"
  obtains s' k' where "put_string b s = Inr s'" "shows_rows (fold (tput (color s)) str out) k' s'"
    "color s' = color s" "k \<le> k'"
  using put_string_loop_shows [of 0 b str out k s] assms by (auto simp: put_string_def)

lemma put_int_shows:
  assumes "num \<noteq> 0x80000000" and "shows_rows out k s"
  obtains s' k' where "put_int num s = Inr s'"
    "shows_rows (fold (tput (color s)) (dec_int (sint num)) out) k' s'" "color s' = color s" "k \<le> k'"
proof -
  obtain b where b: "int_to_string num (replicate 12 0) = Inr b" "holds_str b (dec_int (sint num))"
    using assms(1) by (rule int_to_string_holds [of num "replicate 12 0"]) simp_all
  obtain s' k' where s': "put_string b s = Inr s'"
    "shows_rows (fold (tput (color s)) (dec_int (sint num)) out) k' s'" "color s' = color s" "k \<le> k'"
    using b(2) assms(2) by (rule put_string_shows)
  then show ?thesis using b(1) by (intro that [of s' k']) (simp_all add: put_int_def)
qed

text \<open>Backspace removes the padding of newlines and the last letter before it.\<close>

lemma move_cursor_back_shows:
  "shows_rows (out @ l # replicate m EMPTY_LETTER) k s \<Longrightarrow> letter_c l \<noteq> 0 \<Longrightarrow> 80 * k \<le> length out \<Longrightarrow>
     \<exists>s'. move_cursor_back s = Inr s' \<and> shows_rows out k s' \<and> color s' = color s"
proof (induction m arbitrary: s)
  case 0
  let ?s = "s\<lparr>pos_on_screen := pos_on_screen s - 1\<rparr>"
  have pos: "unat (pos_on_screen s) = Suc (length out - 80 * k)"
    and v: "video_memory s = drop (80 * k) out @ l # replicate (1999 + 80 * k - length out) EMPTY_LETTER"
    using 0 by (simp_all add: shows_rows_def Suc_diff_le)
  note p = unat_pred [OF pos]
  have n: "2000 + 80 * k - length out = Suc (1999 + 80 * k - length out)"
    using 0 by (auto simp: shows_rows_def)
  have "move_cursor_back s = Inr (?s\<lparr>video_memory := (video_memory s)[length out - 80 * k := EMPTY_LETTER]\<rparr>)"
    using p v 0(2) by (subst move_cursor_back.simps) (simp add: EMPTY_LETTER_def nth_append)
  moreover have "shows_rows out k (?s\<lparr>video_memory := (video_memory s)[length out - 80 * k := EMPTY_LETTER]\<rparr>)"
    using 0 p v n by (simp add: shows_rows_def list_update_append)
  ultimately show ?case by simp
next
  case (Suc m)
  let ?s = "s\<lparr>pos_on_screen := pos_on_screen s - 1\<rparr>"
  have pos: "unat (pos_on_screen s) = Suc (Suc m + (length out - 80 * k))"
    using Suc.prems by (simp add: shows_rows_def Suc_diff_le)
  note p = unat_pred [OF pos]
  have le: "length out + m \<le> 1998 + 80 * k" using Suc.prems by (simp add: shows_rows_def)
  define n where "n = 1998 + 80 * k - (length out + m)"
  then have n: "1999 + 80 * k - (length out + m) = Suc n" using le by linarith
  have v: "video_memory s = drop (80 * k) out @ l # replicate m EMPTY_LETTER @ EMPTY_LETTER # replicate n EMPTY_LETTER"
    using Suc.prems by (simp add: shows_rows_def replicate_app_Cons_same n_def)
  have "move_cursor_back s = move_cursor_back ?s"
    using p v by (subst move_cursor_back.simps) (simp add: EMPTY_LETTER_def nth_append)
  moreover have "shows_rows (out @ l # replicate m EMPTY_LETTER) k ?s"
    using Suc.prems(3) p v n le by (simp add: shows_rows_def)
  ultimately show ?case using Suc.IH [of ?s] Suc.prems by simp
qed

section \<open>The screen stays well formed\<close>

lemma put_char_inv:
  assumes "screen_inv s"
  shows "\<exists>s'. put_char c s = Inr s' \<and> screen_inv s'"
proof -
  have v: "length (video_memory s) = 2000" using assms by (simp add: screen_inv_def)
  obtain s1 where s1: "(if unat (pos_on_screen s) \<ge> VGA_MAX_CHARS then scroll_screen s else Inr s) = Inr s1"
    "length (video_memory s1) = 2000" "unat (pos_on_screen s1) < 2000"
    using scroll_screen_spec [OF v] v by (cases "unat (pos_on_screen s) \<ge> 2000") (simp_all add: vga_defs)
  have "unat (pos_on_screen s1 + 1) = unat (pos_on_screen s1) + 1"
    using s1(3) by (subst unat_add_exact) auto
  moreover have "unat ((pos_on_screen s1 div 80 + 1) * 80) \<le> 2000"
    using newline_pos [OF s1(3)] row_end_le [OF s1(3)] by simp
  ultimately show ?thesis using s1 by (simp add: put_char_def screen_inv_def VGA_WIDTH_def)
qed

lemma move_cursor_back_inv:
  "screen_inv s \<Longrightarrow> \<exists>s'. move_cursor_back s = Inr s' \<and> screen_inv s'"
proof (induction "unat (pos_on_screen s)" arbitrary: s)
  case 0
  then show ?case by (subst move_cursor_back.simps) (simp add: unat_eq_0)
next
  case (Suc n)
  let ?s = "s\<lparr>pos_on_screen := pos_on_screen s - 1\<rparr>"
  have p: "0 < pos_on_screen s" "unat (pos_on_screen s - 1) = n"
    using unat_pred [OF Suc.hyps(2) [symmetric]] by simp_all
  moreover have "n < 2000" "length (video_memory s) = 2000"
    using Suc.prems Suc.hyps(2) by (simp_all add: screen_inv_def)
  moreover have "screen_inv ?s" using calculation by (simp add: screen_inv_def)
  ultimately show ?case
    using Suc.hyps(1) [of ?s] by (subst move_cursor_back.simps) (auto simp: screen_inv_def Let_def)
qed

section \<open>Properties\<close>

text \<open>C31. After clear_screen, whatever video memory held, printing a string never touches memory outside
  the 2000 cells and the screen is a 25-row window on the text: its cells are the printed letters from
  some row on followed by empty cells, and the cursor is right after the last letter, also when the text
  is longer than the screen and scrolls.\<close>

theorem put_string_window:
  assumes "length (video_memory s) = 2000" and "holds_str b str"
  shows "\<exists>s1 s2 k. clear_screen s = Inr s1 \<and> put_string b s1 = Inr s2
           \<and> shows_rows (fold (tput (color s)) str []) k s2"
proof -
  let ?s1 = "s\<lparr>video_memory := replicate 2000 EMPTY_LETTER, pos_on_screen := 0\<rparr>"
  have "shows_rows [] 0 ?s1" by (simp add: shows_rows_def)
  with assms(2) obtain s2 k where "put_string b ?s1 = Inr s2"
    "shows_rows (fold (tput (color ?s1)) str []) k s2" by (rule put_string_shows)
  with clear_screen_spec [OF assms(1)] show ?thesis by auto
qed

lemma put_string_window_witness:
  "\<exists>s1 s2 k. clear_screen (screen_boot (replicate 2000 EMPTY_LETTER)) = Inr s1
     \<and> put_string (ascii ''ok'') s1 = Inr s2
     \<and> shows_rows (fold (tput WHITE_ON_BLACK) (chars ''ok'') []) k s2"
proof -
  have "holds_str (ascii ''ok'') (chars ''ok'')" by (simp add: holds_str_def ascii_def chars_def)
  from put_string_window [OF _ this, of "screen_boot (replicate 2000 EMPTY_LETTER)"]
  show ?thesis by (simp add: screen_boot_def)
qed

text \<open>Backspace undoes typing: after put_char of a visible character, move_cursor_back returns the
  terminal to the text before it, also when the character made the screen scroll; after a newline it
  removes the newline and the letter that precedes it, as long as that letter is still on the screen.\<close>

theorem move_cursor_back_undoes:
  assumes "shows_rows out k s" and "c \<noteq> 0" and "c \<noteq> 10"
  shows "(\<exists>s1 s2 k'. put_char c s = Inr s1 \<and> move_cursor_back s1 = Inr s2 \<and> shows_rows out k' s2)
       \<and> (\<forall>out' l. out = out' @ [l] \<and> letter_c l \<noteq> 0 \<and> 80 * Suc k \<le> length out' \<longrightarrow>
            (\<exists>s1 s2 k'. put_char 10 s = Inr s1 \<and> move_cursor_back s1 = Inr s2 \<and> shows_rows out' k' s2))"
proof (intro conjI allI impI)
  obtain s1 k1 where s1: "put_char c s = Inr s1" "shows_rows (tput (color s) c out) k1 s1" "80 * k1 \<le> length out"
    using put_char_shows_le [OF assms(1), of c] by blast
  then have "shows_rows (out @ \<lparr>letter_c = c, letter_color = color s\<rparr> # replicate 0 EMPTY_LETTER) k1 s1"
    using assms(3) by (simp add: tput_def)
  from move_cursor_back_shows [OF this _ s1(3)] s1(1) assms(2)
  show "\<exists>s1 s2 k'. put_char c s = Inr s1 \<and> move_cursor_back s1 = Inr s2 \<and> shows_rows out k' s2" by auto
next
  fix out' l assume out: "out = out' @ [l] \<and> letter_c l \<noteq> 0 \<and> 80 * Suc k \<le> length out'"
  obtain s1 k1 where s1: "put_char 10 s = Inr s1" "shows_rows (tput (color s) 10 out) k1 s1" "k1 \<le> Suc k"
    using put_char_shows_le [OF assms(1), of 10] by blast
  then have "shows_rows (out' @ l # replicate (80 - length out mod 80) EMPTY_LETTER) k1 s1"
    using out by (simp add: tput_def)
  from move_cursor_back_shows [OF this] s1 out
  show "\<exists>s1 s2 k'. put_char 10 s = Inr s1 \<and> move_cursor_back s1 = Inr s2 \<and> shows_rows out' k' s2" by auto
qed

lemma move_cursor_back_undoes_witness:
  "\<exists>s1 s2 k'.
     put_char 97 \<lparr>video_memory = replicate 200 \<lparr>letter_c = 88, letter_color = 7\<rparr> @ replicate 1800 EMPTY_LETTER,
       pos_on_screen = 200, color = 7\<rparr> = Inr s1
     \<and> move_cursor_back s1 = Inr s2 \<and> shows_rows (replicate 200 \<lparr>letter_c = 88, letter_color = 7\<rparr>) k' s2"
  (is "\<exists>s1 s2 k'. put_char 97 ?s = Inr s1 \<and> _ s1 s2 \<and> shows_rows ?out k' s2")
proof -
  have "shows_rows ?out 0 ?s" by (simp add: shows_rows_def)
  from move_cursor_back_undoes [OF this, of 97] show ?thesis by simp
qed

end
