(* ===== verification/Stdio.thy ===== *)
theory Stdio
  imports Screen
begin

text \<open>
  std/stdio.c and std/stdarg.h: hexadecimal output and \<open>printf\<close>, and the two routines that print and
  stop the machine (std/assert.c, errors.c). The variable arguments of \<open>printf\<close> are the bytes the caller
  pushed; \<open>va_arg\<close> reads them at a byte cursor that advances by the size of the type it is given.
\<close>

section \<open>Hexadecimal output\<close>

definition hex_chars :: "u8 list" where
  "hex_chars = chars ''0123456789ABCDEF''"

text \<open>The loop runs from index HEXA_SIZE (8) down to 0: nine digits, \<open>n\<close> counts the ones still to write.\<close>

fun hex_loop :: "nat \<Rightarrow> u32 \<Rightarrow> buffer \<Rightarrow> buffer run" where
  "hex_loop 0 num buffer = Inr buffer"
| "hex_loop (Suc n) num buffer =
     bind_run (wr n (hex_chars ! unat (num AND 0xF)) buffer) (hex_loop n (drop_bit 4 num))"

definition int_to_hex_string :: "u32 \<Rightarrow> buffer \<Rightarrow> buffer run" where
  "int_to_hex_string num buffer = bind_run (hex_loop 9 num buffer) (\<lambda>b. wr 8 0 b)"

definition put_hexa :: "u32 \<Rightarrow> screen \<Rightarrow> screen run" where
  "put_hexa num s = bind_run (int_to_hex_string num (replicate 9 0)) (\<lambda>b. put_string b s)"

definition put_addr :: "u32 \<Rightarrow> screen \<Rightarrow> screen run" where
  "put_addr addr s = bind_run (int_to_hex_string addr (replicate 9 0)) (\<lambda>b. put_string b s)"

definition put_bool :: "bool \<Rightarrow> screen \<Rightarrow> screen run" where
  "put_bool b s = (if b then put_string (ascii ''true'') s else put_string (ascii ''false'') s)"

section \<open>printf\<close>

text \<open>\<open>va_arg\<close> at a four-byte type and at \<open>char\<close>: the value and the advanced cursor.\<close>

definition va_arg32 :: "buffer \<Rightarrow> nat \<Rightarrow> (u32 \<times> nat) run" where
  "va_arg32 args ap =
     bind_run (rd args ap) (\<lambda>b0. bind_run (rd args (ap + 1)) (\<lambda>b1.
     bind_run (rd args (ap + 2)) (\<lambda>b2. bind_run (rd args (ap + 3)) (\<lambda>b3.
     Inr (ucast b0 OR push_bit 8 (ucast b1) OR push_bit 16 (ucast b2) OR push_bit 24 (ucast b3), ap + 4)))))"

definition va_arg8 :: "buffer \<Rightarrow> nat \<Rightarrow> (u8 \<times> nat) run" where
  "va_arg8 args ap = bind_run (rd args ap) (\<lambda>b. Inr (b, ap + 1))"

text \<open>
  One conversion: the switch on the character \<open>d\<close> after the percent sign. \<open>strs p\<close> is the memory a
  \<open>char *\<close> argument points to.
\<close>

definition printf_conv ::
  "(u32 \<Rightarrow> buffer) \<Rightarrow> u8 \<Rightarrow> buffer \<Rightarrow> nat \<Rightarrow> screen \<Rightarrow> (nat \<times> screen) run" where
  "printf_conv strs d args ap s =
     (let out = (\<lambda>ap m. bind_run m (\<lambda>s'. Inr (ap, s'))) in
      if d = of_char CHR ''s'' then
        bind_run (va_arg32 args ap) (\<lambda>(p, ap). out ap (put_string (strs p) s))
      else if d = of_char CHR ''d'' then
        bind_run (va_arg32 args ap) (\<lambda>(v, ap). out ap (put_int v s))
      else if d = of_char CHR ''p'' then
        bind_run (va_arg32 args ap) (\<lambda>(p, ap).
          out ap (bind_run (put_string (ascii ''0x'') s) (put_addr p)))
      else if d = of_char CHR ''x'' then
        bind_run (va_arg32 args ap) (\<lambda>(x, ap).
          out ap (bind_run (put_string (ascii ''0x'') s) (put_hexa x)))
      else if d = of_char CHR ''c'' then
        bind_run (va_arg8 args ap) (\<lambda>(c, ap). out ap (put_char c s))
      else if d = of_char CHR ''b'' then
        bind_run (va_arg32 args ap) (\<lambda>(b, ap). out ap (put_bool (b \<noteq> 0) s))
      else if d = of_char CHR ''%'' then out ap (put_char (of_char CHR ''%'') s)
      else out ap (bind_run (put_char (of_char CHR ''%'') s) (put_char d)))"

function printf_loop ::
  "(u32 \<Rightarrow> buffer) \<Rightarrow> buffer \<Rightarrow> nat \<Rightarrow> buffer \<Rightarrow> nat \<Rightarrow> screen \<Rightarrow> screen run" where
  "printf_loop strs format i args ap s =
     bind_run (rd format i) (\<lambda>c.
       if c = 0 then Inr s
       else if c = of_char CHR ''%'' then
         bind_run (rd format (i + 1)) (\<lambda>d.
           if d = 0 then Inr s
           else bind_run (printf_conv strs d args ap s) (\<lambda>(ap', s').
             printf_loop strs format (i + 2) args ap' s'))
       else bind_run (put_char c s) (\<lambda>s'. printf_loop strs format (i + 1) args ap s'))"
  by pat_completeness auto
termination by (relation "measure (\<lambda>(strs, format, i, args, ap, s). length format - i)") auto

definition printf :: "(u32 \<Rightarrow> buffer) \<Rightarrow> buffer \<Rightarrow> buffer \<Rightarrow> screen \<Rightarrow> screen run" where
  "printf strs format args s = printf_loop strs format 0 args 0 s"

declare printf_loop.simps [simp del]

section \<open>Stopping the machine\<close>

text \<open>What is on the screen when \<open>panic\<close> spins and when \<open>__assert_fail\<close> halts.\<close>

definition panic :: "buffer \<Rightarrow> screen \<Rightarrow> screen run" where
  "panic msg s = bind_run (put_string (ascii ''Kernel Panic: '') s) (put_string msg)"

definition assert_fail :: "buffer \<Rightarrow> buffer \<Rightarrow> u32 \<Rightarrow> buffer option \<Rightarrow> screen \<Rightarrow> screen run" where
  "assert_fail assertion file line func s =
     bind_run (clear_screen s) (\<lambda>s.
     bind_run (put_string (ascii ''Assertion failed: '') s) (\<lambda>s.
     bind_run (put_string assertion s) (\<lambda>s.
     bind_run (put_string (10 # ascii ''File: '') s) (\<lambda>s.
     bind_run (put_string file s) (\<lambda>s.
     bind_run (put_string (10 # ascii ''Line: '') s) (\<lambda>s.
     bind_run (int_to_string line (replicate 16 0)) (\<lambda>line_str.
     bind_run (put_string line_str s) (\<lambda>s.
     bind_run (case func of None \<Rightarrow> Inr s
               | Some f \<Rightarrow> bind_run (put_string (10 # ascii ''Function: '') s) (put_string f)) (\<lambda>s.
     put_string (10 # chars ''System halted.'' @ [10, 0]) s)))))))))"

section \<open>Reference notation\<close>

text \<open>The \<open>n\<close> lowest hexadecimal digits of a number, most significant first.\<close>

fun hexdigits :: "nat \<Rightarrow> nat \<Rightarrow> u8 list" where
  "hexdigits 0 x = []"
| "hexdigits (Suc n) x = hexdigits n (x div 16) @ [hex_chars ! (x mod 16)]"

text \<open>
  What \<open>printf\<close> is to print: a conversion takes one argument, a \<open>char\<close> argument included, and hexadecimal
  output prints what \<open>put_hexa\<close> prints.
\<close>

datatype arg = Arg_str u32 "u8 list" | Arg_int u32 | Arg_ptr u32 | Arg_hex u32 | Arg_bool u32

fun arg_word :: "arg \<Rightarrow> u32" where
  "arg_word (Arg_str p str) = p"
| "arg_word (Arg_int v) = v"
| "arg_word (Arg_ptr p) = p"
| "arg_word (Arg_hex x) = x"
| "arg_word (Arg_bool b) = b"

fun arg_conv :: "arg \<Rightarrow> u8" where
  "arg_conv (Arg_str p str) = of_char CHR ''s''"
| "arg_conv (Arg_int v) = of_char CHR ''d''"
| "arg_conv (Arg_ptr p) = of_char CHR ''p''"
| "arg_conv (Arg_hex x) = of_char CHR ''x''"
| "arg_conv (Arg_bool b) = of_char CHR ''b''"

fun arg_text :: "arg \<Rightarrow> u8 list" where
  "arg_text (Arg_str p str) = str"
| "arg_text (Arg_int v) = dec_int (sint v)"
| "arg_text (Arg_ptr p) = chars ''0x'' @ hexdigits 8 (unat p div 16)"
| "arg_text (Arg_hex x) = chars ''0x'' @ hexdigits 8 (unat x div 16)"
| "arg_text (Arg_bool b) = (if b = 0 then chars ''false'' else chars ''true'')"

text \<open>A format as a list of pieces: a literal character or a conversion with its argument.\<close>

datatype piece = Lit u8 | Conv arg | Percent

fun piece_format :: "piece \<Rightarrow> u8 list" where
  "piece_format (Lit c) = [c]"
| "piece_format (Conv a) = [of_char CHR ''%'', arg_conv a]"
| "piece_format Percent = [of_char CHR ''%'', of_char CHR ''%'']"

fun piece_text :: "piece \<Rightarrow> u8 list" where
  "piece_text (Lit c) = [c]"
| "piece_text (Conv a) = arg_text a"
| "piece_text Percent = [of_char CHR ''%'']"

definition word_bytes :: "u32 \<Rightarrow> u8 list" where
  "word_bytes w = [ucast w, ucast (drop_bit 8 w), ucast (drop_bit 16 w), ucast (drop_bit 24 w)]"

fun piece_args :: "piece \<Rightarrow> u8 list" where
  "piece_args (Conv a) = word_bytes (arg_word a)"
| "piece_args (Lit c) = []"
| "piece_args Percent = []"

fun piece_ok :: "(u32 \<Rightarrow> buffer) \<Rightarrow> piece \<Rightarrow> bool" where
  "piece_ok strs (Lit c) \<longleftrightarrow> c \<noteq> 0 \<and> c \<noteq> of_char CHR ''%''"
| "piece_ok strs (Conv (Arg_str p str)) \<longleftrightarrow> holds_str (strs p) str"
| "piece_ok strs (Conv (Arg_int v)) \<longleftrightarrow> v \<noteq> 0x80000000"
| "piece_ok strs (Conv a) \<longleftrightarrow> True"
| "piece_ok strs Percent \<longleftrightarrow> True"

section \<open>Correctness\<close>

lemma hexdigits_numeral:
  "hexdigits (numeral n) x = hexdigits (pred_numeral n) (x div 16) @ [hex_chars ! (x mod 16)]"
  by (metis hexdigits.simps(2) numeral_eq_Suc)

lemma hexdigits_length [simp]: "length (hexdigits n x) = n"
  by (induction n arbitrary: x) auto

lemma hex_chars_nz: "i < 16 \<Longrightarrow> hex_chars ! i \<noteq> 0"
proof -
  assume "i < 16"
  moreover have "length hex_chars = 16" "0 \<notin> set hex_chars" by (simp_all add: hex_chars_def chars_def)
  ultimately show ?thesis by (metis nth_mem)
qed

lemma hexdigits_nz: "0 \<notin> set (hexdigits n x)"
  by (induction n arbitrary: x) (auto simp: hex_chars_nz dest: sym)

lemma low_nibble: "unat ((num :: u32) AND 0xF) = unat num mod 16"
proof -
  have "num AND 0xF = take_bit 4 num" by (simp add: take_bit_eq_mask mask_eq_exp_minus_1)
  also have "\<dots> = num mod 16" by (simp add: take_bit_eq_mod)
  finally show ?thesis by (simp add: unat_mod)
qed

lemma hex_loop_spec:
  "n \<le> length b \<Longrightarrow> hex_loop n num b = Inr (hexdigits n (unat num) @ drop n b)"
proof (induction n arbitrary: num b)
  case (Suc n)
  have "unat (drop_bit 4 num) = unat num div 16" by (simp add: drop_bit_eq_div unat_div)
  with Suc.IH [of "b[n := hex_chars ! (unat num mod 16)]" "drop_bit 4 num"] Suc.prems show ?case
    by (simp add: low_nibble Cons_nth_drop_Suc [symmetric])
qed simp

lemma int_to_hex_string_spec:
  "length b = 9 \<Longrightarrow> int_to_hex_string num b = Inr (hexdigits 8 (unat num div 16) @ [0])"
  using hex_loop_spec [of 9 b num] hexdigits.simps(2) [of 8 "unat num"]
  by (simp add: int_to_hex_string_def list_update_append)

lemma va_arg32_word:
  assumes "args = pre @ word_bytes w @ post"
  shows "va_arg32 args (length pre) = Inr (w, length pre + 4)"
proof -
  have "w = ucast (ucast w :: u8) OR push_bit 8 (ucast (ucast (drop_bit 8 w) :: u8))
      OR push_bit 16 (ucast (ucast (drop_bit 16 w) :: u8)) OR push_bit 24 (ucast (ucast (drop_bit 24 w) :: u8))"
    (is "w = ?v")
  proof (rule bit_word_eqI)
    fix n assume "n < LENGTH(32)"
    then consider "n < 8" | "8 \<le> n" "n - 8 < 8" | "16 \<le> n" "n - 16 < 8" | "24 \<le> n" "n - 24 < 8" by force
    then show "bit w n = bit ?v n" using \<open>n < LENGTH(32)\<close> by cases (auto simp: bit_simps)
  qed
  then show ?thesis by (simp add: va_arg32_def assms word_bytes_def nth_append)
qed

lemma put_hexa_shows:
  assumes "shows_rows out k s"
  obtains s' k' where "put_hexa num s = Inr s'" "put_addr num s = Inr s'"
    "shows_rows (fold (tput (color s)) (hexdigits 8 (unat num div 16)) out) k' s'" "color s' = color s"
proof -
  let ?b = "hexdigits 8 (unat num div 16) @ [0]"
  have "holds_str ?b (hexdigits 8 (unat num div 16))"
    by (rule holds_str_append [OF hexdigits_nz])
  then obtain s' k' where "put_string ?b s = Inr s'"
    "shows_rows (fold (tput (color s)) (hexdigits 8 (unat num div 16)) out) k' s'" "color s' = color s"
    using assms by (rule put_string_shows)
  then show ?thesis
    by (intro that [of s' k']) (simp_all add: put_hexa_def put_addr_def int_to_hex_string_spec)
qed

lemma holds_literals:
  "holds_str (ascii ''0x'') (chars ''0x'')" "holds_str (ascii ''true'') (chars ''true'')"
  "holds_str (ascii ''false'') (chars ''false'')"
  by (simp_all add: holds_str_def ascii_def chars_def)

lemma put_0x_hexa_shows:
  assumes "shows_rows out k s"
  obtains s0 s' k' where "put_string (ascii ''0x'') s = Inr s0" "put_hexa num s0 = Inr s'"
    "put_addr num s0 = Inr s'" "color s' = color s"
    "shows_rows (fold (tput (color s)) (chars ''0x'' @ hexdigits 8 (unat num div 16)) out) k' s'"
proof -
  obtain s0 k0 where s0: "put_string (ascii ''0x'') s = Inr s0"
    "shows_rows (fold (tput (color s)) (chars ''0x'') out) k0 s0" "color s0 = color s"
    using holds_literals(1) assms by (rule put_string_shows)
  obtain s' k' where "put_hexa num s0 = Inr s'" "put_addr num s0 = Inr s'" "color s' = color s0"
    "shows_rows (fold (tput (color s0)) (hexdigits 8 (unat num div 16)) (fold (tput (color s)) (chars ''0x'') out)) k' s'"
    using s0(2) by (rule put_hexa_shows)
  with s0 that show ?thesis by simp
qed

lemma put_bool_shows:
  assumes "shows_rows out k s"
  obtains s' k' where "put_bool b s = Inr s'" "color s' = color s"
    "shows_rows (fold (tput (color s)) (if b then chars ''true'' else chars ''false'') out) k' s'"
proof -
  have "holds_str (if b then ascii ''true'' else ascii ''false'') (if b then chars ''true'' else chars ''false'')"
    using holds_literals by simp
  from this assms obtain s' k' where "put_string (if b then ascii ''true'' else ascii ''false'') s = Inr s'"
    "shows_rows (fold (tput (color s)) (if b then chars ''true'' else chars ''false'') out) k' s'"
    "color s' = color s" by (rule put_string_shows)
  then show ?thesis by (intro that [of s' k']) (simp_all add: put_bool_def split: if_splits)
qed

lemma printf_conv_shows:
  assumes "piece_ok strs (Conv a)" and args: "args = pre @ word_bytes (arg_word a) @ post"
    and "shows_rows out k s"
  shows "\<exists>s' k'. printf_conv strs (arg_conv a) args (length pre) s = Inr (length pre + 4, s')
           \<and> shows_rows (fold (tput (color s)) (arg_text a) out) k' s' \<and> color s' = color s"
proof (cases a)
  case (Arg_str p str)
  with assms put_string_shows [of "strs p" str out k s] va_arg32_word [OF args] show ?thesis
    by (force simp: printf_conv_def)
next
  case (Arg_int v)
  with assms put_int_shows [of v out k s] va_arg32_word [OF args] show ?thesis
    by (force simp: printf_conv_def)
next
  case (Arg_ptr p)
  with put_0x_hexa_shows [OF assms(3), of p] va_arg32_word [OF args] show ?thesis
    by (force simp: printf_conv_def)
next
  case (Arg_hex x)
  with put_0x_hexa_shows [OF assms(3), of x] va_arg32_word [OF args] show ?thesis
    by (force simp: printf_conv_def)
next
  case (Arg_bool b)
  with put_bool_shows [OF assms(3), of "b \<noteq> 0"] va_arg32_word [OF args] show ?thesis
    by (force simp: printf_conv_def)
qed

lemma word_bytes_length [simp]: "length (word_bytes w) = 4"
  by (simp add: word_bytes_def)

lemma arg_conv_nz: "arg_conv a \<noteq> 0"
  by (cases a) auto

lemma printf_loop_shows:
  "holds_str (drop i format) (concat (map piece_format ps)) \<Longrightarrow> list_all (piece_ok strs) ps \<Longrightarrow>
     args = pre @ concat (map piece_args ps) @ post \<Longrightarrow> shows_rows out k s \<Longrightarrow>
     \<exists>s' k'. printf_loop strs format i args (length pre) s = Inr s'
       \<and> shows_rows (fold (tput (color s)) (concat (map piece_text ps)) out) k' s' \<and> color s' = color s"
proof (induction ps arbitrary: i pre out k s)
  case Nil
  then show ?case by (subst printf_loop.simps) (auto simp: holds_str_at)
next
  case (Cons p ps)
  show ?case
  proof (cases p)
    case (Lit c)
    from put_char_shows [OF Cons.prems(4), of c] obtain s1 k1 where s1: "put_char c s = Inr s1"
      "shows_rows (tput (color s) c out) k1 s1" "color s1 = color s" by blast
    with Cons.IH [of "Suc i" pre "tput (color s) c out" k1 s1] Cons.prems Lit show ?thesis
      by (subst printf_loop.simps) (auto simp: holds_str_at)
  next
    case Percent
    from put_char_shows [OF Cons.prems(4), of "of_char CHR ''%''"] obtain s1 k1 where
      s1: "put_char (of_char CHR ''%'') s = Inr s1"
      "shows_rows (tput (color s) (of_char CHR ''%'') out) k1 s1" "color s1 = color s" by blast
    with Cons.IH [of "Suc (Suc i)" pre _ k1 s1] Cons.prems Percent show ?thesis
      by (subst printf_loop.simps) (auto simp: holds_str_at printf_conv_def)
  next
    case (Conv a)
    let ?args = "pre @ word_bytes (arg_word a) @ (concat (map piece_args ps) @ post)"
    have args: "args = ?args" using Cons.prems(3) Conv by simp
    have ok: "piece_ok strs (Conv a)" using Cons.prems(2) Conv by simp
    from printf_conv_shows [OF ok args Cons.prems(4)] obtain s1 k1 where
      s1: "printf_conv strs (arg_conv a) args (length pre) s = Inr (length pre + 4, s1)"
      "shows_rows (fold (tput (color s)) (arg_text a) out) k1 s1" "color s1 = color s" by blast
    have "holds_str (drop (Suc (Suc i)) format) (concat (map piece_format ps))"
      and f: "i + 1 < length format" "format ! i = of_char CHR ''%''" "format ! (i + 1) = arg_conv a"
      using Cons.prems(1) Conv by (auto simp: holds_str_at)
    then obtain s' k' where "printf_loop strs format (Suc (Suc i)) args (length pre + 4) s1 = Inr s'"
      "shows_rows (fold (tput (color s)) (concat (map piece_text ps)) (fold (tput (color s)) (arg_text a) out)) k' s'" "color s' = color s"
      using Cons.IH [of "Suc (Suc i)" "pre @ word_bytes (arg_word a)" _ k1 s1, OF _ _ _ s1(2)]
        Cons.prems(2) args s1(3) by auto
    with f s1 show ?thesis by (subst printf_loop.simps) (auto simp: Conv arg_conv_nz)
  qed
qed

section \<open>Text output as a sequence\<close>

text \<open>\<open>prints f str\<close>: wherever the screen stands, \<open>f\<close> returns and appends \<open>str\<close> to the text shown.\<close>

definition prints :: "(screen \<Rightarrow> screen run) \<Rightarrow> u8 list \<Rightarrow> bool" where
  "prints f str \<longleftrightarrow> (\<forall>out k s. shows_rows out k s \<longrightarrow>
     (\<exists>s' k'. f s = Inr s' \<and> shows_rows (fold (tput (color s)) str out) k' s' \<and> color s' = color s))"

lemma prints_put_char: "prints (put_char c) [c]"
  using put_char_shows by (fastforce simp: prints_def)

lemma prints_put_string: "holds_str b str \<Longrightarrow> prints (put_string b) str"
  unfolding prints_def by (metis put_string_shows)

lemma prints_seq:
  assumes "prints f a" and "prints g b"
  shows "prints (\<lambda>s. bind_run (f s) g) (a @ b)"
  unfolding prints_def
proof (intro allI impI)
  fix out k s assume "shows_rows out k s"
  with assms(1) obtain s1 k1 where s1: "f s = Inr s1" "shows_rows (fold (tput (color s)) a out) k1 s1" "color s1 = color s"
    unfolding prints_def by blast
  with assms(2) obtain s2 k2 where "g s1 = Inr s2" "shows_rows (fold (tput (color s1)) b (fold (tput (color s)) a out)) k2 s2"
    "color s2 = color s1" unfolding prints_def by blast
  with s1 show "\<exists>s' k'. bind_run (f s) g = Inr s' \<and> shows_rows (fold (tput (color s)) (a @ b) out) k' s' \<and> color s' = color s"
    by auto
qed

lemma holds_ascii: "0 \<notin> set (chars t) \<Longrightarrow> holds_str (ascii t) (chars t)"
  unfolding ascii_def by (rule holds_str_append)

lemma prints_printf:
  "holds_str format (concat (map piece_format ps)) \<Longrightarrow> list_all (piece_ok strs) ps \<Longrightarrow>
     prints (printf strs format (concat (map piece_args ps))) (concat (map piece_text ps))"
  unfolding prints_def printf_def
  using printf_loop_shows [of 0 format ps strs "concat (map piece_args ps)" "[]" "[]"] by simp

text \<open>A message with no conversions.\<close>

lemma literal_pieces:
  "concat (map piece_format (map Lit msg)) = msg" "concat (map piece_text (map Lit msg)) = msg"
  "concat (map piece_args (map Lit msg)) = []"
  by (induction msg) auto

lemma literal_ok: "0 \<notin> set msg \<Longrightarrow> 37 \<notin> set msg \<Longrightarrow> list_all (piece_ok strs) (map Lit msg)"
  by (auto simp: list_all_iff)

lemma prints_message: "0 \<notin> set msg \<Longrightarrow> 37 \<notin> set msg \<Longrightarrow> prints (printf strs (msg @ [0]) []) msg"
  using prints_printf [of "msg @ [0]" "map Lit msg" strs] literal_ok [of msg strs] holds_str_append [of msg "[]"]
  by (simp only: literal_pieces simp_thms)

section \<open>Properties\<close>



text \<open>put_hexa and put_addr lose the lowest digit: they print a leading zero and the seven upper
  hexadecimal digits of the number, because the loop writes nine digits and the terminator overwrites
  the last one.\<close>

theorem put_hexa_drops_low_digit:
  assumes "shows_rows out k s"
  shows "\<exists>s' k'. put_hexa num s = Inr s' \<and> put_addr num s = Inr s'
           \<and> shows_rows (fold (tput (color s)) (hexdigits 8 (unat num div 16)) out) k' s'"
  using put_hexa_shows [OF assms, of num] by blast

lemma put_hexa_drops_low_digit_witness:
  "\<exists>s' k'. put_hexa 0x12345678 (screen_boot (replicate 2000 EMPTY_LETTER)) = Inr s'
     \<and> shows_rows (fold (tput WHITE_ON_BLACK) (chars ''01234567'') []) k' s'"
proof -
  let ?s = "screen_boot (replicate 2000 EMPTY_LETTER)"
  have "shows_rows [] 0 ?s" by (simp add: shows_rows_def screen_boot_def)
  moreover have "hexdigits 8 (unat (0x12345678 :: u32) div 16) = chars ''01234567''"
    by (simp add: hexdigits_numeral hex_chars_def chars_def)
  ultimately show ?thesis
    using put_hexa_drops_low_digit [of "[]" 0 ?s "0x12345678"] by (auto simp: screen_boot_def)
qed

text \<open>A \<open>%c\<close> conversion advances the argument cursor by one byte while the caller pushed four, so the
  next conversion reads a word that straddles two arguments: \<open>%c%d\<close> prints the character and then, in
  place of its argument v, the number v shifted left by 24 bits (83886080 for 5).\<close>

theorem printf_misreads_after_char:
  "printf strs (ascii ''%c%d'') (word_bytes (ucast c) @ word_bytes v) s
     = bind_run (put_char c s) (put_int (push_bit 24 v))"
proof -
  let ?args = "word_bytes (ucast c) @ word_bytes v"
  have "ucast (ucast c :: u32) = c" by (rule bit_word_eqI) (auto simp: bit_simps)
  then have c: "va_arg8 ?args 0 = Inr (c, 1)" by (simp add: va_arg8_def word_bytes_def)
  have "ucast (ucast (drop_bit 8 (ucast c :: u32)) :: u8) = (0 :: u32)"
    "ucast (ucast (drop_bit 16 (ucast c :: u32)) :: u8) = (0 :: u32)"
    "ucast (ucast (drop_bit 24 (ucast c :: u32)) :: u8) = (0 :: u32)"
    "push_bit 24 (ucast (ucast v :: u8)) = push_bit 24 v"
    by (rule bit_word_eqI; auto simp: bit_simps dest: bit_imp_le_length)+
  then have v: "va_arg32 ?args (Suc 0) = Inr (push_bit 24 v, 5)"
    by (simp add: va_arg32_def word_bytes_def)
  have end_of_format: "printf_loop strs (ascii ''%c%d'') 4 ?args ap s = Inr s" for ap s
    by (subst printf_loop.simps) (simp add: ascii_def chars_def)
  have "printf_loop strs (ascii ''%c%d'') 2 ?args 1 s = put_int (push_bit 24 v) s" for s
    by (subst printf_loop.simps)
       (cases "put_int (push_bit 24 v) s", simp_all add: ascii_def chars_def printf_conv_def v
         end_of_format [unfolded ascii_def chars_def, simplified])
  then show ?thesis
    by (simp only: printf_def, subst printf_loop.simps)
       (cases "put_char c s", simp_all add: ascii_def chars_def printf_conv_def c flip: numeral_2_eq_2)
qed

end
