(* ===== verification/Ports.thy ===== *)
theory Ports
  imports Stdio
begin

text \<open>
  drivers/io.h and the drivers that only talk to ports: the interrupt controllers (interupts/pic.c),
  the interval timer (drivers/pit.c) and PCI configuration space (drivers/pci.c). The hardware is an
  argument \<open>dev\<close>: the value a read returns may depend on the port and on every access made before it.
\<close>

section \<open>drivers/io.h\<close>

datatype io_event =
    Out8 u16 u8
  | Out16 u16 u16
  | Out32 u16 u32
  | In8 u16 u8
  | In16 u16 u16
  | In32 u16 u32

text \<open>The accesses made so far, the latest first, and the hardware that answers reads.\<close>

type_synonym io = "io_event list"
type_synonym device = "io \<Rightarrow> u16 \<Rightarrow> u32"

definition outb :: "u16 \<Rightarrow> u8 \<Rightarrow> io \<Rightarrow> io" where
  "outb port value io = Out8 port value # io"

definition out16 :: "u16 \<Rightarrow> u16 \<Rightarrow> io \<Rightarrow> io" where
  "out16 port value io = Out16 port value # io"

definition out32 :: "u16 \<Rightarrow> u32 \<Rightarrow> io \<Rightarrow> io" where
  "out32 port value io = Out32 port value # io"

definition inb :: "device \<Rightarrow> u16 \<Rightarrow> io \<Rightarrow> u8 \<times> io" where
  "inb dev port io = (let ret = ucast (dev io port) in (ret, In8 port ret # io))"

definition in16 :: "device \<Rightarrow> u16 \<Rightarrow> io \<Rightarrow> u16 \<times> io" where
  "in16 dev port io = (let ret = ucast (dev io port) in (ret, In16 port ret # io))"

definition in32 :: "device \<Rightarrow> u16 \<Rightarrow> io \<Rightarrow> u32 \<times> io" where
  "in32 dev port io = (let ret = dev io port in (ret, In32 port ret # io))"

named_theorems port_defs \<open>port accesses as events\<close>

lemmas [port_defs] = outb_def out16_def out32_def inb_def in16_def in32_def

section \<open>interupts/pic.c\<close>

definition PIC1_COMMAND :: u16 where "PIC1_COMMAND = 0x20"
definition PIC1_DATA :: u16 where "PIC1_DATA = 0x21"
definition PIC2_COMMAND :: u16 where "PIC2_COMMAND = 0xA0"
definition PIC2_DATA :: u16 where "PIC2_DATA = 0xA1"
definition IRQ_NUM :: u8 where "IRQ_NUM = 16"
definition PIC_IRQ_AMOUNT :: u8 where "PIC_IRQ_AMOUNT = 8"
definition ICW1_INIT :: u8 where "ICW1_INIT = 0x10"
definition ICW1_ICW4 :: u8 where "ICW1_ICW4 = 0x01"
definition PIC1_VECTOR_OFFSET :: u8 where "PIC1_VECTOR_OFFSET = 0x20"
definition PIC2_VECTOR_OFFSET :: u8 where "PIC2_VECTOR_OFFSET = 0x28"
definition PIC1_IRQ2_MASK :: u8 where "PIC1_IRQ2_MASK = 0x04"
definition PIC2_CASCADE_ID :: u8 where "PIC2_CASCADE_ID = 0x02"
definition ICW4_8086 :: u8 where "ICW4_8086 = 0x01"
definition PCI_EOI :: u8 where "PCI_EOI = 0x20"

lemmas pic_ports = PIC1_COMMAND_def PIC1_DATA_def PIC2_COMMAND_def PIC2_DATA_def
lemmas pic_consts = pic_ports IRQ_NUM_def PIC_IRQ_AMOUNT_def ICW1_INIT_def ICW1_ICW4_def
  PIC1_VECTOR_OFFSET_def PIC2_VECTOR_OFFSET_def PIC1_IRQ2_MASK_def PIC2_CASCADE_ID_def ICW4_8086_def PCI_EOI_def

definition pic_send_ack :: "io \<Rightarrow> io" where
  "pic_send_ack io = outb PIC1_COMMAND PCI_EOI io"

definition mask_all_except_keyboard :: "io \<Rightarrow> io" where
  "mask_all_except_keyboard io =
     (let master_mask = NOT (one_shl 1); slave_mask = 0xFF
      in outb PIC2_DATA slave_mask (outb PIC1_DATA master_mask io))"

definition remap_pic :: "device \<Rightarrow> io \<Rightarrow> io" where
  "remap_pic dev io =
     (let (master_mask, io) = inb dev PIC1_DATA io;
          (slave_mask, io) = inb dev PIC2_DATA io;
          io = outb PIC1_COMMAND (ICW1_INIT OR ICW1_ICW4) io;
          io = outb PIC2_COMMAND (ICW1_INIT OR ICW1_ICW4) io;
          io = outb PIC1_DATA PIC1_VECTOR_OFFSET io;
          io = outb PIC2_DATA PIC2_VECTOR_OFFSET io;
          io = outb PIC1_DATA PIC1_IRQ2_MASK io;
          io = outb PIC2_DATA PIC2_CASCADE_ID io;
          io = outb PIC1_DATA ICW4_8086 io;
          io = outb PIC2_DATA ICW4_8086 io;
          io = outb PIC1_DATA master_mask io;
          io = outb PIC2_DATA slave_mask io
      in mask_all_except_keyboard io)"

definition unmask_irq :: "device \<Rightarrow> u8 \<Rightarrow> io \<Rightarrow> io run" where
  "unmask_irq dev irq io =
     assert_run (irq < IRQ_NUM) ''irq < IRQ_NUM''
       (let (port, irq) = (if irq < PIC_IRQ_AMOUNT then (PIC1_DATA, irq) else (PIC2_DATA, irq - PIC_IRQ_AMOUNT));
            (mask, io) = inb dev port io;
            value = mask AND NOT (one_shl (unat irq))
        in Inr (outb port value io))"

section \<open>drivers/pit.c\<close>

definition PIT_CHANNEL_0 :: u16 where "PIT_CHANNEL_0 = 0x40"
definition PIT_COMMAND :: u16 where "PIT_COMMAND = 0x43"
definition PIT_COMMAND_CHANNEL_0 :: u8 where "PIT_COMMAND_CHANNEL_0 = 0x00"
definition PIT_ACCESS_MODE_16_BIT :: u8 where "PIT_ACCESS_MODE_16_BIT = 0x30"
definition PIT_CLOCK_MODE :: u8 where "PIT_CLOCK_MODE = 0x06"
definition PIT_BINARY_MODE :: u8 where "PIT_BINARY_MODE = 0x00"
definition PIT_CLOCK_FREQUENCY :: u32 where "PIT_CLOCK_FREQUENCY = 1193182"
definition PIT_IRQ :: u8 where "PIT_IRQ = 0"

lemmas pit_consts = PIT_CHANNEL_0_def PIT_COMMAND_def PIT_COMMAND_CHANNEL_0_def PIT_ACCESS_MODE_16_BIT_def
  PIT_CLOCK_MODE_def PIT_BINARY_MODE_def PIT_CLOCK_FREQUENCY_def PIT_IRQ_def

definition PIT_TOO_LOW :: "u8 list" where
  "PIT_TOO_LOW = chars ''PIT frequency too low, clamping to 20Hz.'' @ [10]"

definition PIT_TOO_HIGH :: "u8 list" where
  "PIT_TOO_HIGH = chars ''PIT frequency too high, clamping to PIT_CLOCK_FREQUENCY.'' @ [10]"

text \<open>\<open>frequency\<close> is the static variable of the file, 100 initially.\<close>

definition pit_init :: "device \<Rightarrow> u32 \<Rightarrow> screen \<Rightarrow> io \<Rightarrow> (u32 \<times> screen \<times> io) run" where
  "pit_init dev frequency s io =
     bind_run (if frequency < 20
               then bind_run (printf (\<lambda>p. []) (PIT_TOO_LOW @ [0]) [] s)
                      (\<lambda>s. Inr (20, s))
               else Inr (frequency, s)) (\<lambda>(frequency, s).
     bind_run (if frequency > PIT_CLOCK_FREQUENCY
               then bind_run (printf (\<lambda>p. []) (PIT_TOO_HIGH @ [0]) [] s)
                      (\<lambda>s. Inr (PIT_CLOCK_FREQUENCY, s))
               else Inr (frequency, s)) (\<lambda>(frequency, s).
     let divisor = (ucast (PIT_CLOCK_FREQUENCY div frequency) :: u16);
         io = outb PIT_COMMAND (PIT_COMMAND_CHANNEL_0 OR PIT_ACCESS_MODE_16_BIT OR PIT_CLOCK_MODE OR PIT_BINARY_MODE) io;
         io = outb PIT_CHANNEL_0 (ucast (divisor AND 0xFF)) io;
         io = outb PIT_CHANNEL_0 (ucast (drop_bit 8 divisor AND 0xFF)) io
     in bind_run (unmask_irq dev PIT_IRQ io) (\<lambda>io. Inr (frequency, s, io))))"

section \<open>drivers/pci.c\<close>

definition PCI_CONFIG_ADDRESS :: u16 where "PCI_CONFIG_ADDRESS = 0xCF8"
definition PCI_CONFIG_DATA :: u16 where "PCI_CONFIG_DATA = 0xCFC"

definition pci_config_address :: "u8 \<Rightarrow> u8 \<Rightarrow> u8 \<Rightarrow> u8 \<Rightarrow> u32" where
  "pci_config_address bus device func reg =
     one_shl 31 OR push_bit 16 (ucast bus) OR push_bit 11 (ucast device) OR push_bit 8 (ucast func)
       OR (ucast reg AND 0xFC)"

definition pci_config_read :: "device \<Rightarrow> u8 \<Rightarrow> u8 \<Rightarrow> u8 \<Rightarrow> u8 \<Rightarrow> io \<Rightarrow> u32 \<times> io" where
  "pci_config_read dev bus device func reg io =
     (let address = pci_config_address bus device func reg
      in in32 dev PCI_CONFIG_DATA (out32 PCI_CONFIG_ADDRESS address io))"

definition pci_config_write :: "u8 \<Rightarrow> u8 \<Rightarrow> u8 \<Rightarrow> u8 \<Rightarrow> u32 \<Rightarrow> io \<Rightarrow> io" where
  "pci_config_write bus device func reg data io =
     (let address = pci_config_address bus device func reg
      in out32 PCI_CONFIG_DATA data (out32 PCI_CONFIG_ADDRESS address io))"

section \<open>The interrupt mask\<close>

text \<open>
  The byte last written to a port. \<open>mask_readable dev\<close> is the documented behaviour of the 8259's data
  port outside an initialisation sequence: a read returns the interrupt mask last written there.
\<close>

fun last_out8 :: "u16 \<Rightarrow> io \<Rightarrow> u8 option" where
  "last_out8 port [] = None"
| "last_out8 port (Out8 p v # io) = (if p = port then Some v else last_out8 port io)"
| "last_out8 port (_ # io) = last_out8 port io"

definition mask_readable :: "device \<Rightarrow> bool" where
  "mask_readable dev \<longleftrightarrow> (\<forall>io port v. port \<in> {PIC1_DATA, PIC2_DATA} \<and> last_out8 port io = Some v
     \<longrightarrow> (ucast (dev io port) :: u8) = v)"

text \<open>The lines enabled by the masks of the two controllers, 0 to 15.\<close>

definition enabled_irqs :: "io \<Rightarrow> nat set option" where
  "enabled_irqs io = (case (last_out8 PIC1_DATA io, last_out8 PIC2_DATA io) of
     (Some m, Some s) \<Rightarrow> Some ({n. n < 8 \<and> \<not> bit m n} \<union> {n. 8 \<le> n \<and> n < 16 \<and> \<not> bit s (n - 8)})
   | _ \<Rightarrow> None)"

section \<open>Lemmas\<close>

lemma last_out8_remap:
  "last_out8 PIC1_DATA (remap_pic dev io) = Some (NOT (one_shl 1))"
  "last_out8 PIC2_DATA (remap_pic dev io) = Some 0xFF"
  by (simp_all add: remap_pic_def mask_all_except_keyboard_def port_defs pic_ports Let_def split: prod.splits)

lemma enabled_after_remap: "enabled_irqs (remap_pic dev io) = Some {1}"
proof -
  have "{n. n < 8 \<and> \<not> bit (NOT (one_shl 1) :: u8) n} = {1}"
    by (auto simp: bit_simps mask_simps)
  moreover have "{n. 8 \<le> n \<and> n < 16 \<and> \<not> bit (0xFF :: u8) (n - 8)} = {}"
    using full_byte_iff [of "0xFF"] by auto
  ultimately show ?thesis unfolding enabled_irqs_def last_out8_remap prod.case option.case by blast
qed

lemma unmask_irq_enables:
  assumes dev: "mask_readable dev" and "enabled_irqs io = Some E" and "irq < 16"
  shows "\<exists>io'. unmask_irq dev irq io = Inr io' \<and> enabled_irqs io' = Some (insert (unat irq) E)"
proof -
  obtain m s where m: "last_out8 PIC1_DATA io = Some m" and s: "last_out8 PIC2_DATA io = Some s"
    and E: "E = {n. n < 8 \<and> \<not> bit m n} \<union> {n. 8 \<le> n \<and> n < 16 \<and> \<not> bit s (n - 8)}"
    using assms(2) by (auto simp: enabled_irqs_def split: option.splits)
  have read: "(ucast (dev io PIC1_DATA) :: u8) = m" "(ucast (dev io PIC2_DATA) :: u8) = s"
    using dev m s by (auto simp: mask_readable_def)
  have irq: "unat irq < 16" using assms(3) by (simp add: word_less_nat_alt)
  show ?thesis
  proof (cases "irq < 8")
    case True
    then have "unat irq < 8" by (simp add: word_less_nat_alt)
    with True irq assms(3) m s read E show ?thesis
      by (auto simp: unmask_irq_def port_defs pic_consts enabled_irqs_def mask_simps)
  next
    case False
    then have "8 \<le> unat irq" "unat (irq - 8) = unat irq - 8"
      by (auto simp: word_less_nat_alt not_less word_le_nat_alt unat_sub)
    with False irq assms(3) m s read E show ?thesis
      by (auto simp: unmask_irq_def port_defs pic_consts enabled_irqs_def mask_simps)
  qed
qed

lemma bytes_of_u16:
  fixes d :: u16
  shows "unat (ucast (d AND 0xFF) :: u8) + 256 * unat (ucast (drop_bit 8 d AND 0xFF) :: u8) = unat d"
proof -
  have d: "unat d < 65536" using unsigned_less [of d] by simp
  have "(x AND 0xFF) = x mod 256" for x :: u16
  proof -
    have "x AND 0xFF = take_bit 8 x" by (simp add: take_bit_eq_mask mask_eq_exp_minus_1)
    then show ?thesis by (simp add: take_bit_eq_mod)
  qed
  then have "unat (d AND 0xFF) = unat d mod 256"
    and "unat (drop_bit 8 d AND 0xFF) = unat d div 256 mod 256"
    by (simp_all add: unat_mod unat_div drop_bit_eq_div)
  moreover have "unat d div 256 mod 256 = unat d div 256" using d by (simp add: less_mult_imp_div_less)
  ultimately show ?thesis by (simp add: unat_ucast_down)
qed

lemma pit_divisor:
  fixes f :: u32
  assumes "20 \<le> f" and "f \<le> 1193182"
  shows "unat (ucast (1193182 div f) :: u16) = 1193182 div unat f"
    and "1 \<le> 1193182 div unat f" and "1193182 div unat f \<le> 59659"
proof -
  have f: "20 \<le> unat f" "unat f \<le> 1193182" using assms by (simp_all add: word_le_nat_alt)
  then show "1 \<le> 1193182 div unat f" by (simp add: Suc_le_eq div_greater_zero_iff)
  have "1193182 div unat f \<le> 1193182 div 20" using f by (intro div_le_mono2) simp_all
  then show le: "1193182 div unat f \<le> 59659" by simp
  have "unat (1193182 div f) = 1193182 div unat f" by (simp add: unat_div)
  with le show "unat (ucast (1193182 div f) :: u16) = 1193182 div unat f"
    by (subst unat_ucast_down) simp_all
qed

text \<open>A message with no conversions.\<close>

lemma printf_message:
  assumes "0 \<notin> set msg" and "37 \<notin> set msg" and "shows_rows out k s"
  shows "\<exists>s' k'. printf strs (msg @ [0]) [] s = Inr s' \<and> shows_rows (fold (tput (color s)) msg out) k' s'"
  using prints_message [OF assms(1,2), of strs] assms(3) unfolding prints_def by blast

text \<open>The frequency the timer ends up with.\<close>

definition clamp_frequency :: "u32 \<Rightarrow> u32" where
  "clamp_frequency f = (if f < 20 then 20 else if f > 1193182 then 1193182 else f)"

lemma clamp_frequency_range: "20 \<le> clamp_frequency f" "clamp_frequency f \<le> 1193182"
  by (auto simp: clamp_frequency_def)

lemma unmask_irq_0:
  "unmask_irq dev 0 io =
     Inr (Out8 0x21 (ucast (dev io 0x21) AND 0xFE) # In8 0x21 (ucast (dev io 0x21)) # io)"
proof -
  have "NOT (one_shl 0) = (0xFE :: u8)" by (simp add: one_shl_def)
  then show ?thesis by (simp add: unmask_irq_def port_defs pic_consts Let_def)
qed

lemma pit_messages:
  "0 \<notin> set PIT_TOO_LOW" "37 \<notin> set PIT_TOO_LOW" "0 \<notin> set PIT_TOO_HIGH" "37 \<notin> set PIT_TOO_HIGH"
  by (simp_all add: PIT_TOO_LOW_def PIT_TOO_HIGH_def chars_def)

lemma pit_init_returns:
  assumes "shows_rows out k s"
  shows "\<exists>s' out' k'. shows_rows out' k' s' \<and>
     pit_init dev f s io =
       bind_run (unmask_irq dev 0
         (Out8 0x40 (ucast (drop_bit 8 (ucast (1193182 div clamp_frequency f) :: u16) AND 0xFF))
          # Out8 0x40 (ucast ((ucast (1193182 div clamp_frequency f) :: u16) AND 0xFF))
          # Out8 0x43 0x36 # io)) (\<lambda>io'. Inr (clamp_frequency f, s', io'))"
proof -
  consider "f < 20" | "20 \<le> f" "f \<le> 1193182" | "1193182 < f" by fastforce
  then show ?thesis
  proof cases
    case 1
    moreover from this have "clamp_frequency f = 20" by (simp add: clamp_frequency_def)
    moreover obtain s' k' where
      "printf (\<lambda>p. []) (PIT_TOO_LOW @ [0]) [] s = Inr s'"
      "shows_rows (fold (tput (color s)) PIT_TOO_LOW out) k' s'"
      using printf_message [OF pit_messages(1,2) assms] by blast
    ultimately show ?thesis by (auto simp: pit_init_def pit_consts port_defs Let_def)
  next
    case 2
    moreover from this have "clamp_frequency f = f" by (auto simp: clamp_frequency_def)
    ultimately show ?thesis using assms by (auto simp: pit_init_def pit_consts port_defs Let_def)
  next
    case 3
    moreover from this have "\<not> f < 20" "clamp_frequency f = 1193182"
      by (auto simp: clamp_frequency_def word_less_nat_alt)
    moreover obtain s' k' where
      "printf (\<lambda>p. []) (PIT_TOO_HIGH @ [0]) [] s = Inr s'"
      "shows_rows (fold (tput (color s)) PIT_TOO_HIGH out) k' s'"
      using printf_message [OF pit_messages(3,4) assms] by blast
    ultimately show ?thesis by (auto simp: pit_init_def pit_consts port_defs Let_def)
  qed
qed

section \<open>Properties\<close>

text \<open>With interrupt masks that read back as written, remap_pic leaves only the keyboard line (IRQ 1)
  enabled on the two controllers, and unmask_irq enables exactly one more line, on the first controller
  below 8 and on the second one from 8 to 15; for a line of 16 or more its assertion stops the kernel.\<close>

theorem pic_enabled_lines:
  assumes "mask_readable dev"
  shows "enabled_irqs (remap_pic dev io) = Some {1}
       \<and> (\<forall>irq E. enabled_irqs io = Some E \<and> irq < 16 \<longrightarrow>
            (\<exists>io'. unmask_irq dev irq io = Inr io' \<and> enabled_irqs io' = Some (insert (unat irq) E)))
       \<and> (\<forall>irq. 16 \<le> irq \<longrightarrow> unmask_irq dev irq io = Inl (Assertion ''irq < IRQ_NUM''))"
  using unmask_irq_enables [OF assms, of io] enabled_after_remap
  by (auto simp: unmask_irq_def assert_run_def IRQ_NUM_def)

definition plain_device :: device where
  "plain_device io port = (case last_out8 port io of None \<Rightarrow> 0 | Some v \<Rightarrow> ucast v)"

lemma plain_device_readable: "mask_readable plain_device"
proof -
  have "ucast (ucast v :: u32) = v" for v :: u8 by (rule bit_word_eqI) (auto simp: bit_simps)
  then show ?thesis by (auto simp: mask_readable_def plain_device_def)
qed

lemma pic_enabled_lines_witness:
  "mask_readable plain_device \<and> enabled_irqs (remap_pic plain_device []) = Some {1}
   \<and> (\<exists>io'. unmask_irq plain_device 0 (remap_pic plain_device []) = Inr io' \<and> enabled_irqs io' = Some {0, 1})"
proof -
  note p = pic_enabled_lines [OF plain_device_readable]
  have e: "enabled_irqs (remap_pic plain_device []) = Some {1}" using p by blast
  have "(0 :: u8) < 16" by simp
  with e p [of "remap_pic plain_device []"] have "\<exists>io'. unmask_irq plain_device 0 (remap_pic plain_device []) = Inr io'
      \<and> enabled_irqs io' = Some (insert (unat (0 :: u8)) {1})" by blast
  with e plain_device_readable show ?thesis by simp
qed

text \<open>pit_init always returns; the frequency it keeps is between 20 Hz and the clock of the timer, the
  divisor for it is between 1 and 59659 and so fits the 16-bit counter without truncation, and the two
  bytes written to channel 0, low byte first, make up exactly that divisor; the timer's line is unmasked
  after them.\<close>

theorem pit_init_programs_divisor:
  assumes "shows_rows out k s"
  shows "\<exists>f' s' io' lo hi m.
           pit_init dev f s io = Inr (f', s', io')
         \<and> 20 \<le> f' \<and> f' \<le> 1193182 \<and> (20 \<le> f \<and> f \<le> 1193182 \<longrightarrow> f' = f)
         \<and> io' = Out8 0x21 (m AND 0xFE) # In8 0x21 m # Out8 0x40 hi # Out8 0x40 lo # Out8 0x43 0x36 # io
         \<and> unat lo + 256 * unat hi = 1193182 div unat f' \<and> 1193182 div unat f' \<in> {1..59659}"
proof -
  let ?f = "clamp_frequency f"
  obtain s' where init: "pit_init dev f s io =
       bind_run (unmask_irq dev 0
         (Out8 0x40 (ucast (drop_bit 8 (ucast (1193182 div ?f) :: u16) AND 0xFF))
          # Out8 0x40 (ucast ((ucast (1193182 div ?f) :: u16) AND 0xFF))
          # Out8 0x43 0x36 # io)) (\<lambda>io'. Inr (?f, s', io'))"
    using pit_init_returns [OF assms] by blast
  note r = clamp_frequency_range [of f]
  have "20 \<le> f \<and> f \<le> 1193182 \<longrightarrow> ?f = f" by (auto simp: clamp_frequency_def)
  moreover have "1193182 div unat ?f \<in> {1..59659}" using pit_divisor [OF r] by simp
  ultimately show ?thesis
    using r pit_divisor(1) [OF r] bytes_of_u16 [of "ucast (1193182 div ?f)"]
    unfolding init unmask_irq_0 bind_run_Inr by metis
qed

lemma pit_init_programs_divisor_witness:
  "\<exists>f' s' io'. pit_init plain_device 5 (screen_boot (replicate 2000 EMPTY_LETTER)) [] = Inr (f', s', io')
     \<and> 20 \<le> f' \<and> 1193182 div unat f' \<in> {1..59659}"
proof -
  have "shows_rows [] 0 (screen_boot (replicate 2000 EMPTY_LETTER))"
    by (simp add: shows_rows_def screen_boot_def)
  from pit_init_programs_divisor [OF this, of plain_device 5 "[]"] show ?thesis by blast
qed

end
