(* ===== verification/Scheduler.thy ===== *)
theory Scheduler
  imports Ports
begin

text \<open>
  processes/scheduler.c: the round-robin scheduler over a circular list of heap nodes, and the timer
  interrupt that drives it (\<open>pit_handler\<close> of drivers/pit.c). The live nodes are an explicit store, so that
  following a pointer to a freed node is visible. The heap (\<open>kmalloc\<close>, \<open>kfree\<close>) and the context switch
  (\<open>process_switch\<close>, assembly) are arguments.
\<close>

section \<open>State\<close>

record process_queue_node =
  qn_process :: u32
  qn_next :: u32

text \<open>\<open>ready_queue\<close>, \<open>current_process_node\<close>, \<open>current_process\<close> and \<open>tick_count\<close> with the live nodes.\<close>

record sched =
  nodes :: "u32 \<rightharpoonup> process_queue_node"
  rq_head :: u32
  rq_tail :: u32
  rq_count :: u32
  current_process_node :: u32
  current_process :: u32
  tick_count :: u32

definition sched_static :: sched where
  "sched_static = \<lparr>nodes = Map.empty, rq_head = 0, rq_tail = 0, rq_count = 0,
     current_process_node = 0, current_process = 0, tick_count = 0\<rparr>"

definition TICKS_UNTIL_SWITCH :: u32 where "TICKS_UNTIL_SWITCH = 10"

type_synonym 'h allocator = "u32 \<Rightarrow> 'h \<Rightarrow> (u32 \<times> 'h) run"
type_synonym 'h deallocator = "u32 \<Rightarrow> 'h \<Rightarrow> 'h run"

text \<open>\<open>p->...\<close>: reading a node that is not live is undefined in C.\<close>

definition node_at :: "u32 \<Rightarrow> sched \<Rightarrow> process_queue_node run" where
  "node_at p s = (case nodes s p of Some n \<Rightarrow> Inr n | None \<Rightarrow> Inl (Use_after_free p))"

definition set_next :: "u32 \<Rightarrow> u32 \<Rightarrow> sched \<Rightarrow> sched run" where
  "set_next p q s = bind_run (node_at p s) (\<lambda>n. Inr (s\<lparr>nodes := (nodes s)(p \<mapsto> n\<lparr>qn_next := q\<rparr>)\<rparr>))"

section \<open>Operations\<close>

definition scheduler_create_queue_node ::
  "'h allocator \<Rightarrow> u32 \<Rightarrow> sched \<Rightarrow> 'h \<Rightarrow> (u32 \<times> sched \<times> 'h) run" where
  "scheduler_create_queue_node kmalloc process s h =
     bind_run (kmalloc 8 h) (\<lambda>(node, h).
       if node = 0 then Inl (Panic ''Failed to allocate memory for process queue node'')
       else Inr (node, s\<lparr>nodes := (nodes s)(node \<mapsto> \<lparr>qn_process = process, qn_next = 0\<rparr>)\<rparr>, h))"

definition scheduler_destroy_queue_node ::
  "'h deallocator \<Rightarrow> u32 \<Rightarrow> sched \<Rightarrow> 'h \<Rightarrow> (sched \<times> 'h) run" where
  "scheduler_destroy_queue_node kfree node s h =
     bind_run (kfree node h) (\<lambda>h. Inr (s\<lparr>nodes := (nodes s)(node := None)\<rparr>, h))"

definition scheduler_add_process :: "'h allocator \<Rightarrow> u32 \<Rightarrow> sched \<Rightarrow> 'h \<Rightarrow> (sched \<times> 'h) run" where
  "scheduler_add_process kmalloc process s h =
     (if process = 0 then Inl (Panic ''Tried to add a NULL process to the scheduler, you sneaky bastard (probably a bug in the kernel)'')
      else
        bind_run (scheduler_create_queue_node kmalloc process s h) (\<lambda>(node, s, h).
        bind_run (if rq_tail s = 0 then
                    set_next node node (s\<lparr>rq_head := node, rq_tail := node\<rparr>)
                  else
                    bind_run (set_next (rq_tail s) node s) (\<lambda>s.
                    set_next node (rq_head s) (s\<lparr>rq_tail := node\<rparr>))) (\<lambda>s.
        Inr (s\<lparr>rq_count := rq_count s + 1\<rparr>, h))))"

definition scheduler_get_next_process :: "sched \<Rightarrow> (u32 \<times> sched) run" where
  "scheduler_get_next_process s =
     (if rq_head s = 0 then Inr (0, s)
      else if current_process_node s = 0 then
        Inl (Panic ''Current process node is NULL, this should never happen'')
      else
        bind_run (node_at (current_process_node s) s) (\<lambda>n.
          if qn_next n = 0 then Inl (Panic ''Current process node next is NULL, this should never happen'')
          else
            let s = s\<lparr>current_process_node := qn_next n\<rparr> in
            bind_run (node_at (current_process_node s) s) (\<lambda>m. Inr (qn_process m, s))))"

text \<open>
  The body of the search loop when the process is found at \<open>current\<close>, after \<open>prev\<close> (0 for none), and the
  loop itself: \<open>None\<close> is a loop that never ends, which a list that is not a ring could cause.
\<close>

definition scheduler_unlink ::
  "'h deallocator \<Rightarrow> u32 \<Rightarrow> u32 \<Rightarrow> process_queue_node \<Rightarrow> sched \<Rightarrow> 'h \<Rightarrow> (sched \<times> 'h) run" where
  "scheduler_unlink kfree prev current n s h =
     bind_run (if prev = 0 then Inr (s\<lparr>rq_head := qn_next n\<rparr>) else set_next prev (qn_next n) s) (\<lambda>s.
     let s = (if current = rq_tail s then s\<lparr>rq_tail := (if prev \<noteq> 0 then prev else rq_head s)\<rparr> else s) in
     bind_run (if current = current_process_node s \<and> rq_count s > 1 then
                 bind_run (node_at current s) (\<lambda>n. Inr (s\<lparr>current_process_node := qn_next n\<rparr>))
               else if current = current_process_node s \<and> rq_count s = 1 then
                 Inr (s\<lparr>current_process_node := 0\<rparr>)
               else Inr s) (\<lambda>s.
     bind_run (scheduler_destroy_queue_node kfree current s h) (\<lambda>(s, h).
     Inr (s\<lparr>rq_count := rq_count s - 1\<rparr>, h))))"

partial_function (option) remove_loop ::
  "'h deallocator \<Rightarrow> u32 \<Rightarrow> u32 \<Rightarrow> u32 \<Rightarrow> sched \<Rightarrow> 'h \<Rightarrow> (sched \<times> 'h) run option" where
  "remove_loop kfree process prev current s h =
     (case nodes s current of
        None \<Rightarrow> Some (Inl (Use_after_free current))
      | Some n \<Rightarrow>
          if qn_process n = process then Some (scheduler_unlink kfree prev current n s h)
          else if qn_next n = rq_head s then Some (Inr (s, h))
          else remove_loop kfree process current (qn_next n) s h)"

definition scheduler_remove_process ::
  "'h deallocator \<Rightarrow> u32 \<Rightarrow> sched \<Rightarrow> 'h \<Rightarrow> (sched \<times> 'h) run option" where
  "scheduler_remove_process kfree process s h =
     (if rq_head s = 0 \<or> process = 0 then Some (Inr (s, h))
      else if rq_head s = rq_tail s then
        Some (bind_run (node_at (rq_head s) s) (\<lambda>n.
          if qn_process n = process then
            bind_run (scheduler_destroy_queue_node kfree (rq_head s) s h) (\<lambda>(s, h).
            Inr (s\<lparr>rq_head := 0, rq_tail := 0, rq_count := 0\<rparr>, h))
          else Inr (s, h)))
      else remove_loop kfree process 0 (rq_head s) s h)"

definition scheduler_handle_tick :: "(u32 \<Rightarrow> sched \<Rightarrow> sched run) \<Rightarrow> sched \<Rightarrow> screen \<Rightarrow> (sched \<times> screen) run" where
  "scheduler_handle_tick process_switch s scr =
     (let s = s\<lparr>tick_count := tick_count s + 1\<rparr> in
      if tick_count s \<ge> TICKS_UNTIL_SWITCH then
        let s = s\<lparr>tick_count := 0\<rparr> in
        bind_run (scheduler_get_next_process s) (\<lambda>(next_process, s).
          if next_process \<noteq> 0 \<and> next_process \<noteq> current_process s then
            bind_run (printf (\<lambda>p. []) (chars ''Switching process'' @ [10, 0]) [] scr) (\<lambda>scr.
            bind_run (process_switch next_process s) (\<lambda>s. Inr (s, scr)))
          else Inr (s, scr))
      else Inr (s, scr))"

definition scheduler_get_current_process :: "sched \<Rightarrow> u32" where
  "scheduler_get_current_process s = current_process s"

definition scheduler_init :: "'h allocator \<Rightarrow> u32 \<Rightarrow> sched \<Rightarrow> 'h \<Rightarrow> (sched \<times> 'h) run" where
  "scheduler_init kmalloc init_process s h =
     (if init_process = 0 then Inl (Panic ''Tried to initialize the scheduler with a NULL process, you sneaky bastard (probably a bug in the kernel)'')
      else
        bind_run (scheduler_add_process kmalloc init_process (s\<lparr>tick_count := 0\<rparr>) h) (\<lambda>(s, h).
        Inr (s\<lparr>current_process := init_process, current_process_node := rq_head s\<rparr>, h)))"

text \<open>drivers/pit.c: the timer interrupt acknowledges and counts a tick.\<close>

definition pit_handler ::
  "(u32 \<Rightarrow> sched \<Rightarrow> sched run) \<Rightarrow> sched \<Rightarrow> screen \<Rightarrow> io \<Rightarrow> (sched \<times> screen \<times> io) run" where
  "pit_handler process_switch s scr io =
     (let io = pic_send_ack io in
      bind_run (scheduler_handle_tick process_switch s scr) (\<lambda>(s, scr). Inr (s, scr, io)))"

section \<open>The ring\<close>

text \<open>
  \<open>ring s xs\<close>: the ready queue is the circular list of the nodes \<open>xs\<close>, and \<open>procs s xs\<close> are the processes
  they hold.
\<close>

definition ring :: "sched \<Rightarrow> u32 list \<Rightarrow> bool" where
  "ring s xs \<longleftrightarrow> xs \<noteq> [] \<and> distinct xs \<and> 0 \<notin> set xs
     \<and> rq_head s = hd xs \<and> rq_tail s = last xs \<and> unat (rq_count s) = length xs
     \<and> (\<forall>i < length xs. \<exists>n. nodes s (xs ! i) = Some n \<and> qn_process n \<noteq> 0
           \<and> qn_next n = xs ! (Suc i mod length xs))"

definition proc :: "sched \<Rightarrow> u32 \<Rightarrow> u32" where
  "proc s p = (case nodes s p of Some n \<Rightarrow> qn_process n | None \<Rightarrow> 0)"

definition procs :: "sched \<Rightarrow> u32 list \<Rightarrow> u32 list" where
  "procs s xs = map (proc s) xs"

lemma ring_update [simp]:
  "ring (s\<lparr>current_process_node := p\<rparr>) xs = ring s xs" "ring (s\<lparr>current_process := q\<rparr>) xs = ring s xs"
  "ring (s\<lparr>tick_count := t\<rparr>) xs = ring s xs"
  by (simp_all add: ring_def)

lemma proc_update [simp]:
  "proc (s\<lparr>current_process_node := p\<rparr>) = proc s" "proc (s\<lparr>current_process := q\<rparr>) = proc s"
  "proc (s\<lparr>tick_count := t\<rparr>) = proc s"
  by (simp_all add: proc_def fun_eq_iff)

lemma ring_node:
  assumes "ring s xs" and "i < length xs"
  obtains n where "nodes s (xs ! i) = Some n" "qn_next n = xs ! (Suc i mod length xs)"
    "qn_process n = proc s (xs ! i)" "proc s (xs ! i) \<noteq> 0" "xs ! i \<noteq> 0"
proof -
  obtain n where "nodes s (xs ! i) = Some n" "qn_process n \<noteq> 0" "qn_next n = xs ! (Suc i mod length xs)"
    using assms unfolding ring_def by blast
  moreover have "xs ! i \<noteq> 0" using assms by (metis ring_def nth_mem)
  ultimately show ?thesis using that by (simp add: proc_def)
qed

lemma ring_facts:
  assumes "ring s xs"
  shows "xs \<noteq> []" "0 < length xs" "distinct xs" "rq_head s = xs ! 0" "rq_tail s = xs ! (length xs - 1)"
    "rq_head s \<noteq> 0" "rq_tail s \<noteq> 0" "0 \<notin> set xs" "unat (rq_count s) = length xs"
proof -
  have "xs ! 0 \<noteq> 0" "xs ! (length xs - 1) \<noteq> 0"
    using assms by (auto simp: ring_def) (metis length_greater_0_conv nth_mem, metis diff_less less_one length_greater_0_conv nth_mem One_nat_def)
  with assms show "xs \<noteq> []" "0 < length xs" "distinct xs" "rq_head s = xs ! 0" "rq_tail s = xs ! (length xs - 1)"
    "rq_head s \<noteq> 0" "rq_tail s \<noteq> 0" "0 \<notin> set xs" "unat (rq_count s) = length xs"
    by (auto simp: ring_def hd_conv_nth last_conv_nth)
qed

section \<open>Round robin\<close>

lemma mod_length: "i < length xs \<Longrightarrow> k mod length xs < length xs"
  by (intro mod_less_divisor) linarith

lemma get_next_ring:
  assumes "ring s xs" and "i < length xs" and "current_process_node s = xs ! i"
  shows "scheduler_get_next_process s =
           Inr (proc s (xs ! (Suc i mod length xs)), s\<lparr>current_process_node := xs ! (Suc i mod length xs)\<rparr>)"
proof -
  have j: "Suc i mod length xs < length xs" using assms(2) by (rule mod_length)
  obtain n where n: "nodes s (xs ! i) = Some n" "qn_next n = xs ! (Suc i mod length xs)" "xs ! i \<noteq> 0"
    using ring_node [OF assms(1,2)] by blast
  obtain m where m: "nodes s (xs ! (Suc i mod length xs)) = Some m"
    "qn_process m = proc s (xs ! (Suc i mod length xs))" "xs ! (Suc i mod length xs) \<noteq> 0"
    using ring_node [OF assms(1) j] by blast
  show ?thesis
    using n m assms(3) ring_facts(6) [OF assms(1)]
    by (simp add: scheduler_get_next_process_def node_at_def)
qed

text \<open>\<open>k\<close> consecutive calls and the processes they return.\<close>

fun next_processes :: "nat \<Rightarrow> sched \<Rightarrow> (u32 list \<times> sched) run" where
  "next_processes 0 s = Inr ([], s)"
| "next_processes (Suc k) s =
     bind_run (scheduler_get_next_process s) (\<lambda>(p, s).
     bind_run (next_processes k s) (\<lambda>(ps, s). Inr (p # ps, s)))"

lemma next_processes_ring:
  "ring s xs \<Longrightarrow> i < length xs \<Longrightarrow> current_process_node s = xs ! i \<Longrightarrow>
     next_processes k s =
       Inr (map (\<lambda>m. proc s (xs ! (Suc (i + m) mod length xs))) [0..<k],
            s\<lparr>current_process_node := xs ! ((i + k) mod length xs)\<rparr>)"
proof (induction k arbitrary: s i)
  case 0
  then show ?case by simp
next
  case (Suc k)
  let ?j = "Suc i mod length xs"
  let ?s = "s\<lparr>current_process_node := xs ! ?j\<rparr>"
  have "?j < length xs" using Suc.prems(2) by (rule mod_length)
  then have "next_processes k ?s =
      Inr (map (\<lambda>m. proc ?s (xs ! (Suc (?j + m) mod length xs))) [0..<k],
           ?s\<lparr>current_process_node := xs ! ((?j + k) mod length xs)\<rparr>)"
    using Suc.prems by (intro Suc.IH) simp_all
  moreover have "(?j + m) mod length xs = Suc (i + m) mod length xs" "Suc (?j + m) mod length xs = Suc (Suc (i + m)) mod length xs" for m
    by (simp add: mod_simps) (metis add_Suc add_Suc_right mod_Suc_eq mod_add_left_eq)
  ultimately show ?case
    using get_next_ring [OF Suc.prems] by (simp add: upt_conv_Cons map_Suc_upt [symmetric] del: upt_Suc)
qed

lemma round_is_rotation:
  assumes "i < length xs"
  shows "map (\<lambda>m. f (xs ! (Suc (i + m) mod length xs))) [0..<length xs] = rotate (Suc i) (map f xs)"
proof (rule nth_equalityI)
  fix m assume "m < length (map (\<lambda>m. f (xs ! (Suc (i + m) mod length xs))) [0..<length xs])"
  then have "m < length xs" by simp
  moreover from this have "Suc (i + m) mod length xs < length xs" by (rule mod_length)
  ultimately show "map (\<lambda>m. f (xs ! (Suc (i + m) mod length xs))) [0..<length xs] ! m = rotate (Suc i) (map f xs) ! m"
    by (simp add: nth_rotate del: rotate_Suc)
qed simp

section \<open>Adding a process\<close>

lemma ring_fresh:
  assumes "ring s xs" and "nodes s a = None"
  shows "a \<notin> set xs"
proof
  assume "a \<in> set xs"
  then obtain i where "i < length xs" "xs ! i = a" by (auto simp: in_set_conv_nth)
  with ring_node [OF assms(1)] assms(2) show False by (metis option.distinct(1))
qed

text \<open>The links after a node \<open>a\<close> was put between the last node and the first.\<close>

lemma ring_append_nodes:
  assumes "ring s xs" and "a \<notin> set xs" and "process \<noteq> 0" and "nodes s (xs ! (length xs - 1)) = Some n"
    and "nodes s' = (nodes s)(a \<mapsto> \<lparr>qn_process = process, qn_next = xs ! 0\<rparr>, xs ! (length xs - 1) \<mapsto> n\<lparr>qn_next := a\<rparr>)"
    and i: "i < length (xs @ [a])"
  shows "\<exists>m. nodes s' ((xs @ [a]) ! i) = Some m \<and> qn_process m \<noteq> 0 \<and> qn_next m = (xs @ [a]) ! (Suc i mod length (xs @ [a]))"
proof -
  note f = ring_facts [OF assms(1)]
  let ?t = "xs ! (length xs - 1)"
  have ta: "?t \<noteq> a" using assms(2) f(2) by (metis diff_less nth_mem zero_less_one)
  consider "i = length xs" | "i = length xs - 1" "i < length xs" | "i < length xs - 1"
    using i by (cases "i = length xs"; cases "i = length xs - 1"; simp)
  then show ?thesis
  proof cases
    case 1
    with f(2) ta assms(3) show ?thesis by (simp add: assms(5) nth_append)
  next
    case 2
    obtain m where "nodes s (xs ! i) = Some m" "qn_process m = proc s (xs ! i)" "proc s (xs ! i) \<noteq> 0"
      using ring_node [OF assms(1) 2(2)] by blast
    with 2 assms(4) show ?thesis by (auto simp: assms(5) nth_append)
  next
    case 3
    then obtain m where m: "nodes s (xs ! i) = Some m" "qn_next m = xs ! Suc i" "qn_process m \<noteq> 0"
      using ring_node [OF assms(1), of i] by (metis Suc_less_eq Suc_pred' f(2) less_SucI mod_less)
    have "xs ! i \<noteq> ?t" using 3 f(3) by (simp add: nth_eq_iff_index_eq)
    moreover have "xs ! i \<noteq> a" using assms(2) 3 by auto
    moreover have "Suc i < length xs" "i < length xs" using 3 by simp_all
    ultimately show ?thesis using m by (simp add: assms(5) nth_append)
  qed
qed

lemma ring_add:
  assumes "ring s xs" and "kmalloc 8 h = Inr (a, h')" and "a \<noteq> 0" and "nodes s a = None"
    and "process \<noteq> 0" and "length xs < 2 ^ 32 - 1"
  shows "\<exists>s'. scheduler_add_process kmalloc process s h = Inr (s', h') \<and> ring s' (xs @ [a])
           \<and> procs s' (xs @ [a]) = procs s xs @ [process]
           \<and> current_process_node s' = current_process_node s"
proof -
  note f = ring_facts [OF assms(1)]
  let ?t = "xs ! (length xs - 1)"
  have fresh: "a \<notin> set xs" using assms(1,4) by (rule ring_fresh)
  obtain n where n: "nodes s ?t = Some n" "qn_process n = proc s ?t"
    using ring_node [OF assms(1), of "length xs - 1"] f(2) by (metis diff_less zero_less_one)
  have "?t \<noteq> a" using fresh f(2) by (metis diff_less nth_mem zero_less_one)
  define s' where "s' = s\<lparr>nodes := (nodes s)(a \<mapsto> \<lparr>qn_process = process, qn_next = xs ! 0\<rparr>, ?t \<mapsto> n\<lparr>qn_next := a\<rparr>),
    rq_tail := a, rq_count := rq_count s + 1\<rparr>"
  have add: "scheduler_add_process kmalloc process s h = Inr (s', h')"
    using assms n f \<open>?t \<noteq> a\<close>
    by (simp add: scheduler_add_process_def scheduler_create_queue_node_def set_next_def node_at_def s'_def
        fun_upd_twist)
  have count: "unat (rq_count s + 1) = Suc (length xs)"
    using f(9) assms(6) by (subst unat_add_exact) simp_all
  have succ: "\<exists>m. nodes s' ((xs @ [a]) ! i) = Some m \<and> qn_process m \<noteq> 0
      \<and> qn_next m = (xs @ [a]) ! (Suc i mod length (xs @ [a]))" if i: "i < length (xs @ [a])" for i
    using i by (intro ring_append_nodes [OF assms(1) fresh assms(5) n(1)]) (simp_all add: s'_def)
  have "ring s' (xs @ [a])"
    using f fresh assms(3) count succ by (simp add: ring_def s'_def hd_conv_nth nth_append del: fun_upd_apply)
  moreover have "proc s' x = proc s x" if "x \<in> set xs" for x
    using that fresh n by (auto simp: proc_def s'_def)
  then have "procs s' (xs @ [a]) = procs s xs @ [process]"
    using \<open>?t \<noteq> a\<close> by (simp add: procs_def) (simp add: proc_def s'_def)
  ultimately show ?thesis using add by (simp add: s'_def)
qed

lemma ring_add_empty:
  assumes "rq_tail s = 0" and "rq_count s = 0" and "kmalloc 8 h = Inr (a, h')" and "a \<noteq> 0" and "process \<noteq> 0"
  shows "\<exists>s'. scheduler_add_process kmalloc process s h = Inr (s', h') \<and> ring s' [a] \<and> procs s' [a] = [process]
           \<and> current_process_node s' = current_process_node s"
  using assms
  by (simp add: scheduler_add_process_def scheduler_create_queue_node_def set_next_def node_at_def ring_def
      procs_def proc_def)

section \<open>Removing a process\<close>

lemma remove_loop_finds:
  "ring s xs \<Longrightarrow> k \<le> i \<Longrightarrow> i < length xs \<Longrightarrow> proc s (xs ! i) = process \<Longrightarrow>
     (\<forall>j. k \<le> j \<and> j < i \<longrightarrow> proc s (xs ! j) \<noteq> process) \<Longrightarrow> nodes s (xs ! i) = Some n \<Longrightarrow>
     remove_loop kfree process (if k = 0 then 0 else xs ! (k - 1)) (xs ! k) s h =
       Some (scheduler_unlink kfree (if i = 0 then 0 else xs ! (i - 1)) (xs ! i) n s h)"
proof (induction "i - k" arbitrary: k)
  case 0
  then have "k = i" by simp
  moreover have "qn_process n = process" using 0 by (simp add: proc_def)
  ultimately show ?case using 0 by (subst remove_loop.simps) simp
next
  case (Suc d)
  then have k: "k < i" "k < length xs" "Suc k < length xs" by simp_all
  obtain m where m: "nodes s (xs ! k) = Some m" "qn_next m = xs ! Suc k" "qn_process m = proc s (xs ! k)"
    using ring_node [OF Suc.prems(1) k(2)] k(3) by (metis mod_less)
  have "xs ! Suc k \<noteq> xs ! 0"
    using ring_facts(2,3) [OF Suc.prems(1)] k(3) by (simp add: nth_eq_iff_index_eq)
  moreover have "proc s (xs ! k) \<noteq> process" using Suc.prems(5) k(1) by blast
  ultimately have "remove_loop kfree process (if k = 0 then 0 else xs ! (k - 1)) (xs ! k) s h
      = remove_loop kfree process (xs ! k) (xs ! Suc k) s h"
    using m ring_facts(4) [OF Suc.prems(1)] by (subst remove_loop.simps) simp
  also have "\<dots> = Some (scheduler_unlink kfree (if i = 0 then 0 else xs ! (i - 1)) (xs ! i) n s h)"
    using Suc.hyps(1) [of "Suc k"] Suc.hyps(2) Suc.prems k by simp
  finally show ?case .
qed

lemma remove_loop_absent:
  "ring s xs \<Longrightarrow> k < length xs \<Longrightarrow> process \<notin> set (procs s xs) \<Longrightarrow>
     remove_loop kfree process p (xs ! k) s h = Some (Inr (s, h))"
proof (induction "length xs - Suc k" arbitrary: k p)
  case 0
  then have "length xs = Suc k" by simp
  then have "Suc k mod length xs = 0" by simp
  moreover obtain m where "nodes s (xs ! k) = Some m" "qn_next m = xs ! (Suc k mod length xs)" "qn_process m = proc s (xs ! k)"
    using ring_node [OF 0(2,3)] by blast
  moreover have "proc s (xs ! k) \<noteq> process" using 0(3,4) by (auto simp: procs_def)
  ultimately show ?case using ring_facts(4) [OF 0(2)] by (subst remove_loop.simps) simp
next
  case (Suc d)
  then have k: "Suc k < length xs" by simp
  obtain m where m: "nodes s (xs ! k) = Some m" "qn_next m = xs ! Suc k" "qn_process m = proc s (xs ! k)"
    using ring_node [OF Suc.prems(1,2)] k by (metis mod_less)
  have "xs ! Suc k \<noteq> xs ! 0"
    using ring_facts(2,3) [OF Suc.prems(1)] k by (simp add: nth_eq_iff_index_eq)
  moreover have "proc s (xs ! k) \<noteq> process" using Suc.prems(2,3) by (auto simp: procs_def)
  ultimately show ?case
    using m ring_facts(4) [OF Suc.prems(1)] Suc.hyps(1) [of "Suc k" "xs ! k"] Suc.hyps(2) Suc.prems k
    by (subst remove_loop.simps) simp
qed

text \<open>The list without its \<open>i\<close>-th element, and successors in it.\<close>

definition without :: "nat \<Rightarrow> 'a list \<Rightarrow> 'a list" where
  "without i xs = take i xs @ drop (Suc i) xs"

lemma without_length: "i < length xs \<Longrightarrow> length (without i xs) = length xs - 1"
  by (simp add: without_def)

lemma without_nth: "i < length xs \<Longrightarrow> j < length xs - 1 \<Longrightarrow> without i xs ! j = xs ! (if j < i then j else Suc j)"
  by (auto simp: without_def nth_append min_def)

lemma without_successor:
  assumes "1 \<le> i" and "i < length xs" and "j < length xs - 1"
  shows "without i xs ! (Suc j mod (length xs - 1)) =
     xs ! (if j = i - 1 then Suc i mod length xs else Suc (if j < i then j else Suc j) mod length xs)"
proof (cases "Suc j < length xs - 1")
  case True
  with assms show ?thesis by (auto simp: without_nth)
next
  case False
  with assms(3) have "Suc j = length xs - 1" "Suc (Suc j) = length xs" by simp_all
  moreover from this have "Suc j mod (length xs - 1) = 0" "Suc (Suc j) mod length xs = 0" by simp_all
  moreover have "without i xs ! 0 = xs ! 0" using assms by (subst without_nth) simp_all
  moreover have "Suc i mod length xs = 0" if "j = i - 1"
  proof -
    have "Suc i = length xs" using that assms calculation(2) by simp
    then show ?thesis by simp
  qed
  moreover have "\<not> j < i" if "j \<noteq> i - 1" using that assms calculation(2) by linarith
  ultimately show ?thesis by (cases "j = i - 1") simp_all
qed

lemma set_without: "distinct xs \<Longrightarrow> i < length xs \<Longrightarrow> set (without i xs) = set xs - {xs ! i}"
proof -
  assume "distinct xs" "i < length xs"
  moreover from this have "xs = take i xs @ xs ! i # drop (Suc i) xs" by (simp add: id_take_nth_drop)
  ultimately show ?thesis unfolding without_def
    by (metis Diff_insert_absorb Un_insert_right distinct.simps(2) distinct_append in_set_conv_decomp_first
        list.simps(15) not_distinct_conv_prefix set_append Un_iff insert_iff)
qed

text \<open>What removing the node at position \<open>i\<close> of the ring, other than the first, leaves behind.\<close>

lemma unlink_prev:
  assumes "a \<noteq> c" and "a \<noteq> 0" and "nodes s c = Some n" and "nodes s a = Some m"
    and "1 < rq_count s" and "kfree c h = Inr h'"
  shows "scheduler_unlink kfree a c n s h =
     Inr (s\<lparr>nodes := (nodes s)(a \<mapsto> m\<lparr>qn_next := qn_next n\<rparr>, c := None),
            rq_tail := (if c = rq_tail s then a else rq_tail s),
            rq_count := rq_count s - 1,
            current_process_node := (if c = current_process_node s then qn_next n else current_process_node s)\<rparr>, h')"
proof -
  have "nodes s' c = Some n" if "nodes s' = (nodes s)(a \<mapsto> k)" for s' k using that assms(1,3) by simp
  then show ?thesis
    using assms
    by (cases "c = current_process_node s"; cases "c = rq_tail s")
       (simp_all add: scheduler_unlink_def set_next_def node_at_def scheduler_destroy_queue_node_def Let_def)
qed

lemma unlink_inner:
  assumes "ring s xs" and "1 \<le> i" and "i < length xs" and "nodes s (xs ! i) = Some n"
    and "nodes s (xs ! (i - 1)) = Some m" and "kfree (xs ! i) h = Inr h'"
  shows "scheduler_unlink kfree (xs ! (i - 1)) (xs ! i) n s h =
     Inr (s\<lparr>nodes := (nodes s)(xs ! (i - 1) \<mapsto> m\<lparr>qn_next := qn_next n\<rparr>, xs ! i := None),
            rq_tail := (if xs ! i = rq_tail s then xs ! (i - 1) else rq_tail s),
            rq_count := rq_count s - 1,
            current_process_node := (if xs ! i = current_process_node s then qn_next n else current_process_node s)\<rparr>, h')"
proof -
  have ne: "xs ! (i - 1) \<noteq> xs ! i" using ring_facts(3) [OF assms(1)] assms(2,3) by (simp add: nth_eq_iff_index_eq)
  have prev: "xs ! (i - 1) \<noteq> 0"
    using ring_facts(8) [OF assms(1)] assms(3) by (metis less_imp_diff_less nth_mem)
  have "1 < rq_count s" using ring_facts(9) [OF assms(1)] assms(2,3) by (simp add: word_less_nat_alt)
  with ne prev assms(4-6) show ?thesis by (intro unlink_prev)
qed

text \<open>The links after the inner node \<open>i\<close> was taken out.\<close>

lemma ring_remove_nodes:
  assumes "ring s xs" and "1 \<le> i" and "i < length xs" and "nodes s (xs ! i) = Some n" and "nodes s (xs ! (i - 1)) = Some m"
    and s': "nodes s' = (nodes s)(xs ! (i - 1) \<mapsto> m\<lparr>qn_next := qn_next n\<rparr>, xs ! i := None)" and j: "j < length (without i xs)"
  shows "\<exists>k. nodes s' (without i xs ! j) = Some k \<and> qn_process k = proc s (without i xs ! j) \<and> qn_process k \<noteq> 0
      \<and> qn_next k = without i xs ! (Suc j mod length (without i xs))"
proof -
  note f = ring_facts [OF assms(1)]
  let ?ys = "without i xs" and ?j = "if j < i then j else Suc j"
  have ys: "length ?ys = length xs - 1" "0 < length xs - 1" using assms(2,3) by (simp_all add: without_length)
  have eq: "xs ! a = xs ! b \<longleftrightarrow> a = b" if "a < length xs" "b < length xs" for a b
    using that f(3) by (simp add: nth_eq_iff_index_eq)
  have next_n: "qn_next n = xs ! (Suc i mod length xs)"
    using ring_node [OF assms(1,3)] assms(4) by (metis option.inject)
  have j': "?j < length xs" "?j \<noteq> i" "j < length xs - 1" "?j = i - 1 \<longleftrightarrow> j = i - 1"
    using j ys assms(2,3) by auto
  obtain k where k: "nodes s (xs ! ?j) = Some k" "qn_next k = xs ! (Suc ?j mod length xs)"
      "qn_process k = proc s (xs ! ?j)" "proc s (xs ! ?j) \<noteq> 0"
    using ring_node [OF assms(1) j'(1)] by blast
  have "nodes s' (xs ! ?j) = Some (if j = i - 1 then k\<lparr>qn_next := qn_next n\<rparr> else k)"
    using eq [OF j'(1) assms(3)] eq [OF j'(1), of "i - 1"] assms(3,5) j' k(1) by (auto simp: s')
  moreover have "?ys ! (Suc j mod length ?ys) = qn_next (if j = i - 1 then k\<lparr>qn_next := qn_next n\<rparr> else k)"
    using without_successor [OF assms(2,3) j'(3)] k(2) next_n unfolding ys by simp
  ultimately show ?thesis using k without_nth [OF assms(3) j'(3)] by (cases "j = i - 1") auto
qed

lemma ring_remove_inner:
  assumes "ring s xs" and "1 \<le> i" and "i < length xs" and "nodes s (xs ! i) = Some n"
    and "nodes s (xs ! (i - 1)) = Some m"
    and s': "nodes s' = (nodes s)(xs ! (i - 1) \<mapsto> m\<lparr>qn_next := qn_next n\<rparr>, xs ! i := None)"
      "rq_head s' = rq_head s" "rq_tail s' = (if xs ! i = rq_tail s then xs ! (i - 1) else rq_tail s)"
      "rq_count s' = rq_count s - 1"
  shows "ring s' (without i xs)" and "procs s' (without i xs) = without i (procs s xs)"
proof -
  note f = ring_facts [OF assms(1)]
  let ?ys = "without i xs"
  have ys: "length ?ys = length xs - 1" "0 < length xs - 1" using assms(2,3) by (simp_all add: without_length)
  have nth: "?ys ! j = xs ! (if j < i then j else Suc j)" if "j < length xs - 1" for j
    using without_nth [OF assms(3) that] .
  have eq: "xs ! a = xs ! b \<longleftrightarrow> a = b" if "a < length xs" "b < length xs" for a b
    using that f(3) by (simp add: nth_eq_iff_index_eq)
  note node = ring_remove_nodes [OF assms(1-5) s'(1)]
  have tail: "rq_tail s' = last ?ys"
  proof -
    have "last ?ys = ?ys ! (length xs - 2)" 
      using ys by (simp add: last_conv_nth numeral_2_eq_2 flip: length_greater_0_conv)
    also have "\<dots> = xs ! (if i = length xs - 1 then i - 1 else length xs - 1)"
      using assms(2,3) ys by (subst nth) (auto simp: Suc_diff_Suc numeral_2_eq_2)
    finally show ?thesis using f(5) eq [OF assms(3), of "length xs - 1"] assms(2,3) by (auto simp: s')
  qed
  have "unat (rq_count s - 1) = length xs - 1"
    using f(9) assms(3) by (metis Suc_diff_1 diff_Suc_1 f(2) unat_pred(2))
  moreover have "hd ?ys = xs ! 0" using ys assms(2) nth [of 0] by (simp add: hd_conv_nth flip: length_greater_0_conv)
  moreover have "distinct (take i xs @ xs ! i # drop (Suc i) xs)"
    using f(3) id_take_nth_drop [OF assms(3)] by metis
  then have "distinct ?ys" by (simp add: without_def)
  moreover have "?ys \<noteq> []" using ys by (simp flip: length_greater_0_conv)
  moreover have "0 \<notin> set ?ys" using f(8) set_without [OF f(3) assms(3)] by simp
  moreover have "\<forall>j < length ?ys. \<exists>k. nodes s' (?ys ! j) = Some k \<and> qn_process k \<noteq> 0
      \<and> qn_next k = ?ys ! (Suc j mod length ?ys)" using node by blast
  ultimately show "ring s' ?ys"
    unfolding ring_def using tail ys(1) f(4) by (simp add: s'(2,4))
  have "map (proc s') ?ys = map (proc s) ?ys"
  proof (rule map_cong [OF refl])
    fix y assume "y \<in> set ?ys"
    then obtain j where "j < length ?ys" "?ys ! j = y" by (auto simp: in_set_conv_nth)
    with node [of j] show "proc s' y = proc s y" by (auto simp: proc_def [of s'])
  qed
  then show "procs s' ?ys = without i (procs s xs)" by (simp add: procs_def without_def take_map drop_map)
qed

section \<open>Ticks\<close>

fun ticks :: "(u32 \<Rightarrow> sched \<Rightarrow> sched run) \<Rightarrow> nat \<Rightarrow> sched \<Rightarrow> screen \<Rightarrow> (sched \<times> screen) run" where
  "ticks sw 0 s scr = Inr (s, scr)"
| "ticks sw (Suc n) s scr = bind_run (scheduler_handle_tick sw s scr) (\<lambda>(s, scr). ticks sw n s scr)"

lemma ticks_add: "ticks sw (m + n) s scr = bind_run (ticks sw m s scr) (\<lambda>(s, scr). ticks sw n s scr)"
proof (induction m arbitrary: s scr)
  case (Suc m)
  then show ?case by (cases "scheduler_handle_tick sw s scr") auto
qed simp

lemma ticks_count:
  "unat (tick_count s) + n < 10 \<Longrightarrow> ticks sw n s scr = Inr (s\<lparr>tick_count := tick_count s + of_nat n\<rparr>, scr)"
proof (induction n arbitrary: s)
  case (Suc n)
  have u: "unat (tick_count s + 1) = unat (tick_count s) + 1" using Suc.prems by (subst unat_add_exact) auto
  then have "\<not> tick_count s + 1 \<ge> 10" using Suc.prems by (simp add: word_le_nat_alt)
  then have "scheduler_handle_tick sw s scr = Inr (s\<lparr>tick_count := tick_count s + 1\<rparr>, scr)"
    by (simp add: scheduler_handle_tick_def TICKS_UNTIL_SWITCH_def)
  with Suc.IH [of "s\<lparr>tick_count := tick_count s + 1\<rparr>"] u Suc.prems show ?case by (simp add: add_ac)
qed simp

text \<open>What the context switch does to the scheduler's own variables: it makes the new process current.\<close>

definition switches_current :: "(u32 \<Rightarrow> sched \<Rightarrow> sched run) \<Rightarrow> bool" where
  "switches_current sw \<longleftrightarrow> (\<forall>p s. sw p s = Inr (s\<lparr>current_process := p\<rparr>))"

lemma message_switching: "0 \<notin> set (chars ''Switching process'' @ [10])" "37 \<notin> set (chars ''Switching process'' @ [10])"
  by (simp_all add: chars_def)

lemma ten_ticks:
  assumes "switches_current sw" and "ring s xs" and "i < length xs" and "current_process_node s = xs ! i"
    and "tick_count s = 0" and "shows_rows out k scr"
  shows "\<exists>scr' out' k'. ticks sw 10 s scr = Inr (s\<lparr>current_process_node := xs ! (Suc i mod length xs),
            current_process := proc s (xs ! (Suc i mod length xs))\<rparr>, scr') \<and> shows_rows out' k' scr'"
proof -
  let ?j = "Suc i mod length xs"
  let ?s9 = "s\<lparr>tick_count := 9\<rparr>" and ?s0 = "s\<lparr>tick_count := 0\<rparr>"
  have "ticks sw 9 s scr = Inr (?s9, scr)" using ticks_count [of s 9 sw scr] assms(5) by simp
  moreover have "ticks sw 10 s scr = ticks sw (9 + 1) s scr" by simp
  ultimately have t: "ticks sw 10 s scr = scheduler_handle_tick sw ?s9 scr"
    unfolding ticks_add by (cases "scheduler_handle_tick sw ?s9 scr") auto
  have get: "scheduler_get_next_process ?s0 = Inr (proc s (xs ! ?j), ?s0\<lparr>current_process_node := xs ! ?j\<rparr>)"
    using get_next_ring [of ?s0 xs i] assms(2-4) by simp
  have nz: "proc s (xs ! ?j) \<noteq> 0" using ring_node [OF assms(2) mod_length [OF assms(3)]] by blast
  have s: "?s0 = s" using assms(5) by simp
  obtain scr' out' k' where msg: "printf (\<lambda>p. []) (chars ''Switching process'' @ [10, 0]) [] scr = Inr scr'"
    "shows_rows out' k' scr'"
    using printf_message [OF message_switching assms(6)] by (simp only: append_assoc append_Cons append_Nil) blast
  show ?thesis
  proof (cases "proc s (xs ! ?j) = current_process s")
    case True
    then have "ticks sw 10 s scr = Inr (s\<lparr>current_process_node := xs ! ?j\<rparr>, scr)"
      using get unfolding t scheduler_handle_tick_def by (simp add: TICKS_UNTIL_SWITCH_def s)
    with True assms(6) show ?thesis by auto
  next
    case False
    then have "ticks sw 10 s scr = Inr (s\<lparr>current_process_node := xs ! ?j, current_process := proc s (xs ! ?j)\<rparr>, scr')"
      using get msg(1) nz assms(1) unfolding t scheduler_handle_tick_def
      by (simp add: TICKS_UNTIL_SWITCH_def s switches_current_def)
    with msg(2) show ?thesis by auto
  qed
qed

lemma many_ticks:
  assumes "switches_current sw" and "ring s xs" and "i < length xs" and "current_process_node s = xs ! i"
    and "tick_count s = 0" and "shows_rows out k scr" and "0 < n"
  shows "\<exists>scr' out' k'. ticks sw (10 * n) s scr = Inr (s\<lparr>current_process_node := xs ! ((i + n) mod length xs),
            current_process := proc s (xs ! ((i + n) mod length xs))\<rparr>, scr') \<and> shows_rows out' k' scr'"
  using assms
proof (induction n arbitrary: s i scr out k)
  case (Suc n)
  let ?j = "Suc i mod length xs"
  let ?s = "s\<lparr>current_process_node := xs ! ?j, current_process := proc s (xs ! ?j)\<rparr>"
  obtain scr1 out1 k1 where first: "ticks sw 10 s scr = Inr (?s, scr1)" "shows_rows out1 k1 scr1"
    using ten_ticks [OF Suc.prems(1-6)] by blast
  have split: "ticks sw (10 * Suc n) s scr = ticks sw (10 * n) ?s scr1"
    using ticks_add [of sw 10 "10 * n" s scr] first(1) by (simp del: ticks.simps)
  show ?case
  proof (cases "n = 0")
    case True
    with split first show ?thesis by auto
  next
    case False
    have "(?j + n) mod length xs = (i + Suc n) mod length xs" by (simp add: mod_simps)
    with Suc.IH [of ?s ?j out1 k1 scr1] Suc.prems first(2) False split mod_length [OF Suc.prems(3)]
    show ?thesis by simp
  qed
qed simp

section \<open>Properties\<close>

text \<open>C18. Round robin: over a ring of n processes, n consecutive calls of scheduler_get_next_process return
  every process exactly once, in queue order starting after the current one, and end where they began;
  every 10 ticks of the timer make the next process of the ring the current one, so after 10 k ticks the
  current process is the one k places further.\<close>

theorem scheduler_round_robin:
  assumes "ring s xs" and "i < length xs" and "current_process_node s = xs ! i"
    and "switches_current sw" and "tick_count s = 0" and "shows_rows out r scr" and "0 < k"
  shows "next_processes (length xs) s = Inr (rotate (Suc i) (procs s xs), s)
       \<and> (\<exists>s' scr'. ticks sw (10 * k) s scr = Inr (s', scr') \<and> ring s' xs \<and> tick_count s' = 0
            \<and> current_process s' = procs s xs ! ((i + k) mod length xs)
            \<and> current_process_node s' = xs ! ((i + k) mod length xs))"
proof -
  have "s\<lparr>current_process_node := xs ! i\<rparr> = s" using assms(3) by simp
  then have "next_processes (length xs) s = Inr (rotate (Suc i) (procs s xs), s)"
    using next_processes_ring [OF assms(1-3), of "length xs"] round_is_rotation [OF assms(2), of "proc s"] assms(2)
    by (simp add: procs_def)
  moreover have "procs s xs ! ((i + k) mod length xs) = proc s (xs ! ((i + k) mod length xs))"
    using mod_length [OF assms(2)] by (simp add: procs_def)
  ultimately show ?thesis
    using many_ticks [OF assms(4,1,2,3,5,6,7)] assms(1,5) by auto
qed

definition plain_switch :: "u32 \<Rightarrow> sched \<Rightarrow> sched run" where
  "plain_switch p s = Inr (s\<lparr>current_process := p\<rparr>)"

text \<open>Two processes at 0x100 and 0x200, the first one current.\<close>

definition two_processes :: sched where
  "two_processes = \<lparr>nodes = [0x10 \<mapsto> \<lparr>qn_process = 0x100, qn_next = 0x20\<rparr>, 0x20 \<mapsto> \<lparr>qn_process = 0x200, qn_next = 0x10\<rparr>],
     rq_head = 0x10, rq_tail = 0x20, rq_count = 2, current_process_node = 0x10, current_process = 0x100, tick_count = 0\<rparr>"

lemma two_processes_ring: "ring two_processes [0x10, 0x20]"
  by (auto simp: ring_def two_processes_def less_Suc_eq)

lemma scheduler_round_robin_witness:
  "next_processes 2 two_processes = Inr ([0x200, 0x100], two_processes)
   \<and> (\<exists>s' scr'. ticks plain_switch 10 two_processes (screen_boot (replicate 2000 EMPTY_LETTER)) = Inr (s', scr')
        \<and> current_process s' = 0x200)"
proof -
  have scr: "shows_rows [] 0 (screen_boot (replicate 2000 EMPTY_LETTER))"
    by (simp add: shows_rows_def screen_boot_def)
  have "switches_current plain_switch" by (simp add: switches_current_def plain_switch_def)
  moreover have "procs two_processes [0x10, 0x20] = [0x100, 0x200]"
    by (simp add: procs_def proc_def two_processes_def)
  ultimately show ?thesis
    using scheduler_round_robin [OF two_processes_ring _ _ _ _ scr, of 0 plain_switch 1]
    by (auto simp: numeral_2_eq_2 [symmetric] two_processes_def)
qed

text \<open>Adding a process puts it at the end of the ring and keeps the ring and the current node; the node
  it allocates is linked from the old tail and back to the head. On an empty queue it makes a ring of
  one.\<close>

theorem scheduler_add_appends:
  assumes "kmalloc 8 h = Inr (a, h')" and "a \<noteq> 0" and "nodes s a = None" and "process \<noteq> 0"
  shows "(\<forall>xs. ring s xs \<and> length xs < 2 ^ 32 - 1 \<longrightarrow>
            (\<exists>s'. scheduler_add_process kmalloc process s h = Inr (s', h') \<and> ring s' (xs @ [a])
               \<and> procs s' (xs @ [a]) = procs s xs @ [process] \<and> current_process_node s' = current_process_node s))
       \<and> (rq_tail s = 0 \<and> rq_count s = 0 \<longrightarrow>
            (\<exists>s'. scheduler_add_process kmalloc process s h = Inr (s', h') \<and> ring s' [a] \<and> procs s' [a] = [process]))"
  using ring_add [where kmalloc = kmalloc and h = h and a = a and h' = h' and process = process and s = s]
    ring_add_empty [where kmalloc = kmalloc and h = h and a = a and h' = h' and process = process and s = s] assms
  by blast

lemma scheduler_add_appends_witness:
  "\<exists>s'. scheduler_add_process (\<lambda>size h. Inr (h, h + 8)) 0x300 two_processes 0x30 = Inr (s', 0x38)
     \<and> ring s' [0x10, 0x20, 0x30] \<and> procs s' [0x10, 0x20, 0x30] = [0x100, 0x200, 0x300]"
proof -
  have "procs two_processes [0x10, 0x20] = [0x100, 0x200]" "nodes two_processes 0x30 = None"
    by (simp_all add: procs_def proc_def two_processes_def)
  then show ?thesis
    using scheduler_add_appends [where kmalloc = "\<lambda>size h. Inr (h, h + 8)" and h = "0x30" and a = "0x30"
        and h' = "0x38" and s = two_processes and process = "0x300"] two_processes_ring
    by fastforce
qed

text \<open>C26. Removing a process that is not at the head of the queue unlinks exactly its first node and keeps
  the rest of the ring in order, with the current node moved to the successor when it was the removed
  one; removing a process that is not queued changes nothing. The search always ends.\<close>

theorem scheduler_remove_keeps_ring:
  assumes "ring s xs" and "2 \<le> length xs" and "process \<noteq> 0"
  shows "(\<forall>i h'. 1 \<le> i \<and> i < length xs \<and> procs s xs ! i = process \<and> (\<forall>j < i. procs s xs ! j \<noteq> process)
            \<and> kfree (xs ! i) h = Inr h' \<longrightarrow>
            (\<exists>s'. scheduler_remove_process kfree process s h = Some (Inr (s', h'))
               \<and> ring s' (without i xs) \<and> procs s' (without i xs) = without i (procs s xs)
               \<and> current_process_node s' = (if current_process_node s = xs ! i then xs ! (Suc i mod length xs)
                                            else current_process_node s)))
       \<and> (process \<notin> set (procs s xs) \<longrightarrow> scheduler_remove_process kfree process s h = Some (Inr (s, h)))"
proof -
  note f = ring_facts [OF assms(1)]
  have two: "rq_head s \<noteq> rq_tail s"
    using f(2-5) assms(2) by (simp add: nth_eq_iff_index_eq)
  then have loop: "scheduler_remove_process kfree process s h = remove_loop kfree process 0 (xs ! 0) s h"
    using f(4,6) assms(3) by (simp add: scheduler_remove_process_def)
  have "scheduler_remove_process kfree process s h = Some (Inr (s, h))" if "process \<notin> set (procs s xs)"
    unfolding loop using remove_loop_absent [OF assms(1) f(2) that] .
  moreover have "\<exists>s'. scheduler_remove_process kfree process s h = Some (Inr (s', h'))
      \<and> ring s' (without i xs) \<and> procs s' (without i xs) = without i (procs s xs)
      \<and> current_process_node s' = (if current_process_node s = xs ! i then xs ! (Suc i mod length xs)
                                   else current_process_node s)"
    if i: "1 \<le> i" "i < length xs" "procs s xs ! i = process" "\<forall>j < i. procs s xs ! j \<noteq> process"
      "kfree (xs ! i) h = Inr h'" for i h'
  proof -
    obtain n where n: "nodes s (xs ! i) = Some n" "qn_next n = xs ! (Suc i mod length xs)"
      using ring_node [OF assms(1) i(2)] by blast
    obtain m where m: "nodes s (xs ! (i - 1)) = Some m"
      using ring_node [OF assms(1), of "i - 1"] i(1,2) by (metis less_imp_diff_less)
    have "remove_loop kfree process 0 (xs ! 0) s h = Some (scheduler_unlink kfree (xs ! (i - 1)) (xs ! i) n s h)"
      using remove_loop_finds [OF assms(1) _ i(2), of 0 process n kfree h] i n(1) by (simp add: procs_def)
    then have "scheduler_remove_process kfree process s h =
        Some (Inr (s\<lparr>nodes := (nodes s)(xs ! (i - 1) \<mapsto> m\<lparr>qn_next := qn_next n\<rparr>, xs ! i := None),
            rq_tail := (if xs ! i = rq_tail s then xs ! (i - 1) else rq_tail s), rq_count := rq_count s - 1,
            current_process_node := (if xs ! i = current_process_node s then qn_next n else current_process_node s)\<rparr>, h'))"
      (is "_ = Some (Inr (?s', h'))")
      unfolding loop using unlink_inner [where kfree = kfree and h = h and h' = h', OF assms(1) i(1,2) n(1) m i(5)] by simp
    moreover have "ring ?s' (without i xs)" "procs ?s' (without i xs) = without i (procs s xs)"
      using ring_remove_inner [OF assms(1) i(1,2) n(1) m, of ?s'] by simp_all
    ultimately show ?thesis using n(2) by auto
  qed
  ultimately show ?thesis by blast
qed

lemma scheduler_remove_keeps_ring_witness:
  "\<exists>s'. scheduler_remove_process (\<lambda>p h. Inr h) 0x200 two_processes () = Some (Inr (s', ()))
     \<and> ring s' [0x10] \<and> procs s' [0x10] = [0x100]"
proof -
  have p: "procs two_processes [0x10, 0x20] = [0x100, 0x200]"
    by (simp add: procs_def proc_def two_processes_def)
  have "without 1 [0x10, 0x20 :: u32] = [0x10]" "without 1 [0x100, 0x200 :: u32] = [0x100]"
    by (simp_all add: without_def)
  with scheduler_remove_keeps_ring [OF two_processes_ring, of "0x200" "\<lambda>p h. Inr h" "()"] p
  show ?thesis by (auto dest!: spec [of _ 1])
qed

text \<open>C40. Removing the process at the head of a queue of two or more breaks the ring: the tail still links
  to the freed node, so when the tail's process is the current one the next round of the scheduler
  follows a dangling pointer.\<close>

theorem scheduler_remove_head_dangles:
  assumes "ring s xs" and "2 \<le> length xs" and "procs s xs ! 0 = process"
    and "kfree (xs ! 0) h = Inr h'" and "current_process_node s = xs ! (length xs - 1)"
  shows "\<exists>s'. scheduler_remove_process kfree process s h = Some (Inr (s', h'))
           \<and> scheduler_get_next_process s' = Inl (Use_after_free (xs ! 0))"
proof -
  note f = ring_facts [OF assms(1)]
  let ?l = "length xs - 1"
  have l: "?l < length xs" "?l \<noteq> 0" "Suc ?l mod length xs = 0"
    using assms(2) by (simp, simp, metis Suc_diff_1 f(2) mod_self)
  have ne: "xs ! 0 \<noteq> xs ! ?l" using f(2,3) l by (simp add: nth_eq_iff_index_eq)
  obtain n where n: "nodes s (xs ! 0) = Some n" "qn_next n = xs ! 1" "proc s (xs ! 0) \<noteq> 0" "xs ! 0 \<noteq> 0"
    using ring_node [OF assms(1) f(2)] assms(2) by (metis Suc_le_lessD mod_less numeral_2_eq_2 One_nat_def)
  obtain t where t: "nodes s (xs ! ?l) = Some t" "qn_next t = xs ! 0" "xs ! ?l \<noteq> 0"
    using ring_node [OF assms(1) l(1)] l(3) by metis
  have head: "xs ! 1 \<noteq> 0" using f(8) assms(2) by (metis Suc_1 Suc_le_lessD nth_mem)
  have process: "process \<noteq> 0" "proc s (xs ! 0) = process" using n(3) assms(3) f(2) by (auto simp: procs_def)
  let ?s = "s\<lparr>nodes := (nodes s)(xs ! 0 := None), rq_head := xs ! 1, rq_count := rq_count s - 1\<rparr>"
  have "scheduler_unlink kfree 0 (xs ! 0) n s h = Inr (?s, h')"
    using n ne f(5) assms(4,5)
    by (simp add: scheduler_unlink_def scheduler_destroy_queue_node_def Let_def)
  moreover have "rq_head s \<noteq> rq_tail s" using ne f(4,5) by simp
  ultimately have "scheduler_remove_process kfree process s h = Some (Inr (?s, h'))"
    using f(4,6) process n(1) by (simp add: scheduler_remove_process_def remove_loop.simps proc_def)
  moreover have "scheduler_get_next_process ?s = Inl (Use_after_free (xs ! 0))"
    using t ne n(4) assms(5) head by (simp add: scheduler_get_next_process_def node_at_def)
  ultimately show ?thesis by blast
qed

lemma scheduler_remove_head_dangles_witness:
  "\<exists>s'. scheduler_remove_process (\<lambda>p h. Inr h) 0x100 (two_processes\<lparr>current_process_node := 0x20\<rparr>) () = Some (Inr (s', ()))
     \<and> scheduler_get_next_process s' = Inl (Use_after_free 0x10)"
proof -
  have "ring (two_processes\<lparr>current_process_node := 0x20\<rparr>) [0x10, 0x20]" using two_processes_ring by simp
  moreover have "procs (two_processes\<lparr>current_process_node := 0x20\<rparr>) [0x10, 0x20] ! 0 = 0x100"
    by (simp add: procs_def proc_def two_processes_def)
  ultimately show ?thesis
    using scheduler_remove_head_dangles [where kfree = "\<lambda>p h. Inr h" and h = "()" and h' = "()"
        and xs = "[0x10, 0x20]" and s = "two_processes\<lparr>current_process_node := 0x20\<rparr>"] by simp
qed

end
