(* ===== verification/Pmm.thy ===== *)
theory Pmm
  imports Kernel_Prelude
begin

text \<open>
  The physical memory manager, memory/pmm.c: a bitmap with one bit per 4 KB frame, next-fit
  search, and a one-entry cache of the frame freed last.
\<close>

section \<open>Data\<close>

definition PMM_BLOCK_SIZE :: u32 where "PMM_BLOCK_SIZE = 4096"
definition PMM_BITMAP_SIZE :: nat where "PMM_BITMAP_SIZE = 131072"
definition MEMORY_SIZE :: u64 where "MEMORY_SIZE = 0x100000000"
definition PMM_NO_FRAME_AVAILABLE :: u32 where "PMM_NO_FRAME_AVAILABLE = 0"
definition NUM_CACHES :: u32 where "NUM_CACHES = 8"
definition EXTRA_BLOCKS :: u32 where "EXTRA_BLOCKS = 100"
definition KERNEL_HEAP_SIZE :: u32 where
  "KERNEL_HEAP_SIZE = PMM_BLOCK_SIZE * (NUM_CACHES + EXTRA_BLOCKS)"
definition VGA_ADDRESS :: u32 where "VGA_ADDRESS = 0xB8000"

definition ALIGNED_TO_PHYSICAL_PAGE :: "u32 \<Rightarrow> u32" where
  "ALIGNED_TO_PHYSICAL_PAGE addr = (addr + PMM_BLOCK_SIZE - 1) AND NOT (PMM_BLOCK_SIZE - 1)"

text \<open>The static variables; \<open>index = -1\<close> and \<open>offset = -1\<close> is the empty cache.\<close>

record free_frame =
  lf_index :: u32
  lf_offset :: u8

record pmm_state =
  pmm_bitmap :: bytes
  last_free_frame :: free_frame
  pmm_last_alloc_index :: nat

definition pmm_static :: pmm_state where
  "pmm_static = \<lparr>pmm_bitmap = (\<lambda>_. 0), last_free_frame = \<lparr>lf_index = -1, lf_offset = -1\<rparr>,
                 pmm_last_alloc_index = 1\<rparr>"

section \<open>Helpers\<close>

definition BIT_MASK :: "nat \<Rightarrow> u8" where
  "BIT_MASK off = one_shl off"

definition calc_frame_addr :: "u32 \<Rightarrow> u32 \<Rightarrow> u32" where
  "calc_frame_addr i off = i * 8 * PMM_BLOCK_SIZE + off * PMM_BLOCK_SIZE"

definition get_bitmap_index :: "u32 \<Rightarrow> u32" where
  "get_bitmap_index frame_addr = frame_addr div PMM_BLOCK_SIZE div 8"

definition get_bitmap_offset :: "u32 \<Rightarrow> u32" where
  "get_bitmap_offset frame_addr = frame_addr div PMM_BLOCK_SIZE mod 8"

definition is_valid_frame_addr :: "u32 \<Rightarrow> bool" where
  "is_valid_frame_addr frame_addr \<longleftrightarrow>
     (ucast frame_addr :: u64) < MEMORY_SIZE \<and> frame_addr mod PMM_BLOCK_SIZE = 0"

definition pmm_mark_used :: "u32 \<Rightarrow> pmm_state \<Rightarrow> pmm_state" where
  "pmm_mark_used frame_addr s =
     (let i = unat (get_bitmap_index frame_addr) in
      s\<lparr>pmm_bitmap := (pmm_bitmap s)
          (i := pmm_bitmap s i OR BIT_MASK (unat (get_bitmap_offset frame_addr)))\<rparr>)"

definition pmm_mark_free :: "u32 \<Rightarrow> pmm_state \<Rightarrow> pmm_state" where
  "pmm_mark_free frame_addr s =
     (let i = unat (get_bitmap_index frame_addr) in
      s\<lparr>pmm_bitmap := (pmm_bitmap s)
          (i := pmm_bitmap s i AND NOT (BIT_MASK (unat (get_bitmap_offset frame_addr))))\<rparr>)"

definition is_full :: "pmm_state \<Rightarrow> nat \<Rightarrow> bool" where
  "is_full s i \<longleftrightarrow> pmm_bitmap s i = 0xFF"

section \<open>Operations\<close>

text \<open>The inner loop over the bits of one byte and the outer loop over a range of bytes.\<close>

function scan_byte :: "u8 \<Rightarrow> nat \<Rightarrow> nat option" where
  "scan_byte b j =
     (if j < 8 then if b AND BIT_MASK j = 0 then Some j else scan_byte b (Suc j) else None)"
  by pat_completeness auto
termination by (relation "measure (\<lambda>(b, j). 8 - j)") auto

function scan_bytes :: "pmm_state \<Rightarrow> nat \<Rightarrow> nat \<Rightarrow> (nat \<times> nat) option" where
  "scan_bytes s i n =
     (if i < n then
        if \<not> is_full s i then
          (case scan_byte (pmm_bitmap s i) 0 of
             Some j \<Rightarrow> Some (i, j)
           | None \<Rightarrow> scan_bytes s (Suc i) n)
        else scan_bytes s (Suc i) n
      else None)"
  by pat_completeness auto
termination by (relation "measure (\<lambda>(s, i, n). n - i)") auto

definition take_frame :: "pmm_state \<Rightarrow> nat \<Rightarrow> nat \<Rightarrow> u32 \<times> pmm_state" where
  "take_frame s i j =
     (let frame_addr = calc_frame_addr (of_nat i) (of_nat j)
      in (frame_addr, (pmm_mark_used frame_addr s)\<lparr>pmm_last_alloc_index := i\<rparr>))"

definition pmm_alloc_frame :: "pmm_state \<Rightarrow> u32 \<times> pmm_state" where
  "pmm_alloc_frame s =
     (if lf_index (last_free_frame s) \<noteq> -1 \<and> lf_offset (last_free_frame s) \<noteq> -1 then
        let frame_addr = calc_frame_addr (lf_index (last_free_frame s))
                                         (scast (lf_offset (last_free_frame s)))
        in (frame_addr, (pmm_mark_used frame_addr s)
                          \<lparr>last_free_frame := \<lparr>lf_index = -1, lf_offset = -1\<rparr>\<rparr>)
      else
        case scan_bytes s (pmm_last_alloc_index s) PMM_BITMAP_SIZE of
          Some (i, j) \<Rightarrow> take_frame s i j
        | None \<Rightarrow>
            (case scan_bytes s 1 (pmm_last_alloc_index s) of
               Some (i, j) \<Rightarrow> take_frame s i j
             | None \<Rightarrow> (PMM_NO_FRAME_AVAILABLE, s)))"

definition pmm_free_frame :: "u32 \<Rightarrow> pmm_state \<Rightarrow> pmm_state run" where
  "pmm_free_frame frame_addr s =
     assert_run (is_valid_frame_addr frame_addr) ''is_valid_frame_addr(frame_addr)''
       (Inr ((pmm_mark_free frame_addr s)
               \<lparr>last_free_frame := \<lparr>lf_index = get_bitmap_index frame_addr,
                                    lf_offset = ucast (get_bitmap_offset frame_addr)\<rparr>\<rparr>))"

definition pmm_is_frame_free :: "u32 \<Rightarrow> pmm_state \<Rightarrow> bool run" where
  "pmm_is_frame_free frame_addr s =
     assert_run (is_valid_frame_addr frame_addr) ''is_valid_frame_addr(frame_addr)''
       (Inr (pmm_bitmap s (unat (get_bitmap_index frame_addr))
               AND BIT_MASK (unat (get_bitmap_offset frame_addr)) = 0))"

text \<open>
  The linker script and start.asm give the addresses \<open>pmm_init\<close> reserves: they are parameters.
  The result pairs the state with the value stored in \<open>KERNEL_BASE_HEAP_ADDR\<close>.
\<close>

record layout =
  kernel_start :: u32
  kernel_end :: u32
  kernel_stack_top :: u32
  kernel_stack_pages_amount :: u32

definition kernel_frames :: "layout \<Rightarrow> nat" where
  "kernel_frames l =
     unat ((kernel_end l - kernel_start l + PMM_BLOCK_SIZE - 1) div PMM_BLOCK_SIZE)"

definition mark_all :: "u32 list \<Rightarrow> pmm_state \<Rightarrow> pmm_state" where
  "mark_all as s = fold pmm_mark_used as s"

definition pmm_init :: "layout \<Rightarrow> pmm_state \<Rightarrow> u32 \<times> pmm_state" where
  "pmm_init l s =
     (let s0 = s\<lparr>pmm_bitmap := fold (\<lambda>i bm. bm(i := 0)) [0..<PMM_BITMAP_SIZE] (pmm_bitmap s)\<rparr>;
          s1 = mark_all (map (\<lambda>i. kernel_start l + of_nat i * PMM_BLOCK_SIZE)
                             [0..<kernel_frames l]) s0;
          s2 = mark_all (map (\<lambda>i. kernel_stack_top l - of_nat i * PMM_BLOCK_SIZE)
                             [0..<unat (kernel_stack_pages_amount l)]) s1;
          heap = ALIGNED_TO_PHYSICAL_PAGE (kernel_stack_top l);
          s3 = mark_all (map (\<lambda>i. heap + of_nat i * PMM_BLOCK_SIZE)
                             [0..<unat (KERNEL_HEAP_SIZE div PMM_BLOCK_SIZE)]) s2
      in (heap, pmm_mark_used VGA_ADDRESS s3))"

section \<open>Abstraction and invariant\<close>

definition frame_no :: "u32 \<Rightarrow> nat" where
  "frame_no a = unat a div 4096"

definition used_frames :: "pmm_state \<Rightarrow> nat set" where
  "used_frames s = bitmap_set (pmm_bitmap s) PMM_BITMAP_SIZE"

definition no_hint :: "pmm_state \<Rightarrow> bool" where
  "no_hint s \<longleftrightarrow> lf_index (last_free_frame s) = -1 \<or> lf_offset (last_free_frame s) = -1"

definition hint_frame :: "pmm_state \<Rightarrow> nat" where
  "hint_frame s = 8 * unat (lf_index (last_free_frame s)) + unat (lf_offset (last_free_frame s))"

text \<open>
  The next-fit position stays inside the bitmap, and a cached frame is a frame of the bitmap whose
  bit is clear.
\<close>

definition pmm_inv :: "pmm_state \<Rightarrow> bool" where
  "pmm_inv s \<longleftrightarrow>
     1 \<le> pmm_last_alloc_index s \<and> pmm_last_alloc_index s \<le> PMM_BITMAP_SIZE \<and>
     (no_hint s \<or>
      unat (lf_index (last_free_frame s)) < PMM_BITMAP_SIZE \<and> unat (lf_offset (last_free_frame s)) < 8 \<and>
      \<not> bitmap_bit (pmm_bitmap s) (hint_frame s))"

text \<open>
  Without a cached frame the result is the first free frame at or after the next-fit byte, or else
  the first free frame from byte 1 up; the two failed searches together cover every frame but the
  first eight.
\<close>

definition first_free :: "pmm_state \<Rightarrow> nat \<Rightarrow> nat \<Rightarrow> bool" where
  "first_free s lo n \<longleftrightarrow> lo \<le> n \<and> n < 8 * PMM_BITMAP_SIZE \<and> n \<notin> used_frames s \<and>
     (\<forall>m. lo \<le> m \<and> m < n \<longrightarrow> m \<in> used_frames s)"

text \<open>The frames the kernel keeps for its image, its stack, its heap and the VGA buffer.\<close>

definition reserved_frames :: "layout \<Rightarrow> nat set" where
  "reserved_frames l =
     (\<lambda>i. frame_no (kernel_start l + of_nat i * PMM_BLOCK_SIZE)) ` {..<kernel_frames l} \<union>
     (\<lambda>i. frame_no (kernel_stack_top l - of_nat i * PMM_BLOCK_SIZE))
       ` {..<unat (kernel_stack_pages_amount l)} \<union>
     (\<lambda>i. frame_no (ALIGNED_TO_PHYSICAL_PAGE (kernel_stack_top l) + of_nat i * PMM_BLOCK_SIZE))
       ` {..<unat (KERNEL_HEAP_SIZE div PMM_BLOCK_SIZE)} \<union>
     {frame_no VGA_ADDRESS}"

text \<open>
  A history of the manager: clients allocate frames, are told that none is left, and give back
  frames they hold. The second index is the set of frames held.
\<close>

inductive pmm_run :: "layout \<Rightarrow> pmm_state \<Rightarrow> nat set \<Rightarrow> bool" for l where
  init: "pmm_run l (snd (pmm_init l pmm_static)) {}"
| alloc: "pmm_run l s held \<Longrightarrow> pmm_alloc_frame s = (a, s') \<Longrightarrow> a \<noteq> 0 \<Longrightarrow>
    pmm_run l s' (insert (frame_no a) held)"
| exhausted: "pmm_run l s held \<Longrightarrow> pmm_alloc_frame s = (0, s') \<Longrightarrow> pmm_run l s' held"
| free: "pmm_run l s held \<Longrightarrow> frame_no a \<in> held \<Longrightarrow> pmm_free_frame a s = Inr s' \<Longrightarrow>
    pmm_run l s' (held - {frame_no a})"

text \<open>The layout linker.ld and start.asm fix; only the end of the image depends on the build.\<close>

definition kernel_layout :: "u32 \<Rightarrow> layout" where
  "kernel_layout ke = \<lparr>kernel_start = 0x100000, kernel_end = ke,
                       kernel_stack_top = 0x4000000 - 1, kernel_stack_pages_amount = 100\<rparr>"

section \<open>Addresses and frame numbers\<close>

lemma frame_no_less: "frame_no a < 8 * PMM_BITMAP_SIZE"
  using unat_u32_less [of a] by (simp add: frame_no_def PMM_BITMAP_SIZE_def)

lemma unat_get_bitmap_index: "unat (get_bitmap_index a) = frame_no a div 8"
  by (simp add: get_bitmap_index_def PMM_BLOCK_SIZE_def frame_no_def unat_div)

lemma unat_get_bitmap_offset: "unat (get_bitmap_offset a) = frame_no a mod 8"
  by (simp add: get_bitmap_offset_def PMM_BLOCK_SIZE_def frame_no_def unat_div unat_mod)

lemmas frame_cell = unat_get_bitmap_index unat_get_bitmap_offset

lemma unat_calc_frame_addr:
  assumes "unat i < PMM_BITMAP_SIZE" and "unat off < 8"
  shows "unat (calc_frame_addr i off) = (8 * unat i + unat off) * 4096"
proof -
  have i: "unat (i * 8) = unat i * 8"
    using assms(1) by (subst unat_mult_exact) (simp_all add: PMM_BITMAP_SIZE_def)
  have i': "unat (i * 8 * 4096) = unat i * 8 * 4096"
    using assms(1) by (subst unat_mult_exact) (simp_all add: PMM_BITMAP_SIZE_def i)
  have off: "unat (off * 4096) = unat off * 4096"
    using assms(2) by (subst unat_mult_exact) simp_all
  have "unat (i * 8 * 4096 + off * 4096) = unat i * 8 * 4096 + unat off * 4096"
    using assms by (subst unat_add_exact) (simp_all only: i' off, simp_all add: PMM_BITMAP_SIZE_def)
  then show ?thesis by (simp add: calc_frame_addr_def PMM_BLOCK_SIZE_def)
qed

lemma frame_no_calc_frame_addr:
  assumes "unat i < PMM_BITMAP_SIZE" and "unat off < 8"
  shows "frame_no (calc_frame_addr i off) = 8 * unat i + unat off"
  using unat_calc_frame_addr [OF assms] by (simp add: frame_no_def)

lemma is_valid_frame_addr_iff: "is_valid_frame_addr a \<longleftrightarrow> 4096 dvd unat a"
  using unat_u32_less [of a]
  by (auto simp: is_valid_frame_addr_def MEMORY_SIZE_def PMM_BLOCK_SIZE_def word_less_nat_alt
        unat_ucast_up word_unat_eq_iff unat_mod)

lemma valid_frame_addr_unat: "is_valid_frame_addr a \<Longrightarrow> unat a = 4096 * frame_no a"
  by (auto simp: is_valid_frame_addr_iff frame_no_def)

section \<open>The search loops\<close>

declare scan_byte.simps [simp del] scan_bytes.simps [simp del]

lemma scan_byte_Some:
  "scan_byte b j = Some k \<Longrightarrow> j \<le> k \<and> k < 8 \<and> \<not> bit b k \<and> (\<forall>m. j \<le> m \<and> m < k \<longrightarrow> bit b m)"
proof (induction b j rule: scan_byte.induct)
  case (1 b j)
  then show ?case
    by (cases "b AND BIT_MASK j = 0"; subst (asm) (2) scan_byte.simps)
       (auto simp: BIT_MASK_def mask_simps le_eq_less_or_eq [of j] split: if_splits)
qed

lemma scan_byte_None: "scan_byte b j = None \<Longrightarrow> j \<le> m \<Longrightarrow> m < 8 \<Longrightarrow> bit b m"
proof (induction b j rule: scan_byte.induct)
  case (1 b j)
  then show ?case
    by (subst (asm) (2) scan_byte.simps)
       (auto simp: BIT_MASK_def mask_simps le_eq_less_or_eq [of j] split: if_splits)
qed

lemma not_full_has_free: "\<not> is_full s i \<Longrightarrow> scan_byte (pmm_bitmap s i) 0 \<noteq> None"
  using scan_byte_None [of "pmm_bitmap s i" 0] by (auto simp: is_full_def full_byte_iff)

lemma full_byte_cells: "is_full s i \<Longrightarrow> n div 8 = i \<Longrightarrow> bitmap_bit (pmm_bitmap s) n"
  by (auto simp: is_full_def full_byte_iff bitmap_bit_def)

text \<open>A found cell is the first free one of the range; a failed search means none is free.\<close>

lemma scan_bytes_Some:
  "scan_bytes s i n = Some (k, j) \<Longrightarrow>
     i \<le> k \<and> k < n \<and> j < 8 \<and> \<not> bitmap_bit (pmm_bitmap s) (8 * k + j) \<and>
     (\<forall>m. 8 * i \<le> m \<and> m < 8 * k + j \<longrightarrow> bitmap_bit (pmm_bitmap s) m)"
proof (induction s i n rule: scan_bytes.induct)
  case (1 s i n)
  show ?case
  proof (cases "i < n \<and> \<not> is_full s i")
    case True
    then obtain j' where j': "scan_byte (pmm_bitmap s i) 0 = Some j'"
      using not_full_has_free by blast
    with True "1.prems" have "k = i" "j = j'"
      by (auto simp: scan_bytes.simps [of s i n])
    with scan_byte_Some [OF j'] True show ?thesis
      by (auto simp: bitmap_bit_pair bitmap_bit_in_byte)
  next
    case False
    with "1.prems" have i: "i < n" "is_full s i" and rest: "scan_bytes s (Suc i) n = Some (k, j)"
      by (auto simp: scan_bytes.simps [of s i n] split: if_splits)
    have "bitmap_bit (pmm_bitmap s) m" if "8 * i \<le> m" "m < 8 * Suc i" for m
      using that by (intro full_byte_cells [OF i(2)]) (simp add: div_nat_eqI)
    with "1.IH"(2) [OF i(1) _ rest] i show ?thesis
      by (metis Suc_leD not_le)
  qed
qed

lemma scan_bytes_None:
  "scan_bytes s i n = None \<Longrightarrow> 8 * i \<le> m \<Longrightarrow> m < 8 * n \<Longrightarrow> bitmap_bit (pmm_bitmap s) m"
proof (induction s i n rule: scan_bytes.induct)
  case (1 s i n)
  then have "i < n" by linarith
  with "1.prems"(1) have i: "is_full s i" and rest: "scan_bytes s (Suc i) n = None"
    by (auto simp: scan_bytes.simps [of s i n] split: if_splits option.splits dest: not_full_has_free)
  show ?case
  proof (cases "m < 8 * Suc i")
    case True
    with "1.prems"(2) show ?thesis by (intro full_byte_cells [OF i]) (simp add: div_nat_eqI)
  next
    case False
    with "1.IH"(2) [OF \<open>i < n\<close> _ rest] i "1.prems"(3) show ?thesis by simp
  qed
qed

section \<open>Marking\<close>

lemma pmm_mark_used_used: "used_frames (pmm_mark_used a s) = insert (frame_no a) (used_frames s)"
proof -
  have "frame_no a div 8 < PMM_BITMAP_SIZE" using frame_no_less [of a] by linarith
  then show ?thesis
    by (simp add: pmm_mark_used_def used_frames_def Let_def BIT_MASK_def frame_cell bitmap_set_mark)
qed

lemma pmm_mark_free_used: "used_frames (pmm_mark_free a s) = used_frames s - {frame_no a}"
  by (simp add: pmm_mark_free_def used_frames_def Let_def BIT_MASK_def frame_cell bitmap_set_clear)

lemma pmm_mark_used_frame [simp]:
  "last_free_frame (pmm_mark_used a s) = last_free_frame s"
  "pmm_last_alloc_index (pmm_mark_used a s) = pmm_last_alloc_index s"
  by (simp_all add: pmm_mark_used_def Let_def)

lemma pmm_mark_free_frame [simp]:
  "last_free_frame (pmm_mark_free a s) = last_free_frame s"
  "pmm_last_alloc_index (pmm_mark_free a s) = pmm_last_alloc_index s"
  by (simp_all add: pmm_mark_free_def Let_def)

lemma used_frames_frame [simp]:
  "used_frames (s\<lparr>last_free_frame := f\<rparr>) = used_frames s"
  "used_frames (s\<lparr>pmm_last_alloc_index := i\<rparr>) = used_frames s"
  by (simp_all add: used_frames_def)

lemma in_used_frames: "n \<in> used_frames s \<longleftrightarrow> n < 8 * PMM_BITMAP_SIZE \<and> bitmap_bit (pmm_bitmap s) n"
  by (simp add: used_frames_def bitmap_set_def)

section \<open>Allocation and release\<close>

text \<open>Where the search starts, and the two ranges it covers, as a specification.\<close>

lemma take_frame_spec:
  assumes "take_frame s i j = (a, s')" and "i < PMM_BITMAP_SIZE" and "j < 8"
  shows "unat a = 4096 * (8 * i + j)" "frame_no a = 8 * i + j"
    "used_frames s' = insert (8 * i + j) (used_frames s)"
    "last_free_frame s' = last_free_frame s" "pmm_last_alloc_index s' = i"
proof -
  have "unat (of_nat i :: u32) = i" "unat (of_nat j :: u32) = j"
    using assms(2,3) by (simp_all add: unat_of_nat PMM_BITMAP_SIZE_def)
  with assms show "unat a = 4096 * (8 * i + j)" "frame_no a = 8 * i + j"
    by (auto simp: take_frame_def Let_def unat_calc_frame_addr frame_no_calc_frame_addr)
  with assms(1) show "used_frames s' = insert (8 * i + j) (used_frames s)"
    "last_free_frame s' = last_free_frame s" "pmm_last_alloc_index s' = i"
    by (auto simp: take_frame_def Let_def pmm_mark_used_used)
qed

lemma pmm_alloc_hint:
  assumes "pmm_inv s" and "\<not> no_hint s" and "pmm_alloc_frame s = (a, s')"
  shows "unat a = 4096 * hint_frame s" "frame_no a = hint_frame s" "hint_frame s \<notin> used_frames s"
    "used_frames s' = insert (hint_frame s) (used_frames s)" "no_hint s'"
    "pmm_last_alloc_index s' = pmm_last_alloc_index s"
proof -
  let ?i = "lf_index (last_free_frame s)" and ?o = "lf_offset (last_free_frame s)"
  have i: "unat ?i < PMM_BITMAP_SIZE" and o: "unat ?o < 8"
    and free: "\<not> bitmap_bit (pmm_bitmap s) (hint_frame s)"
    using assms(1,2) by (auto simp: pmm_inv_def)
  have "scast ?o = (ucast ?o :: u32)"
    using o by (intro scast_nonneg) simp
  then have so: "unat (scast ?o :: u32) = unat ?o" by (simp add: unat_ucast_up)
  have alloc: "a = calc_frame_addr ?i (scast ?o)"
    "s' = (pmm_mark_used a s)\<lparr>last_free_frame := \<lparr>lf_index = -1, lf_offset = -1\<rparr>\<rparr>"
    using assms(2,3) by (auto simp: pmm_alloc_frame_def no_hint_def Let_def)
  show "unat a = 4096 * hint_frame s" and fn: "frame_no a = hint_frame s"
    using i o by (simp_all add: alloc(1) unat_calc_frame_addr frame_no_calc_frame_addr so hint_frame_def)
  show "hint_frame s \<notin> used_frames s" using free by (simp add: in_used_frames)
  show "used_frames s' = insert (hint_frame s) (used_frames s)" "no_hint s'"
    "pmm_last_alloc_index s' = pmm_last_alloc_index s"
    by (simp_all add: alloc(2) pmm_mark_used_used fn no_hint_def)
qed

lemma scan_bytes_first_free:
  assumes "scan_bytes s i n = Some (k, j)" and "n \<le> PMM_BITMAP_SIZE"
  shows "first_free s (8 * i) (8 * k + j)" "k < PMM_BITMAP_SIZE" "j < 8" "i \<le> k" "k < n"
  using scan_bytes_Some [OF assms(1)] assms(2) by (auto simp: first_free_def in_used_frames)

lemma pmm_alloc_scan:
  assumes inv: "pmm_inv s" and hint: "no_hint s" and alloc: "pmm_alloc_frame s = (a, s')"
  shows "(\<exists>n. unat a = 4096 * n \<and> frame_no a = n \<and> 8 \<le> n \<and>
             used_frames s' = insert n (used_frames s) \<and> no_hint s' \<and> pmm_inv s' \<and>
             (first_free s (8 * pmm_last_alloc_index s) n \<or>
              {8 * pmm_last_alloc_index s ..< 8 * PMM_BITMAP_SIZE} \<subseteq> used_frames s \<and> first_free s 8 n))
       \<or> (a = 0 \<and> s' = s \<and> {8 ..< 8 * PMM_BITMAP_SIZE} \<subseteq> used_frames s)"
proof -
  let ?la = "pmm_last_alloc_index s"
  have la: "1 \<le> ?la" "?la \<le> PMM_BITMAP_SIZE" using inv by (auto simp: pmm_inv_def)
  have found: "unat a = 4096 * (8 * i + j) \<and> frame_no a = 8 * i + j \<and> 8 \<le> 8 * i + j \<and>
      used_frames s' = insert (8 * i + j) (used_frames s) \<and> no_hint s' \<and> pmm_inv s'"
    if "take_frame s i j = (a, s')" "1 \<le> i" "i < PMM_BITMAP_SIZE" "j < 8" for i j
    using take_frame_spec [OF that(1,3,4)] that hint by (auto simp: pmm_inv_def no_hint_def)
  show ?thesis
  proof (cases "scan_bytes s ?la PMM_BITMAP_SIZE")
    case (Some p)
    obtain i j where p: "p = (i, j)" by (cases p)
    note ff = scan_bytes_first_free [OF Some [unfolded p] order_refl]
    have "take_frame s i j = (a, s')"
      using hint alloc Some p by (auto simp: pmm_alloc_frame_def no_hint_def split: if_splits)
    from found [OF this] ff la show ?thesis by (intro disjI1 exI [of _ "8 * i + j"]) auto
  next
    case None
    then have hi: "{8 * ?la ..< 8 * PMM_BITMAP_SIZE} \<subseteq> used_frames s"
      by (auto simp: in_used_frames dest: scan_bytes_None)
    show ?thesis
    proof (cases "scan_bytes s 1 ?la")
      case None2: None
      then have lo: "{8 ..< 8 * ?la} \<subseteq> used_frames s"
        using la by (auto simp: in_used_frames dest: scan_bytes_None)
      have "a = 0" "s' = s" using hint alloc None None2
        by (auto simp: pmm_alloc_frame_def no_hint_def PMM_NO_FRAME_AVAILABLE_def split: if_splits)
      moreover have "{8 ..< 8 * PMM_BITMAP_SIZE} \<subseteq> {8 ..< 8 * ?la} \<union> {8 * ?la ..< 8 * PMM_BITMAP_SIZE}"
        by auto
      ultimately show ?thesis using hi lo by blast
    next
      case (Some p)
      obtain i j where p: "p = (i, j)" by (cases p)
      note ff = scan_bytes_first_free [OF Some [unfolded p] la(2)]
      have "take_frame s i j = (a, s')" using hint alloc None Some p
        by (auto simp: pmm_alloc_frame_def no_hint_def split: if_splits)
      from found [OF this] ff hi show ?thesis by (intro disjI1 exI [of _ "8 * i + j"]) auto
    qed
  qed
qed

lemma pmm_alloc_inv: "pmm_inv s \<Longrightarrow> pmm_alloc_frame s = (a, s') \<Longrightarrow> pmm_inv s'"
  using pmm_alloc_scan [of s a s'] pmm_alloc_hint [of s a s'] by (cases "no_hint s") (auto simp: pmm_inv_def)

lemma pmm_alloc_used:
  "pmm_inv s \<Longrightarrow> pmm_alloc_frame s = (a, s') \<Longrightarrow> a \<noteq> 0 \<Longrightarrow>
     frame_no a \<notin> used_frames s \<and> used_frames s' = insert (frame_no a) (used_frames s) \<and>
     is_valid_frame_addr a \<and> no_hint s'"
  using pmm_alloc_scan [of s a s'] pmm_alloc_hint [of s a s']
  by (cases "no_hint s") (auto simp: is_valid_frame_addr_iff first_free_def)

lemma pmm_alloc_zero:
  "pmm_inv s \<Longrightarrow> pmm_alloc_frame s = (0, s') \<Longrightarrow>
     {8 ..< 8 * PMM_BITMAP_SIZE} \<subseteq> used_frames s \<and> s' = s \<or> \<not> no_hint s \<and> hint_frame s = 0"
  using pmm_alloc_scan [of s 0 s'] pmm_alloc_hint [of s 0 s'] by (cases "no_hint s") auto

lemma pmm_free_spec:
  assumes "pmm_free_frame a s = Inr s'"
  shows "is_valid_frame_addr a" "used_frames s' = used_frames s - {frame_no a}"
    "\<not> no_hint s'" "hint_frame s' = frame_no a" "pmm_inv s \<Longrightarrow> pmm_inv s'"
proof -
  have s': "s' = (pmm_mark_free a s)\<lparr>last_free_frame :=
      \<lparr>lf_index = get_bitmap_index a, lf_offset = ucast (get_bitmap_offset a)\<rparr>\<rparr>"
    using assms by (simp add: pmm_free_frame_def)
  show "is_valid_frame_addr a" using assms by (simp add: pmm_free_frame_def)
  show used: "used_frames s' = used_frames s - {frame_no a}"
    by (simp add: s' pmm_mark_free_used)
  have idx: "unat (lf_index (last_free_frame s')) = frame_no a div 8"
    and off: "unat (lf_offset (last_free_frame s')) = frame_no a mod 8"
    by (simp_all add: s' frame_cell unat_ucast_down)
  have less: "frame_no a div 8 < PMM_BITMAP_SIZE" using frame_no_less [of a] by linarith
  from idx off less show hint: "\<not> no_hint s'"
    by (auto simp: no_hint_def PMM_BITMAP_SIZE_def)
  show hf: "hint_frame s' = frame_no a" by (simp add: hint_frame_def idx off)
  have "\<not> bitmap_bit (pmm_bitmap s') (frame_no a)"
    using used frame_no_less [of a] in_used_frames [of "frame_no a" s'] by blast
  moreover have "pmm_last_alloc_index s' = pmm_last_alloc_index s" by (simp add: s')
  ultimately show "pmm_inv s'" if "pmm_inv s"
    using that less by (simp add: pmm_inv_def idx off hf)
qed

section \<open>Initialisation\<close>

lemma mark_all_used: "used_frames (mark_all as s) = frame_no ` set as \<union> used_frames s"
  unfolding mark_all_def
  by (induction as arbitrary: s) (auto simp: pmm_mark_used_used)

lemma mark_all_frame [simp]:
  "last_free_frame (mark_all as s) = last_free_frame s"
  "pmm_last_alloc_index (mark_all as s) = pmm_last_alloc_index s"
  unfolding mark_all_def by (induction as arbitrary: s) simp_all

lemma clear_fold: "fold (\<lambda>i bm. bm(i := 0)) is bm n = (if n \<in> set is then 0 else bm n)"
  by (induction "is" arbitrary: bm) auto

lemma cleared_used:
  "used_frames (s\<lparr>pmm_bitmap := fold (\<lambda>i bm. bm(i := 0)) [0..<PMM_BITMAP_SIZE] bm\<rparr>) = {}"
  by (auto simp: in_used_frames bitmap_bit_def clear_fold less_mult_imp_div_less mult.commute)

lemma pmm_init_used: "used_frames (snd (pmm_init l s)) = reserved_frames l"
  by (auto simp: pmm_init_def Let_def pmm_mark_used_used mark_all_used cleared_used reserved_frames_def)

lemma pmm_init_static:
  "pmm_inv (snd (pmm_init l pmm_static))" "no_hint (snd (pmm_init l pmm_static))"
  by (simp_all add: pmm_init_def Let_def pmm_inv_def no_hint_def pmm_static_def PMM_BITMAP_SIZE_def)

section \<open>The allocator interface\<close>

interpretation pmm: cell_allocator "\<lambda>s. Inr (pmm_alloc_frame s)" used_frames frame_no 0 pmm_inv
proof
  show "\<exists>a s'. Inr (pmm_alloc_frame s) = (Inr (a, s') :: (u32 \<times> pmm_state) run)" for s by simp
  show "pmm_inv s'" if "pmm_inv s" "Inr (pmm_alloc_frame s) = (Inr (a, s') :: (u32 \<times> pmm_state) run)" for s a s'
    using that pmm_alloc_inv by simp
  show "frame_no a \<notin> used_frames s \<and> used_frames s' = insert (frame_no a) (used_frames s)"
    if "pmm_inv s" "Inr (pmm_alloc_frame s) = (Inr (a, s') :: (u32 \<times> pmm_state) run)" "a \<noteq> 0" for s a s'
    using that pmm_alloc_used by simp
  show "used_frames s \<subseteq> used_frames s'"
    if "pmm_inv s" "Inr (pmm_alloc_frame s) = (Inr (0, s') :: (u32 \<times> pmm_state) run)" for s s'
    using that pmm_alloc_zero [of s s'] pmm_alloc_hint [of s 0 s'] by auto
qed

section \<open>Reserved intervals\<close>

lemma frame_no_step:
  assumes "unat b + i * 4096 < 2 ^ 32"
  shows "frame_no (b + of_nat i * PMM_BLOCK_SIZE) = frame_no b + i"
proof -
  have "unat (of_nat i :: u32) = i" using assms by (intro unat_of_nat_exact) simp
  then have m: "unat (of_nat i * 4096 :: u32) = i * 4096"
    using assms by (subst unat_mult_exact) simp_all
  have "unat (b + of_nat i * 4096) = unat b + i * 4096"
    using assms by (subst unat_add_exact) (simp_all only: m, simp)
  then show ?thesis by (simp add: frame_no_def PMM_BLOCK_SIZE_def)
qed

lemma frame_no_step_down:
  assumes "i * 4096 \<le> unat b"
  shows "frame_no (b - of_nat i * PMM_BLOCK_SIZE) = frame_no b - i"
proof -
  have i: "unat (of_nat i :: u32) = i"
    using assms unat_u32_less [of b] by (intro unat_of_nat_exact) simp
  then have m: "unat (of_nat i * 4096 :: u32) = i * 4096"
    using assms unat_u32_less [of b] by (subst unat_mult_exact) simp_all
  have "unat (b - of_nat i * 4096) = unat b - i * 4096"
    using assms by (subst unat_sub) (simp_all only: m word_le_nat_alt)
  then show ?thesis by (simp add: frame_no_def PMM_BLOCK_SIZE_def)
qed

lemma image_shift_interval: "(\<lambda>i. c + i) ` {..<n} = {c ..< c + (n :: nat)}"
  by (simp add: lessThan_atLeast0 add.commute)

lemma image_shift_down:
  assumes "n \<le> Suc c"
  shows "(\<lambda>i. c - i) ` {..<n} = {Suc c - n ..< Suc (c :: nat)}"
proof (intro equalityI subsetI)
  fix x assume "x \<in> {Suc c - n ..< Suc c}"
  then have "x = c - (c - x)" "c - x \<in> {..<n}" using assms by auto
  then show "x \<in> (\<lambda>i. c - i) ` {..<n}" by (rule image_eqI)
qed (use assms in auto)

lemma kernel_frames_layout:
  assumes "0x100000 \<le> ke" and "ke \<le> 0x3F00000"
  shows "kernel_frames (kernel_layout ke) = (unat ke - 0x100000 + 4095) div 4096"
proof -
  have le: "unat ke \<le> 0x3F00000" "0x100000 \<le> unat ke"
    using assms by (simp_all add: word_le_nat_alt)
  have "unat (ke - 0x100000) = unat ke - 0x100000"
    using assms(1) by (subst unat_sub) simp_all
  then have "unat (ke - 0x100000 + 4095) = unat ke - 0x100000 + 4095"
    using le by (subst unat_add_exact) simp_all
  then show ?thesis
    by (simp add: kernel_frames_def kernel_layout_def PMM_BLOCK_SIZE_def unat_div diff_add_eq [symmetric])
qed

lemma heap_base_layout: "ALIGNED_TO_PHYSICAL_PAGE (kernel_stack_top (kernel_layout ke)) = 0x4000000"
  by (simp add: ALIGNED_TO_PHYSICAL_PAGE_def kernel_layout_def PMM_BLOCK_SIZE_def)

lemma reserved_frames_layout:
  assumes "0x100000 \<le> ke" and "ke \<le> 0x3F00000"
  shows "reserved_frames (kernel_layout ke) =
    {256 ..< 256 + (unat ke - 0x100000 + 4095) div 4096} \<union> {16284 ..< 16384} \<union> {16384 ..< 16492} \<union> {184}"
proof -
  let ?l = "kernel_layout ke"
  have ke: "unat ke \<le> 0x3F00000" using assms(2) by (simp add: word_le_nat_alt)
  have "frame_no (kernel_start ?l + of_nat i * PMM_BLOCK_SIZE) = 256 + i" if "i < kernel_frames ?l" for i
  proof -
    have "i < 16384" using that ke by (simp add: kernel_frames_layout [OF assms])
    then show ?thesis by (subst frame_no_step) (simp_all add: kernel_layout_def frame_no_def)
  qed
  then have image: "(\<lambda>i. frame_no (kernel_start ?l + of_nat i * PMM_BLOCK_SIZE)) ` {..<kernel_frames ?l} =
      {256 ..< 256 + (unat ke - 0x100000 + 4095) div 4096}"
    by (simp only: image_shift_interval [symmetric] kernel_frames_layout [OF assms, symmetric]
          cong: image_cong_simp) simp
  have "frame_no (kernel_stack_top ?l - of_nat i * PMM_BLOCK_SIZE) = 16383 - i" if "i < 100" for i
    using that by (subst frame_no_step_down) (auto simp: kernel_layout_def frame_no_def)
  then have "(\<lambda>i. frame_no (kernel_stack_top ?l - of_nat i * PMM_BLOCK_SIZE)) ` {..<100} = {16284 ..< 16384}"
    using image_shift_down [of 100 16383] by (simp cong: image_cong_simp)
  then have stack: "(\<lambda>i. frame_no (kernel_stack_top ?l - of_nat i * PMM_BLOCK_SIZE))
      ` {..<unat (kernel_stack_pages_amount ?l)} = {16284 ..< 16384}"
    by (simp add: kernel_layout_def)
  have "frame_no (0x4000000 + of_nat i * PMM_BLOCK_SIZE) = 16384 + i" if "i < 108" for i
    using that by (subst frame_no_step) (auto simp: frame_no_def)
  then have "(\<lambda>i. frame_no (0x4000000 + of_nat i * PMM_BLOCK_SIZE)) ` {..<108} = {16384 ..< 16492}"
    using image_shift_interval [of 16384 108] by (simp cong: image_cong_simp)
  then have heap: "(\<lambda>i. frame_no (ALIGNED_TO_PHYSICAL_PAGE (kernel_stack_top ?l) + of_nat i * PMM_BLOCK_SIZE))
      ` {..<unat (KERNEL_HEAP_SIZE div PMM_BLOCK_SIZE)} = {16384 ..< 16492}"
    by (simp add: heap_base_layout KERNEL_HEAP_SIZE_def PMM_BLOCK_SIZE_def NUM_CACHES_def EXTRA_BLOCKS_def)
  show ?thesis
    unfolding reserved_frames_def image stack heap by (simp add: VGA_ADDRESS_def frame_no_def)
qed

section \<open>Properties\<close>

lemma pmm_static_inv [simp]: "pmm_inv pmm_static" "no_hint pmm_static"
  by (simp_all add: pmm_inv_def no_hint_def pmm_static_def PMM_BITMAP_SIZE_def)

lemmas pmm_eval = pmm_alloc_frame_def take_frame_def pmm_mark_used_def Let_def calc_frame_addr_def
  get_bitmap_index_def get_bitmap_offset_def BIT_MASK_def one_shl_def is_full_def
  scan_bytes.simps scan_byte.simps PMM_BLOCK_SIZE_def PMM_BITMAP_SIZE_def pmm_static_def

lemma pmm_static_alloc:
  "pmm_alloc_frame pmm_static = (0x8000, pmm_static\<lparr>pmm_bitmap := (\<lambda>_. 0)(1 := 1)\<rparr>)"
  by (simp add: pmm_eval)

lemma pmm_static_alloc2:
  "fst (pmm_alloc_frame (pmm_static\<lparr>pmm_bitmap := (\<lambda>_. 0)(1 := 1)\<rparr>)) = 0x9000"
  by (simp add: pmm_eval)

lemma frame_no_eq_0: "is_valid_frame_addr a \<Longrightarrow> frame_no a = 0 \<longleftrightarrow> a = 0"
  using valid_frame_addr_unat [of a] by (auto simp: frame_no_def unat_eq_0)

lemma pmm_run_inv:
  "pmm_run l s held \<Longrightarrow>
     pmm_inv s \<and> (no_hint s \<or> hint_frame s \<noteq> 0) \<and> 0 \<notin> held \<and>
     used_frames s = held \<union> reserved_frames l \<and> held \<inter> reserved_frames l = {}"
proof (induction rule: pmm_run.induct)
  case init
  then show ?case by (simp add: pmm_init_static pmm_init_used)
next
  case (alloc s held a s')
  with pmm_alloc_used [of s a s'] pmm_alloc_inv [of s a s'] frame_no_eq_0 [of a] show ?case
    by auto
next
  case (exhausted s held s')
  with pmm_alloc_zero [of s s'] pmm_alloc_inv [of s 0 s'] show ?case by auto
next
  case (free s held a s')
  with pmm_free_spec [OF free.hyps(3)] show ?case by auto
qed

text \<open>
  C3. Ownership of physical memory. In every history of the manager (any interleaving of
  \<open>pmm_alloc_frame\<close>, failed allocations and \<open>pmm_free_frame\<close> of held frames, from the state
  \<open>pmm_init\<close> leaves) the frames marked used are exactly the frames clients hold and the frames
  reserved for the kernel; the two sets are disjoint; a further allocation hands out a frame of
  neither set; and it fails only when every frame from the eighth on is in use.
\<close>

theorem pmm_frame_ownership:
  assumes "pmm_run l s held" and "pmm_alloc_frame s = (a, s')"
  shows "used_frames s = held \<union> reserved_frames l \<and> held \<inter> reserved_frames l = {} \<and>
    (a \<noteq> 0 \<longrightarrow> frame_no a \<notin> held \<union> reserved_frames l) \<and>
    (a = 0 \<longrightarrow> {8 ..< 8 * PMM_BITMAP_SIZE} \<subseteq> held \<union> reserved_frames l)"
proof -
  note inv = pmm_run_inv [OF assms(1)]
  have "a \<noteq> 0 \<Longrightarrow> frame_no a \<notin> used_frames s" using pmm_alloc_used [OF _ assms(2)] inv by blast
  moreover have "a = 0 \<Longrightarrow> {8 ..< 8 * PMM_BITMAP_SIZE} \<subseteq> used_frames s"
    using pmm_alloc_zero [of s s'] inv assms(2) by blast
  ultimately show ?thesis using inv by simp
qed

theorem pmm_frame_ownership_witness:
  "\<exists>s held a s'. pmm_run (kernel_layout 0x200000) s held \<and> held \<noteq> {} \<and> pmm_alloc_frame s = (a, s') \<and>
     used_frames s = held \<union> reserved_frames (kernel_layout 0x200000)"
proof -
  let ?l = "kernel_layout 0x200000" and ?s = "snd (pmm_init (kernel_layout 0x200000) pmm_static)"
  obtain a s1 where step: "pmm_alloc_frame ?s = (a, s1)" by (cases "pmm_alloc_frame ?s")
  have "8 \<notin> reserved_frames ?l" by (subst reserved_frames_layout) simp_all
  moreover have "8 \<in> {8 ..< 8 * PMM_BITMAP_SIZE}" by (simp add: PMM_BITMAP_SIZE_def)
  ultimately have "a \<noteq> 0"
    using pmm_frame_ownership [OF pmm_run.init step] by blast
  then have run: "pmm_run ?l s1 {frame_no a}" using pmm_run.alloc [OF pmm_run.init step] by simp
  obtain b s2 where "pmm_alloc_frame s1 = (b, s2)" by (cases "pmm_alloc_frame s1")
  note own = pmm_frame_ownership [OF run this]
  show ?thesis
    by (intro exI conjI, rule run, simp, rule \<open>pmm_alloc_frame s1 = (b, s2)\<close>, rule conjunct1 [OF own])
qed

text \<open>
  C4. \<open>pmm_alloc_frame\<close> is next-fit: with no cached frame it hands out the first free frame at or
  after byte \<open>last_alloc_index\<close> of the bitmap and, only when that range is full, the first free
  frame from byte 1 on; exactly that frame changes from free to used, its address is the frame
  number times 4096, and 0 is returned, with the state unchanged, exactly when frames 8 and up are
  all used.
\<close>

theorem pmm_alloc_next_fit:
  assumes "pmm_inv s" and "no_hint s" and "pmm_alloc_frame s = (a, s')"
  shows "if {8 ..< 8 * PMM_BITMAP_SIZE} \<subseteq> used_frames s then a = 0 \<and> s' = s
    else \<exists>n. unat a = 4096 * n \<and> used_frames s' = insert n (used_frames s) \<and>
           (if {8 * pmm_last_alloc_index s ..< 8 * PMM_BITMAP_SIZE} \<subseteq> used_frames s
            then first_free s 8 n else first_free s (8 * pmm_last_alloc_index s) n)"
proof -
  have "\<not> first_free s lo n" if "{lo ..< 8 * PMM_BITMAP_SIZE} \<subseteq> used_frames s" for lo n
    using that by (auto simp: first_free_def)
  note full = this
  from pmm_alloc_scan [OF assms] show ?thesis
  proof (elim disjE exE conjE)
    fix n assume n: "unat a = 4096 * n" "used_frames s' = insert n (used_frames s)"
      and ff: "first_free s (8 * pmm_last_alloc_index s) n"
    have "\<not> {8 * pmm_last_alloc_index s ..< 8 * PMM_BITMAP_SIZE} \<subseteq> used_frames s"
      using full ff by blast
    moreover have "{8 * pmm_last_alloc_index s ..< 8 * PMM_BITMAP_SIZE} \<subseteq> {8 ..< 8 * PMM_BITMAP_SIZE}"
      using assms(1) by (auto simp: pmm_inv_def)
    ultimately have "\<not> {8 * pmm_last_alloc_index s ..< 8 * PMM_BITMAP_SIZE} \<subseteq> used_frames s"
      "\<not> {8 ..< 8 * PMM_BITMAP_SIZE} \<subseteq> used_frames s" by blast+
    then show ?thesis by (simp only: if_False) (intro exI [of _ n] conjI n ff)
  next
    fix n assume n: "unat a = 4096 * n" "used_frames s' = insert n (used_frames s)" "first_free s 8 n"
      and hi: "{8 * pmm_last_alloc_index s ..< 8 * PMM_BITMAP_SIZE} \<subseteq> used_frames s"
    then have "\<not> {8 ..< 8 * PMM_BITMAP_SIZE} \<subseteq> used_frames s" using full by blast
    with hi show ?thesis by (simp only: if_False if_True) (intro exI [of _ n] conjI n)
  qed simp
qed

theorem pmm_alloc_next_fit_witness:
  "fst (pmm_alloc_frame pmm_static) = 0x8000 \<and> first_free pmm_static 8 8"
proof -
  have "used_frames pmm_static = {}" by (auto simp: in_used_frames pmm_static_def bitmap_bit_def)
  then have "\<exists>n. unat (fst (pmm_alloc_frame pmm_static)) = 4096 * n \<and> first_free pmm_static 8 n"
    using pmm_alloc_next_fit [OF pmm_static_inv prod.collapse [symmetric]]
    by (auto simp: pmm_static_def PMM_BITMAP_SIZE_def)
  then show ?thesis by (auto simp: pmm_static_alloc)
qed

text \<open>
  A freed frame is the next one handed out: after \<open>pmm_free_frame a\<close> the frame is free, nothing
  else changed, and the following \<open>pmm_alloc_frame\<close> returns \<open>a\<close> and marks it used again. The
  assertion fails exactly on addresses that are not multiples of 4096.
\<close>

theorem pmm_free_then_alloc:
  "(\<not> 4096 dvd unat a \<longrightarrow> pmm_free_frame a s = Inl (Assertion ''is_valid_frame_addr(frame_addr)'')) \<and>
   (4096 dvd unat a \<and> pmm_inv s \<longrightarrow>
      (\<exists>s' s''. pmm_free_frame a s = Inr s' \<and> used_frames s' = used_frames s - {frame_no a} \<and> pmm_inv s' \<and>
                pmm_is_frame_free a s' = Inr True \<and>
                pmm_alloc_frame s' = (a, s'') \<and> used_frames s'' = insert (frame_no a) (used_frames s)))"
proof (intro conjI impI)
  assume "\<not> 4096 dvd unat a"
  then show "pmm_free_frame a s = Inl (Assertion ''is_valid_frame_addr(frame_addr)'')"
    by (simp add: pmm_free_frame_def assert_run_def is_valid_frame_addr_iff)
next
  assume a: "4096 dvd unat a \<and> pmm_inv s"
  then have valid: "is_valid_frame_addr a" by (simp add: is_valid_frame_addr_iff)
  then obtain s' where free: "pmm_free_frame a s = Inr s'" by (simp add: pmm_free_frame_def)
  note spec = pmm_free_spec [OF free]
  obtain b s'' where alloc: "pmm_alloc_frame s' = (b, s'')" by (cases "pmm_alloc_frame s'")
  note hint = pmm_alloc_hint [OF spec(5) spec(3) alloc]
  have "b = a" using a hint(1) spec(4) valid_frame_addr_unat [OF valid] by (simp add: word_unat_eq_iff)
  moreover have "frame_no a \<notin> used_frames s'" using spec(2) by simp
  then have "pmm_is_frame_free a s' = Inr True"
    using valid frame_no_less [of a]
    by (simp add: pmm_is_frame_free_def BIT_MASK_def mask_simps frame_cell in_used_frames bitmap_bit_def)
  ultimately show "\<exists>s' s''. pmm_free_frame a s = Inr s' \<and> used_frames s' = used_frames s - {frame_no a} \<and>
      pmm_inv s' \<and> pmm_is_frame_free a s' = Inr True \<and> pmm_alloc_frame s' = (a, s'') \<and>
      used_frames s'' = insert (frame_no a) (used_frames s)"
    using a free alloc spec hint by auto
qed

theorem pmm_free_then_alloc_witness:
  "pmm_inv pmm_static \<and>
   (\<exists>s' s''. pmm_free_frame 0x9000 pmm_static = Inr s' \<and> pmm_alloc_frame s' = (0x9000, s''))"
proof -
  have "(4096 :: nat) dvd unat (0x9000 :: u32)" by simp
  then show ?thesis using pmm_free_then_alloc [of "0x9000" pmm_static] by (auto simp del: dvd_numeral_simp)
qed

text \<open>
  \<open>pmm_init\<close> on the layout of linker.ld and start.asm: whatever the bitmap held before, exactly
  the frames of the kernel image from 1 MB, the 100 frames of the stack below 64 MB, the 108 frames
  of the heap above it and the VGA frame end up used, and the heap starts at 64 MB.
\<close>

theorem pmm_init_reserves:
  assumes "0x100000 \<le> ke" and "ke \<le> 0x3F00000"
  shows "fst (pmm_init (kernel_layout ke) s) = 0x4000000 \<and>
    used_frames (snd (pmm_init (kernel_layout ke) s)) =
      {256 ..< 256 + (unat ke - 0x100000 + 4095) div 4096} \<union> {16284 ..< 16384} \<union> {16384 ..< 16492} \<union> {184}"
  using pmm_init_used [of "kernel_layout ke" s] reserved_frames_layout [OF assms] heap_base_layout [of ke]
  by (simp add: pmm_init_def Let_def)

theorem pmm_init_reserves_witness:
  "used_frames (snd (pmm_init (kernel_layout 0x180000) pmm_static)) =
     {256 ..< 384} \<union> {16284 ..< 16384} \<union> {16384 ..< 16492} \<union> {184}"
  using pmm_init_reserves [of "0x180000" pmm_static] by simp

text \<open>
  Allocations in a loop, as \<open>kmalloc_large\<close> and \<open>process_create_stack\<close> make them, never hand out
  a frame twice: when no allocation failed, the frames are pairwise distinct, none was in use, and
  exactly they are added to the frames in use.
\<close>

theorem pmm_alloc_many_distinct:
  assumes "pmm_inv s" and "alloc_many (\<lambda>s. Inr (pmm_alloc_frame s)) n s = Inr (as, s')" and "0 \<notin> set as"
  shows "length as = n \<and> distinct (map frame_no as) \<and> frame_no ` set as \<inter> used_frames s = {} \<and>
    used_frames s' = frame_no ` set as \<union> used_frames s"
  using assms by (rule pmm.alloc_many_used)

theorem pmm_alloc_many_distinct_witness:
  "\<exists>s'. alloc_many (\<lambda>s. Inr (pmm_alloc_frame s)) 2 pmm_static = Inr ([0x8000, 0x9000], s') \<and>
        used_frames s' = {8, 9} \<union> used_frames pmm_static"
proof -
  obtain s' where "pmm_alloc_frame (pmm_static\<lparr>pmm_bitmap := (\<lambda>_. 0)(1 := 1)\<rparr>) = (0x9000, s')"
    using pmm_static_alloc2 by (metis prod.collapse)
  then have run: "alloc_many (\<lambda>s. Inr (pmm_alloc_frame s)) 2 pmm_static = Inr ([0x8000, 0x9000], s')"
    by (simp add: numeral_2_eq_2 pmm_static_alloc)
  show ?thesis
    using run pmm_alloc_many_distinct [OF pmm_static_inv(1) run] by (auto simp: frame_no_def)
qed

end
