(* ===== verification/Disk_Slots.thy ===== *)
theory Disk_Slots
  imports Kernel_Prelude
begin

text \<open>
  The swap-slot allocator of drivers/disk.c: a bitmap with one bit per sector slot, next-fit search
  for a run of free slots, and release of a run. Every access to the bitmap carries its bound.
\<close>

section \<open>Data\<close>

definition DISK_BITMAP_SIZE :: nat where "DISK_BITMAP_SIZE = 100000"
definition DISK_NO_SLOT_AVAILABLE :: u32 where "DISK_NO_SLOT_AVAILABLE = -1"

text \<open>The bound \<open>DISK_BITMAP_SIZE * 8\<close> as the 32-bit value the code compares with.\<close>

definition slot_limit :: u32 where "slot_limit = 800000"

record slot_state =
  disk_bitmap :: bytes
  disk_last_alloc_index :: nat

definition slots_static :: slot_state where
  "slots_static = \<lparr>disk_bitmap = (\<lambda>_. 0), disk_last_alloc_index = 1\<rparr>"

section \<open>Operations\<close>

definition is_slot_free :: "slot_state \<Rightarrow> u32 \<Rightarrow> bool run" where
  "is_slot_free s slot =
     (if unat (slot div 8) < DISK_BITMAP_SIZE
      then Inr (disk_bitmap s (unat (slot div 8)) AND one_shl (unat (slot mod 8)) = 0)
      else Inl Out_of_bounds)"

definition disk_mark_used :: "u32 \<Rightarrow> slot_state \<Rightarrow> slot_state run" where
  "disk_mark_used slot s =
     (let i = unat (slot div 8) in
      if i < DISK_BITMAP_SIZE
      then Inr (s\<lparr>disk_bitmap := (disk_bitmap s)(i := disk_bitmap s i OR one_shl (unat (slot mod 8)))\<rparr>)
      else Inl Out_of_bounds)"

definition disk_mark_free :: "u32 \<Rightarrow> slot_state \<Rightarrow> slot_state run" where
  "disk_mark_free slot s =
     (let i = unat (slot div 8) in
      if i < DISK_BITMAP_SIZE
      then Inr (s\<lparr>disk_bitmap := (disk_bitmap s)
                    (i := disk_bitmap s i AND NOT (one_shl (unat (slot mod 8))))\<rparr>)
      else Inl Out_of_bounds)"

text \<open>The loop of \<open>are_slots_free\<close>, from \<open>k\<close> with \<open>n\<close> slots left to look at.\<close>

fun slots_free_loop :: "slot_state \<Rightarrow> u32 \<Rightarrow> nat \<Rightarrow> nat \<Rightarrow> bool run" where
  "slots_free_loop s start k 0 = Inr True"
| "slots_free_loop s start k (Suc n) =
     bind_run (is_slot_free s (start + of_nat k))
       (\<lambda>free. if \<not> free then Inr False else slots_free_loop s start (Suc k) n)"

definition are_slots_free :: "slot_state \<Rightarrow> u32 \<Rightarrow> u32 \<Rightarrow> bool run" where
  "are_slots_free s start count =
     (if start + count > slot_limit then Inr False
      else slots_free_loop s start 0 (unat count))"

fun mark_loop :: "(u32 \<Rightarrow> slot_state \<Rightarrow> slot_state run) \<Rightarrow> u32 \<Rightarrow> nat \<Rightarrow> nat \<Rightarrow> slot_state \<Rightarrow> slot_state run" where
  "mark_loop mark start k 0 s = Inr s"
| "mark_loop mark start k (Suc n) s =
     bind_run (mark (start + of_nat k) s) (mark_loop mark start (Suc k) n)"

definition mark_slots_used :: "u32 \<Rightarrow> u32 \<Rightarrow> slot_state \<Rightarrow> slot_state run" where
  "mark_slots_used start count s = mark_loop disk_mark_used start 0 (unat count) s"

definition disk_free_slot :: "u32 \<Rightarrow> slot_state \<Rightarrow> slot_state run" where
  "disk_free_slot slot s = disk_mark_free slot s"

definition disk_free_slots :: "u32 \<Rightarrow> u8 \<Rightarrow> slot_state \<Rightarrow> slot_state run" where
  "disk_free_slots slot slots_num s =
     (if slot + ucast slots_num \<ge> slot_limit then Inr s
      else mark_loop disk_mark_free slot 0 (unat slots_num) s)"

text \<open>The body of the two search loops: the bits of byte \<open>i\<close> from \<open>j\<close> on, then the bytes up to \<open>hi\<close>.\<close>

function alloc_in_byte :: "u8 \<Rightarrow> nat \<Rightarrow> nat \<Rightarrow> slot_state \<Rightarrow> (u32 \<times> slot_state) option run" where
  "alloc_in_byte slots_num i j s =
     (if j < 8 then
        let slot = of_nat i * 8 + of_nat j in
        bind_run (is_slot_free s slot) (\<lambda>free.
          if \<not> free then alloc_in_byte slots_num i (Suc j) s
          else bind_run (are_slots_free s slot (ucast slots_num)) (\<lambda>ok.
            if ok then
              bind_run (mark_slots_used slot (ucast slots_num) s) (\<lambda>s'.
                Inr (Some (slot, s'\<lparr>disk_last_alloc_index := unat ((slot + ucast slots_num) div 8)\<rparr>)))
            else alloc_in_byte slots_num i (Suc j) s))
      else Inr None)"
  by pat_completeness auto
termination by (relation "measure (\<lambda>(n, i, j, s). 8 - j)") auto

function alloc_in_range :: "u8 \<Rightarrow> nat \<Rightarrow> nat \<Rightarrow> slot_state \<Rightarrow> (u32 \<times> slot_state) option run" where
  "alloc_in_range slots_num i hi s =
     (if i < hi then
        bind_run (alloc_in_byte slots_num i 0 s) (\<lambda>r.
          case r of Some x \<Rightarrow> Inr (Some x) | None \<Rightarrow> alloc_in_range slots_num (Suc i) hi s)
      else Inr None)"
  by pat_completeness auto
termination by (relation "measure (\<lambda>(n, i, hi, s). hi - i)") auto

definition disk_alloc_slots :: "u8 \<Rightarrow> slot_state \<Rightarrow> (u32 \<times> slot_state) run" where
  "disk_alloc_slots slots_num s =
     (if slots_num = 0 then Inr (DISK_NO_SLOT_AVAILABLE, s)
      else
        bind_run (alloc_in_range slots_num (disk_last_alloc_index s) DISK_BITMAP_SIZE s) (\<lambda>r.
          case r of
            Some x \<Rightarrow> Inr x
          | None \<Rightarrow>
              bind_run (alloc_in_range slots_num 0 (disk_last_alloc_index s) s) (\<lambda>r'.
                case r' of
                  Some x \<Rightarrow> Inr x
                | None \<Rightarrow> Inr (DISK_NO_SLOT_AVAILABLE, s))))"

definition disk_alloc_slot :: "slot_state \<Rightarrow> (u32 \<times> slot_state) run" where
  "disk_alloc_slot s = disk_alloc_slots 1 s"

section \<open>Abstraction\<close>

definition used_slots :: "slot_state \<Rightarrow> nat set" where
  "used_slots s = bitmap_set (disk_bitmap s) DISK_BITMAP_SIZE"

definition slots_inv :: "slot_state \<Rightarrow> bool" where
  "slots_inv s \<longleftrightarrow> disk_last_alloc_index s \<le> DISK_BITMAP_SIZE"

text \<open>A run of \<open>n\<close> free slots that lies inside the area, and the first one in a range.\<close>

definition free_run :: "slot_state \<Rightarrow> nat \<Rightarrow> nat \<Rightarrow> bool" where
  "free_run s n x \<longleftrightarrow> x + n \<le> 8 * DISK_BITMAP_SIZE \<and> {x ..< x + n} \<inter> used_slots s = {}"

definition first_run :: "slot_state \<Rightarrow> nat \<Rightarrow> nat \<Rightarrow> nat \<Rightarrow> bool" where
  "first_run s n lo x \<longleftrightarrow> lo \<le> x \<and> free_run s n x \<and> (\<forall>y. lo \<le> y \<and> y < x \<longrightarrow> \<not> free_run s n y)"

text \<open>What a search for \<open>n\<close> slots starting at \<open>lo\<close> or later, and below \<open>hi\<close>, has to produce.\<close>

definition search_result ::
  "slot_state \<Rightarrow> nat \<Rightarrow> nat \<Rightarrow> nat \<Rightarrow> (u32 \<times> slot_state) option \<Rightarrow> bool" where
  "search_result s n lo hi r =
     (case r of
        None \<Rightarrow> \<forall>x. lo \<le> x \<and> x < hi \<longrightarrow> \<not> free_run s n x
      | Some (slot, s') \<Rightarrow>
          unat slot < hi \<and> first_run s n lo (unat slot) \<and>
          used_slots s' = {unat slot ..< unat slot + n} \<union> used_slots s \<and>
          disk_last_alloc_index s' = (unat slot + n) div 8)"

section \<open>The loops\<close>

lemma slot_cell: "unat ((slot :: u32) div 8) = unat slot div 8" "unat (slot mod 8) = unat slot mod 8"
  by (simp_all add: unat_div unat_mod)

lemma in_used_slots: "x \<in> used_slots s \<longleftrightarrow> x < 800000 \<and> bitmap_bit (disk_bitmap s) x"
  by (simp add: used_slots_def bitmap_set_def DISK_BITMAP_SIZE_def)

lemma is_slot_free_in_range:
  "unat slot < 800000 \<Longrightarrow> is_slot_free s slot = Inr (unat slot \<notin> used_slots s)"
  by (auto simp: is_slot_free_def slot_cell DISK_BITMAP_SIZE_def mask_simps in_used_slots bitmap_bit_def)

lemma disk_mark_used_in_range:
  assumes "unat slot < 800000"
  shows "\<exists>s'. disk_mark_used slot s = Inr s' \<and> used_slots s' = insert (unat slot) (used_slots s)
              \<and> disk_last_alloc_index s' = disk_last_alloc_index s"
proof -
  have "unat slot div 8 < DISK_BITMAP_SIZE" using assms by (simp add: DISK_BITMAP_SIZE_def)
  then show ?thesis
    by (simp add: disk_mark_used_def Let_def slot_cell used_slots_def bitmap_set_mark)
qed

lemma disk_mark_free_in_range:
  assumes "unat slot < 800000"
  shows "\<exists>s'. disk_mark_free slot s = Inr s' \<and> used_slots s' = used_slots s - {unat slot}
              \<and> disk_last_alloc_index s' = disk_last_alloc_index s"
proof -
  have "unat slot div 8 < DISK_BITMAP_SIZE" using assms by (simp add: DISK_BITMAP_SIZE_def)
  then show ?thesis
    by (simp add: disk_mark_free_def Let_def slot_cell used_slots_def bitmap_set_clear)
qed

lemma disk_mark_free_out_of_range: "800000 \<le> unat slot \<Longrightarrow> disk_mark_free slot s = Inl Out_of_bounds"
  by (simp add: disk_mark_free_def Let_def slot_cell DISK_BITMAP_SIZE_def)

lemma unat_slot_add:
  "unat (start :: u32) + k < 2 ^ 32 \<Longrightarrow> unat (start + of_nat k) = unat start + k"
  by (subst unat_add_exact) (simp_all add: unat_of_nat)

lemma slots_free_loop_in_range:
  "unat start + k + n \<le> 800000 \<Longrightarrow>
     slots_free_loop s start k n = Inr ({unat start + k ..< unat start + k + n} \<inter> used_slots s = {})"
proof (induction n arbitrary: k)
  case 0
  then show ?case by simp
next
  case (Suc n)
  have "unat (start + of_nat k) = unat start + k" using Suc.prems by (intro unat_slot_add) simp
  moreover have "{unat start + k ..< unat start + k + Suc n} =
      insert (unat start + k) {unat start + Suc k ..< unat start + Suc k + n}" by auto
  ultimately show ?case
    using Suc.IH [of "Suc k"] Suc.prems by (simp add: is_slot_free_in_range)
qed

lemma mark_loop_in_range:
  assumes "\<And>slot s. unat slot < 800000 \<Longrightarrow>
      \<exists>s'. mark slot s = Inr s' \<and> used_slots s' = upd (unat slot) (used_slots s) \<and>
           disk_last_alloc_index s' = disk_last_alloc_index s"
    and "unat start + k + n \<le> 800000"
  shows "\<exists>s'. mark_loop mark start k n s = Inr s' \<and>
      used_slots s' = fold upd [unat start + k ..< unat start + k + n] (used_slots s) \<and>
      disk_last_alloc_index s' = disk_last_alloc_index s"
  using assms(2)
proof (induction n arbitrary: k s)
  case 0
  then show ?case by simp
next
  case (Suc n)
  have "unat (start + of_nat k) = unat start + k" using Suc.prems by (intro unat_slot_add) simp
  with assms(1) [of "start + of_nat k" s] Suc.prems obtain s1 where
    s1: "mark (start + of_nat k) s = Inr s1" "used_slots s1 = upd (unat start + k) (used_slots s)"
      "disk_last_alloc_index s1 = disk_last_alloc_index s" by auto
  moreover have "[unat start + k ..< unat start + k + Suc n] =
      (unat start + k) # [unat start + Suc k ..< unat start + Suc k + n]"
    by (simp add: upt_conv_Cons)
  ultimately show ?case using Suc.IH [of "Suc k" s1] Suc.prems by simp
qed

lemma fold_insert_interval: "fold insert [a ..< b] S = {a ..< b} \<union> S"
  by (simp flip: union_set_fold)

lemma fold_remove: "fold (\<lambda>x S. S - {x}) xs S = S - set xs"
  by (induction xs arbitrary: S) auto

lemma mark_slots_used_in_range:
  assumes "unat start + unat count \<le> 800000"
  shows "\<exists>s'. mark_slots_used start count s = Inr s' \<and>
      used_slots s' = {unat start ..< unat start + unat count} \<union> used_slots s"
  using mark_loop_in_range [where upd = insert and mark = disk_mark_used, OF disk_mark_used_in_range, of start 0 "unat count" s] assms
  by (auto simp: mark_slots_used_def fold_insert_interval)

lemma mark_loop_free_in_range:
  assumes "unat start + n \<le> 800000"
  shows "\<exists>s'. mark_loop disk_mark_free start 0 n s = Inr s' \<and>
      used_slots s' = used_slots s - {unat start ..< unat start + n} \<and>
      disk_last_alloc_index s' = disk_last_alloc_index s"
  using mark_loop_in_range [where upd = "\<lambda>x S. S - {x}" and mark = disk_mark_free,
      OF disk_mark_free_in_range, of start 0 n s] assms
  by (simp add: fold_remove)

lemma are_slots_free_eq:
  assumes "unat start < 800000" and "unat count < 256"
  shows "are_slots_free s start count = Inr (free_run s (unat count) (unat start))"
proof -
  have "unat (start + count) = unat start + unat count" using assms by (intro unat_add_exact) simp
  then have "start + count > slot_limit \<longleftrightarrow> \<not> unat start + unat count \<le> 800000"
    by (simp add: slot_limit_def word_less_nat_alt not_le)
  then show ?thesis
    using slots_free_loop_in_range [of start 0 "unat count" s]
    by (simp add: are_slots_free_def free_run_def DISK_BITMAP_SIZE_def)
qed

text \<open>Extending a search downwards by one slot that starts no free run.\<close>

lemma free_run_start: "free_run s n x \<Longrightarrow> 0 < n \<Longrightarrow> x \<notin> used_slots s"
  by (auto simp: free_run_def disjoint_iff)

lemma first_run_here: "free_run s n x \<Longrightarrow> first_run s n x x"
  by (auto simp: first_run_def)

lemma used_slots_last [simp]: "used_slots (s\<lparr>disk_last_alloc_index := i\<rparr>) = used_slots s"
  by (simp add: used_slots_def)

lemma search_result_skip:
  "\<not> free_run s n lo \<Longrightarrow> search_result s n (Suc lo) hi r \<Longrightarrow> search_result s n lo hi r"
  by (auto simp: search_result_def first_run_def split: option.splits)
     (metis Suc_leI le_neq_implies_less)+

lemma search_result_append:
  "\<forall>x. lo \<le> x \<and> x < mid \<longrightarrow> \<not> free_run s n x \<Longrightarrow> lo \<le> mid \<Longrightarrow> search_result s n mid hi r \<Longrightarrow>
     search_result s n lo hi r"
  by (auto simp: search_result_def first_run_def not_le split: option.splits)
     (metis not_le)+

declare alloc_in_byte.simps [simp del] alloc_in_range.simps [simp del]

lemma alloc_in_byte_search:
  "i < DISK_BITMAP_SIZE \<Longrightarrow> slots_num \<noteq> 0 \<Longrightarrow> j \<le> 8 \<Longrightarrow>
     \<exists>r. alloc_in_byte slots_num i j s = Inr r \<and>
         search_result s (unat slots_num) (8 * i + j) (8 * i + 8) r"
proof (induction "8 - j" arbitrary: j)
  case 0
  then have "alloc_in_byte slots_num i j s = Inr None"
    by (subst alloc_in_byte.simps) simp
  with 0 show ?case by (auto simp: search_result_def)
next
  case (Suc d)
  then have True: "j < 8" by simp
  note prems = Suc.prems
  let ?slot = "of_nat i * 8 + of_nat j :: u32" and ?n = "ucast slots_num :: u32"
  have n: "unat ?n = unat slots_num" "unat slots_num < 256" "0 < unat slots_num"
    using prems(2) unat_u8_less by (simp_all add: unat_ucast_up unat_gt_0)
  have "unat (of_nat (8 * i + j) :: u32) = 8 * i + j"
    using True prems(1) by (intro unat_of_nat_exact) (simp add: DISK_BITMAP_SIZE_def)
  then have slot: "unat ?slot = 8 * i + j" by (simp add: algebra_simps)
  have less: "unat ?slot < 800000" using True prems(1) by (simp add: slot DISK_BITMAP_SIZE_def)
  show ?case
  proof (cases "free_run s (unat slots_num) (unat ?slot)")
    case free: True
    then have fits: "unat ?slot + unat ?n \<le> 800000" "unat ?slot \<notin> used_slots s"
      using n free_run_start by (simp_all add: free_run_def DISK_BITMAP_SIZE_def)
    obtain s' where s': "mark_slots_used ?slot ?n s = Inr s'"
      "used_slots s' = {unat ?slot ..< unat ?slot + unat ?n} \<union> used_slots s"
      using mark_slots_used_in_range [OF fits(1)] by blast
    have "unat ((?slot + ?n) div 8) = (unat ?slot + unat slots_num) div 8"
      using fits(1) n by (subst unat_div) (subst unat_add_exact, simp_all)
    moreover have "alloc_in_byte slots_num i j s =
        Inr (Some (?slot, s'\<lparr>disk_last_alloc_index := unat ((?slot + ?n) div 8)\<rparr>))"
      using True less fits free s' n
      by (simp add: alloc_in_byte.simps [of _ _ j] Let_def is_slot_free_in_range are_slots_free_eq)
    ultimately show ?thesis
      using s' first_run_here [OF free] n slot True by (simp add: search_result_def)
  next
    case busy: False
    have "alloc_in_byte slots_num i j s = alloc_in_byte slots_num i (Suc j) s"
      using True less busy n
      by (simp add: alloc_in_byte.simps [of _ _ j] Let_def is_slot_free_in_range are_slots_free_eq)
    moreover have "\<exists>r. alloc_in_byte slots_num i (Suc j) s = Inr r \<and>
        search_result s (unat slots_num) (8 * i + Suc j) (8 * i + 8) r"
      using Suc.hyps(1) [of "Suc j"] Suc.hyps(2) True prems by simp
    ultimately show ?thesis using busy search_result_skip by (auto simp: slot)
  qed
qed

lemma alloc_in_range_search:
  "hi \<le> DISK_BITMAP_SIZE \<Longrightarrow> slots_num \<noteq> 0 \<Longrightarrow>
     \<exists>r. alloc_in_range slots_num i hi s = Inr r \<and>
         search_result s (unat slots_num) (8 * i) (8 * hi) r"
proof (induction "hi - i" arbitrary: i)
  case 0
  then have "alloc_in_range slots_num i hi s = Inr None"
    by (subst alloc_in_range.simps) simp
  with 0 show ?case by (auto simp: search_result_def)
next
  case (Suc d)
  then have i: "i < hi" by simp
  obtain r where byte: "alloc_in_byte slots_num i 0 s = Inr r"
    and found: "search_result s (unat slots_num) (8 * i) (8 * i + 8) r"
    using alloc_in_byte_search [of i slots_num 0 s] i Suc.prems by auto
  show ?case
  proof (cases r)
    case None
    have "\<exists>r. alloc_in_range slots_num (Suc i) hi s = Inr r \<and>
        search_result s (unat slots_num) (8 * Suc i) (8 * hi) r"
      using Suc.hyps(1) [of "Suc i"] Suc.hyps(2) Suc.prems by simp
    moreover have "search_result s (unat slots_num) (8 * i) (8 * hi) r'"
      if "search_result s (unat slots_num) (8 * Suc i) (8 * hi) r'" for r'
      using search_result_append [OF _ _ that] found None by (simp add: search_result_def)
    ultimately show ?thesis using i byte None by (auto simp: alloc_in_range.simps [of _ i])
  next
    case (Some x)
    then have "alloc_in_range slots_num i hi s = Inr r"
      using i byte by (simp add: alloc_in_range.simps [of _ i])
    moreover have "search_result s (unat slots_num) (8 * i) (8 * hi) r"
      using found i Some by (auto simp: search_result_def split: prod.splits)
    ultimately show ?thesis by blast
  qed
qed

lemma search_found:
  assumes "search_result s n lo hi (Some (slot, s'))"
  shows "slot \<noteq> DISK_NO_SLOT_AVAILABLE" "slots_inv s'" "first_run s n lo (unat slot)"
    "used_slots s' = {unat slot ..< unat slot + n} \<union> used_slots s"
proof -
  have "unat slot + n \<le> 800000" and "disk_last_alloc_index s' = (unat slot + n) div 8"
    using assms by (auto simp: search_result_def first_run_def free_run_def DISK_BITMAP_SIZE_def)
  then have "unat slot \<noteq> unat (-1 :: u32)" and "slots_inv s'"
    by (simp_all add: slots_inv_def DISK_BITMAP_SIZE_def)
  then show "slot \<noteq> DISK_NO_SLOT_AVAILABLE" "slots_inv s'"
    by (auto simp: DISK_NO_SLOT_AVAILABLE_def)
  show "first_run s n lo (unat slot)" "used_slots s' = {unat slot ..< unat slot + n} \<union> used_slots s"
    using assms by (simp_all add: search_result_def)
qed

lemma disk_alloc_slots_search:
  assumes inv: "slots_inv s" and n: "slots_num \<noteq> 0"
  shows "\<exists>slot s'. disk_alloc_slots slots_num s = Inr (slot, s') \<and> slots_inv s' \<and>
    (if slot = DISK_NO_SLOT_AVAILABLE then s' = s \<and> (\<forall>x. \<not> free_run s (unat slots_num) x)
     else used_slots s' = {unat slot ..< unat slot + unat slots_num} \<union> used_slots s \<and>
       (first_run s (unat slots_num) (8 * disk_last_alloc_index s) (unat slot) \<or>
        first_run s (unat slots_num) 0 (unat slot) \<and>
          (\<forall>x \<ge> 8 * disk_last_alloc_index s. \<not> free_run s (unat slots_num) x)))"
proof -
  let ?n = "unat slots_num" and ?la = "disk_last_alloc_index s"
  have pos: "0 < ?n" using n by (simp add: unat_gt_0)
  have la: "?la \<le> DISK_BITMAP_SIZE" using inv by (simp add: slots_inv_def)
  obtain r1 where r1: "alloc_in_range slots_num ?la DISK_BITMAP_SIZE s = Inr r1"
    "search_result s ?n (8 * ?la) (8 * DISK_BITMAP_SIZE) r1"
    using alloc_in_range_search [OF order_refl n] by blast
  obtain r2 where r2: "alloc_in_range slots_num 0 ?la s = Inr r2" "search_result s ?n 0 (8 * ?la) r2"
    using alloc_in_range_search [OF la n, of 0 s] by auto
  show ?thesis
  proof (cases r1)
    case (Some x)
    obtain slot s' where x: "x = (slot, s')" by (cases x)
    have "disk_alloc_slots slots_num s = Inr (slot, s')"
      using n r1 Some x by (simp add: disk_alloc_slots_def)
    with search_found [OF r1(2) [unfolded Some x]] show ?thesis by auto
  next
    case None
    then have hi: "\<forall>x \<ge> 8 * ?la. \<not> free_run s ?n x"
      using r1(2) pos by (auto simp: search_result_def free_run_def)
    show ?thesis
    proof (cases r2)
      case (Some x)
      obtain slot s' where x: "x = (slot, s')" by (cases x)
      have "disk_alloc_slots slots_num s = Inr (slot, s')"
        using n r1 r2 None Some x by (simp add: disk_alloc_slots_def)
      with search_found [OF r2(2) [unfolded Some x]] hi show ?thesis by auto
    next
      case None2: None
      then have "\<forall>x < 8 * ?la. \<not> free_run s ?n x" using r2(2) by (simp add: search_result_def)
      with hi have "\<forall>x. \<not> free_run s ?n x" by (meson not_le)
      with inv None None2 n r1 r2 show ?thesis by (simp add: disk_alloc_slots_def)
    qed
  qed
qed

section \<open>Releasing a run\<close>

lemma unat_run_end:
  "unat slot + unat (n :: u8) < 2 ^ 32 \<Longrightarrow> unat (slot + ucast n :: u32) = unat slot + unat n"
  by (subst unat_add_exact) (simp_all add: unat_ucast_up)

lemma disk_free_slots_below:
  "unat slot + unat n < 800000 \<Longrightarrow>
     \<exists>s'. disk_free_slots slot n s = Inr s' \<and> used_slots s' = used_slots s - {unat slot ..< unat slot + unat n}"
  using mark_loop_free_in_range [of slot "unat n" s] unat_run_end [of slot n]
  by (auto simp: disk_free_slots_def slot_limit_def word_le_nat_alt)

lemma disk_free_slots_ignored:
  "800000 \<le> unat slot + unat n \<Longrightarrow> unat slot + unat n < 2 ^ 32 \<Longrightarrow> disk_free_slots slot n s = Inr s"
  using unat_run_end [of slot n] by (simp add: disk_free_slots_def slot_limit_def word_le_nat_alt)

section \<open>The allocator interface\<close>

interpretation slots: cell_allocator disk_alloc_slot used_slots unat DISK_NO_SLOT_AVAILABLE slots_inv
proof
  fix s :: slot_state
  assume inv: "slots_inv s"
  note search = disk_alloc_slots_search [OF inv, of 1]
  then show "\<exists>a s'. disk_alloc_slot s = Inr (a, s')" by (auto simp: disk_alloc_slot_def)
  fix a s' assume alloc: "disk_alloc_slot s = Inr (a, s')"
  then show "slots_inv s'" using search by (auto simp: disk_alloc_slot_def)
  show "unat a \<notin> used_slots s \<and> used_slots s' = insert (unat a) (used_slots s)"
    if "a \<noteq> DISK_NO_SLOT_AVAILABLE"
    using search alloc that free_run_start [of s 1]
    by (auto simp: disk_alloc_slot_def first_run_def)
next
  fix s s' :: slot_state
  assume "slots_inv s" "disk_alloc_slot s = Inr (DISK_NO_SLOT_AVAILABLE, s')"
  then show "used_slots s \<subseteq> used_slots s'"
    using disk_alloc_slots_search [of s 1] by (auto simp: disk_alloc_slot_def)
qed

section \<open>Properties\<close>

lemma slots_static_inv [simp]: "slots_inv slots_static" "used_slots slots_static = {}"
  by (auto simp: slots_inv_def slots_static_def DISK_BITMAP_SIZE_def in_used_slots bitmap_bit_def)

text \<open>
  C5. \<open>disk_alloc_slots\<close> always returns, never touches the bitmap out of bounds, and is next-fit: it
  takes the first run of \<open>slots_num\<close> free slots that starts at or after byte \<open>last_alloc_index\<close>, else
  the first run of the whole area; exactly that run, which lies inside the area and was free,
  becomes used. It reports \<open>DISK_NO_SLOT_AVAILABLE\<close>, leaving the state alone, only when no free run
  of that length exists anywhere.
\<close>

theorem disk_alloc_slots_next_fit:
  assumes "slots_inv s" and "slots_num \<noteq> 0"
  shows "\<exists>slot s'. disk_alloc_slots slots_num s = Inr (slot, s') \<and> slots_inv s' \<and>
    (if slot = DISK_NO_SLOT_AVAILABLE then s' = s \<and> (\<forall>x. \<not> free_run s (unat slots_num) x)
     else used_slots s' = {unat slot ..< unat slot + unat slots_num} \<union> used_slots s \<and>
       (first_run s (unat slots_num) (8 * disk_last_alloc_index s) (unat slot) \<or>
        first_run s (unat slots_num) 0 (unat slot) \<and>
          (\<forall>x \<ge> 8 * disk_last_alloc_index s. \<not> free_run s (unat slots_num) x)))"
  using assms by (rule disk_alloc_slots_search)

theorem disk_alloc_slots_next_fit_witness:
  "\<exists>slot s'. disk_alloc_slots 8 slots_static = Inr (slot, s') \<and> slot \<noteq> DISK_NO_SLOT_AVAILABLE \<and>
     used_slots s' = {unat slot ..< unat slot + 8}"
proof -
  have "free_run slots_static 8 0" by (simp add: free_run_def DISK_BITMAP_SIZE_def)
  then show ?thesis using disk_alloc_slots_next_fit [of slots_static 8] by (auto split: if_splits)
qed

text \<open>
  What \<open>disk_free_slots\<close> does with a run of \<open>n\<close> slots at \<open>x\<close>. A run that ends below slot 800000 is
  freed and nothing else changes. A run that ends at or beyond it is silently kept, also the last
  run of the area, which ends exactly at 800000. A run whose end passes \<open>2^32\<close> gets through the
  guard, because the sum wraps around, and clears a bit outside the bitmap.
\<close>

theorem disk_free_slots_cases:
  "(unat slot + unat n < 800000 \<longrightarrow>
      (\<exists>s'. disk_free_slots slot n s = Inr s' \<and>
            used_slots s' = used_slots s - {unat slot ..< unat slot + unat n})) \<and>
   (800000 \<le> unat slot + unat n \<and> unat slot + unat n < 2 ^ 32 \<longrightarrow> disk_free_slots slot n s = Inr s) \<and>
   (2 ^ 32 \<le> unat slot + unat n \<longrightarrow> disk_free_slots slot n s = Inl Out_of_bounds)"
proof (intro conjI impI)
  show "\<exists>s'. disk_free_slots slot n s = Inr s' \<and>
      used_slots s' = used_slots s - {unat slot ..< unat slot + unat n}"
    if "unat slot + unat n < 800000"
    using that by (rule disk_free_slots_below)
  show "disk_free_slots slot n s = Inr s" if "800000 \<le> unat slot + unat n \<and> unat slot + unat n < 2 ^ 32"
    using that by (intro disk_free_slots_ignored) simp_all
  assume wrap: "2 ^ 32 \<le> unat slot + unat n"
  then have "unat (slot + ucast n) = unat slot + unat n - 2 ^ 32"
    using unat_u8_less [of n] unat_u32_less [of slot] by (simp add: unat_plus_if' unat_ucast_up)
  then have guard: "\<not> slot + ucast n \<ge> slot_limit"
    using unat_u8_less [of n] unat_u32_less [of slot] by (simp add: slot_limit_def word_le_nat_alt)
  obtain k where k: "unat n = Suc k" using wrap unat_u32_less [of slot] by (cases "unat n") auto
  have "800000 \<le> unat slot" using wrap unat_u8_less [of n] by simp
  then show "disk_free_slots slot n s = Inl Out_of_bounds"
    using guard by (simp add: disk_free_slots_def k disk_mark_free_out_of_range)
qed

theorem disk_free_slots_cases_witness:
  "disk_free_slots 799992 8 slots_static = Inr slots_static \<and>
   disk_free_slots DISK_NO_SLOT_AVAILABLE 8 slots_static = Inl Out_of_bounds"
  using disk_free_slots_cases [of 799992 8 slots_static]
    disk_free_slots_cases [of DISK_NO_SLOT_AVAILABLE 8 slots_static]
  by (simp add: DISK_NO_SLOT_AVAILABLE_def)

text \<open>
  Freeing what was allocated restores the set of used slots, with one exception: the run that
  ends at the last slot of the area stays allocated for ever.
\<close>

theorem disk_alloc_free_roundtrip:
  assumes "slots_inv s" and "slots_num \<noteq> 0"
    and "disk_alloc_slots slots_num s = Inr (slot, s')" and "slot \<noteq> DISK_NO_SLOT_AVAILABLE"
  shows "\<exists>s''. disk_free_slots slot slots_num s' = Inr s'' \<and>
    used_slots s'' = (if unat slot + unat slots_num = 800000 then used_slots s' else used_slots s)"
proof -
  let ?x = "unat slot" and ?n = "unat slots_num"
  have used: "used_slots s' = {?x ..< ?x + ?n} \<union> used_slots s" and run: "free_run s ?n ?x"
    using disk_alloc_slots_search [OF assms(1,2)] assms(3,4) by (auto simp: first_run_def)
  then have "?x + ?n \<le> 800000" "used_slots s' - {?x ..< ?x + ?n} = used_slots s"
    by (auto simp: free_run_def DISK_BITMAP_SIZE_def)
  then show ?thesis
    using disk_free_slots_below [of slot slots_num s'] disk_free_slots_ignored [of slot slots_num s']
    by (cases "?x + ?n = 800000") auto
qed

theorem disk_alloc_free_roundtrip_witness:
  "\<exists>s' s''. disk_alloc_slots 8 slots_static = Inr (8, s') \<and> disk_free_slots 8 8 s' = Inr s'' \<and>
     used_slots s'' = used_slots slots_static"
proof -
  have run: "free_run slots_static 8 8" by (simp add: free_run_def DISK_BITMAP_SIZE_def)
  have "disk_last_alloc_index slots_static = 1" by (simp add: slots_static_def)
  with run obtain slot s' where alloc: "disk_alloc_slots 8 slots_static = Inr (slot, s')"
    and slot: "slot \<noteq> DISK_NO_SLOT_AVAILABLE" "unat slot = 8"
    using disk_alloc_slots_search [of slots_static 8]
    by (force simp: first_run_def split: if_splits)
  then have "slot = 8" by (simp add: word_unat_eq_iff)
  then show ?thesis using disk_alloc_free_roundtrip [OF _ _ alloc slot(1)] alloc by simp
qed

end
