(* ===== verification/Vmm.thy ===== *)
theory Vmm
  imports Pmm Disk_Slots
begin

text \<open>
  memory/vmm.c: page tables in physical memory, reached through the processor's two-level walk, demand
  allocation, swapping and address spaces. Physical memory is a function from word addresses to words; a
  pointer is a virtual address, and every access through it is translated when paging is on. The TLB is
  assumed coherent (\<open>flush_page\<close>, \<open>flush_tlb\<close> and \<open>invlpg\<close> do nothing here). The heap (\<open>kmalloc\<close>, \<open>kfree\<close>) and
  the disk transfers are arguments; \<open>'h\<close> is the heap's own state.
\<close>

section \<open>Data\<close>

definition PAGE_SIZE :: u32 where "PAGE_SIZE = 4096"
definition TABLES_PER_DIR :: nat where "TABLES_PER_DIR = 1024"
definition PAGE_TABLE_SIZE :: nat where "PAGE_TABLE_SIZE = 1024"
definition PRESENT :: u32 where "PRESENT = 0x1"
definition PAGE_WRITEABLE :: u32 where "PAGE_WRITEABLE = 0x2"
definition PAGE_USER :: u32 where "PAGE_USER = 0x4"
definition GLOBAL :: u32 where "GLOBAL = 0x100"
definition SWAPPED :: u32 where "SWAPPED = 0x200"
definition EMPTY_USER_PAGE_DIR_FLAGS :: u32 where "EMPTY_USER_PAGE_DIR_FLAGS = PAGE_WRITEABLE OR PAGE_USER"
definition KERNEL_PAGE_FLAGS :: u32 where "KERNEL_PAGE_FLAGS = PAGE_WRITEABLE OR PRESENT OR GLOBAL"
definition RECURSIVE_PAGE_TABLE_INDEX :: u32 where "RECURSIVE_PAGE_TABLE_INDEX = 1023"
definition ALIGN_TO_PAGE :: "u32 \<Rightarrow> u32" where
  "ALIGN_TO_PAGE addr = (addr + PAGE_SIZE - 1) AND NOT (PAGE_SIZE - 1)"

lemmas page_flags = PRESENT_def PAGE_WRITEABLE_def PAGE_USER_def GLOBAL_def SWAPPED_def
  EMPTY_USER_PAGE_DIR_FLAGS_def KERNEL_PAGE_FLAGS_def

record page_fifo_node =
  pf_vir_addr :: u32
  pf_next :: u32

text \<open>
  The machine and the static variables: physical memory, the page directory register, the directory in
  use, the queue of swappable pages with its live nodes, and the two allocators the manager calls.
\<close>

record 'h vmm =
  mem :: "u32 \<Rightarrow> u32"
  cr3 :: u32
  paging_enabled :: bool
  current_directory :: u32
  fifo_nodes :: "u32 \<rightharpoonup> page_fifo_node"
  fifo_head :: u32
  fifo_tail :: u32
  fifo_count :: u32
  pmm :: pmm_state
  slots :: slot_state
  heap_base :: u32
  heap :: 'h

text \<open>The functions of kmalloc.c and disk.c the manager calls.\<close>

record 'h services =
  sv_kmalloc :: "u32 \<Rightarrow> 'h vmm \<Rightarrow> (u32 \<times> 'h vmm) run"
  sv_kfree :: "u32 \<Rightarrow> 'h vmm \<Rightarrow> 'h vmm run"
  sv_disk_write :: "u32 \<Rightarrow> u32 \<Rightarrow> u32 \<Rightarrow> 'h vmm \<Rightarrow> (u32 \<times> 'h vmm) run"
  sv_disk_read :: "u32 \<Rightarrow> u32 \<Rightarrow> u32 \<Rightarrow> 'h vmm \<Rightarrow> (u32 \<times> 'h vmm) run"
  sv_sector_size :: "'h vmm \<Rightarrow> u32"

section \<open>Page entries\<close>

definition get_directory_index :: "u32 \<Rightarrow> u32" where
  "get_directory_index vir_addr = drop_bit 22 vir_addr"

definition get_table_index :: "u32 \<Rightarrow> u32" where
  "get_table_index vir_addr = drop_bit 12 vir_addr AND 0x03FF"

definition get_page_table_vir_addr :: "u32 \<Rightarrow> u32" where
  "get_page_table_vir_addr pd_index = push_bit 22 RECURSIVE_PAGE_TABLE_INDEX OR push_bit 12 pd_index"

definition get_frame_addr :: "u32 \<Rightarrow> u32" where
  "get_frame_addr entry = entry AND 0xFFFFF000"

definition is_page_present :: "u32 \<Rightarrow> bool" where
  "is_page_present entry \<longleftrightarrow> entry AND PRESENT \<noteq> 0"

definition is_swapped :: "u32 \<Rightarrow> bool" where
  "is_swapped e \<longleftrightarrow> e AND SWAPPED \<noteq> 0"

definition is_page_present_error :: "u32 \<Rightarrow> bool" where
  "is_page_present_error error_code \<longleftrightarrow> error_code AND 0x1 \<noteq> 0"

definition is_page_user_error :: "u32 \<Rightarrow> bool" where
  "is_page_user_error error_code \<longleftrightarrow> error_code AND 0x4 \<noteq> 0"

definition is_cow :: "u32 \<Rightarrow> bool" where
  "is_cow e \<longleftrightarrow> False"

definition get_frame_offset :: "u32 \<Rightarrow> u32" where
  "get_frame_offset vir_addr = vir_addr AND 0xFFF"

text \<open>The three updates of an entry, as functions of its value.\<close>

definition entry_set_frame :: "u32 \<Rightarrow> u32 \<Rightarrow> u32" where
  "entry_set_frame frame_addr e = (e AND NOT 0xFFFFF000) OR frame_addr"

definition entry_add_attrib :: "u32 \<Rightarrow> u32 \<Rightarrow> u32" where
  "entry_add_attrib attrib e = e OR attrib"

definition entry_remove_attrib :: "u32 \<Rightarrow> u32 \<Rightarrow> u32" where
  "entry_remove_attrib attrib e = e AND NOT attrib"

section \<open>The processor's view of memory\<close>

text \<open>Entry \<open>i\<close> of the table at \<open>a\<close> is the word at \<open>a + 4 * i\<close>.\<close>

definition walk :: "(u32 \<Rightarrow> u32) \<Rightarrow> u32 \<Rightarrow> u32 \<Rightarrow> u32 option" where
  "walk m dir v =
     (let pde = m (get_frame_addr dir + 4 * get_directory_index v) in
      if \<not> is_page_present pde then None
      else
        let pte = m (get_frame_addr pde + 4 * get_table_index v) in
        if \<not> is_page_present pte then None
        else Some (get_frame_addr pte + get_frame_offset v))"

definition translate :: "'h vmm \<Rightarrow> u32 \<Rightarrow> u32 option" where
  "translate s v = (if paging_enabled s then walk (mem s) (cr3 s) v else Some v)"

definition load :: "u32 \<Rightarrow> 'h vmm \<Rightarrow> u32 run" where
  "load v s = (case translate s v of None \<Rightarrow> Inl (Page_fault v) | Some p \<Rightarrow> Inr (mem s p))"

definition store :: "u32 \<Rightarrow> u32 \<Rightarrow> 'h vmm \<Rightarrow> 'h vmm run" where
  "store v x s =
     (case translate s v of None \<Rightarrow> Inl (Page_fault v) | Some p \<Rightarrow> Inr (s\<lparr>mem := (mem s)(p := x)\<rparr>))"

text \<open>\<open>*e = f(*e)\<close>.\<close>

definition update :: "(u32 \<Rightarrow> u32) \<Rightarrow> u32 \<Rightarrow> 'h vmm \<Rightarrow> 'h vmm run" where
  "update f e s = bind_run (load e s) (\<lambda>x. store e (f x) s)"

definition page_entry_set_frame :: "u32 \<Rightarrow> u32 \<Rightarrow> 'h vmm \<Rightarrow> 'h vmm run" where
  "page_entry_set_frame e frame_addr s = update (entry_set_frame frame_addr) e s"

definition page_entry_add_attrib :: "u32 \<Rightarrow> u32 \<Rightarrow> 'h vmm \<Rightarrow> 'h vmm run" where
  "page_entry_add_attrib e attrib s = update (entry_add_attrib attrib) e s"

definition page_entry_remove_attrib :: "u32 \<Rightarrow> u32 \<Rightarrow> 'h vmm \<Rightarrow> 'h vmm run" where
  "page_entry_remove_attrib e attrib s = update (entry_remove_attrib attrib) e s"

text \<open>\<open>dir->tables + i\<close> and \<open>table->entries + i\<close>.\<close>

definition entry_addr :: "u32 \<Rightarrow> u32 \<Rightarrow> u32" where
  "entry_addr table i = table + 4 * i"

definition get_page_table_addr :: "u32 \<Rightarrow> u32 \<Rightarrow> 'h vmm \<Rightarrow> u32 run" where
  "get_page_table_addr dir pd_index s =
     (if paging_enabled s then Inr (get_page_table_vir_addr pd_index)
      else bind_run (load (entry_addr dir pd_index) s) (\<lambda>x. Inr (get_frame_addr x)))"

text \<open>\<open>memset\<close> of a page of zeros, word by word.\<close>

fun zero_words :: "u32 \<Rightarrow> nat \<Rightarrow> 'h vmm \<Rightarrow> 'h vmm run" where
  "zero_words a 0 s = Inr s"
| "zero_words a (Suc n) s = bind_run (store a 0 s) (zero_words (a + 4) n)"

section \<open>The queue of swappable pages\<close>

definition fifo_node_at :: "u32 \<Rightarrow> 'h vmm \<Rightarrow> page_fifo_node run" where
  "fifo_node_at p s = (case fifo_nodes s p of Some n \<Rightarrow> Inr n | None \<Rightarrow> Inl (Use_after_free p))"

definition page_fifo_enqueue :: "u32 \<Rightarrow> 'h vmm \<Rightarrow> 'h vmm run" where
  "page_fifo_enqueue node s =
     bind_run (if fifo_head s = 0 then Inr (s\<lparr>fifo_head := node, fifo_tail := node\<rparr>)
               else bind_run (fifo_node_at (fifo_tail s) s) (\<lambda>n.
                 Inr (s\<lparr>fifo_nodes := (fifo_nodes s)(fifo_tail s \<mapsto> n\<lparr>pf_next := node\<rparr>), fifo_tail := node\<rparr>))) (\<lambda>s.
     Inr (s\<lparr>fifo_count := fifo_count s + 1\<rparr>))"

definition page_enqueue :: "'h services \<Rightarrow> u32 \<Rightarrow> 'h vmm \<Rightarrow> (bool \<times> 'h vmm) run" where
  "page_enqueue sv vir_addr s =
     bind_run (sv_kmalloc sv 8 s) (\<lambda>(node, s).
       if node = 0 then Inr (False, s)
       else
         let s = s\<lparr>fifo_nodes := (fifo_nodes s)(node \<mapsto> \<lparr>pf_vir_addr = vir_addr, pf_next = 0\<rparr>)\<rparr> in
         bind_run (page_fifo_enqueue node s) (\<lambda>s. Inr (True, s)))"

definition page_fifo_dequeue :: "'h services \<Rightarrow> 'h vmm \<Rightarrow> (u32 \<times> 'h vmm) run" where
  "page_fifo_dequeue sv s =
     (if fifo_head s = 0 then Inr (0, s)
      else
        let node = fifo_head s in
        bind_run (fifo_node_at node s) (\<lambda>n.
          let s = s\<lparr>fifo_head := pf_next n, fifo_count := fifo_count s - 1\<rparr> in
          bind_run (sv_kfree sv node s) (\<lambda>s.
          Inr (pf_vir_addr n, s\<lparr>fifo_nodes := (fifo_nodes s)(node := None)\<rparr>))))"

definition vmm_get_page_to_swap_out :: "'h services \<Rightarrow> 'h vmm \<Rightarrow> (u32 \<times> 'h vmm) run" where
  "vmm_get_page_to_swap_out sv s = page_fifo_dequeue sv s"

section \<open>Disk slots for a page\<close>

definition page_sectors :: "u32 \<Rightarrow> u32 run" where
  "page_sectors sector_size =
     (if sector_size = 0 then Inl Divide_error
      else Inr (PAGE_SIZE div sector_size + (if PAGE_SIZE mod sector_size \<noteq> 0 then 1 else 0)))"

definition disk_alloc_slots_for_page :: "'h services \<Rightarrow> 'h vmm \<Rightarrow> (u32 \<times> 'h vmm) run" where
  "disk_alloc_slots_for_page sv s =
     bind_run (page_sectors (sv_sector_size sv s)) (\<lambda>sector_amount.
     bind_run (disk_alloc_slots (ucast sector_amount) (slots s)) (\<lambda>(slot, sl).
     Inr (slot, s\<lparr>slots := sl\<rparr>)))"

definition disk_free_slots_for_page :: "'h services \<Rightarrow> u32 \<Rightarrow> 'h vmm \<Rightarrow> 'h vmm run" where
  "disk_free_slots_for_page sv start_slot s =
     bind_run (page_sectors (sv_sector_size sv s)) (\<lambda>sector_amount.
     bind_run (disk_free_slots start_slot (ucast sector_amount) (slots s)) (\<lambda>sl.
     Inr (s\<lparr>slots := sl\<rparr>)))"

text \<open>\<open>while (disk_write(disk_slot, (void * ) get_frame_addr(*e), PAGE_SIZE) != PAGE_SIZE);\<close> and its twin.\<close>

partial_function (option) write_retry :: "'h services \<Rightarrow> u32 \<Rightarrow> u32 \<Rightarrow> 'h vmm \<Rightarrow> 'h vmm run option" where
  "write_retry sv disk_slot e s =
     (case load e s of
        Inl h \<Rightarrow> Some (Inl h)
      | Inr x \<Rightarrow>
          (case sv_disk_write sv disk_slot (get_frame_addr x) PAGE_SIZE s of
             Inl h \<Rightarrow> Some (Inl h)
           | Inr (n, s') \<Rightarrow> if n = PAGE_SIZE then Some (Inr s') else write_retry sv disk_slot e s'))"

partial_function (option) read_retry :: "'h services \<Rightarrow> u32 \<Rightarrow> u32 \<Rightarrow> 'h vmm \<Rightarrow> 'h vmm run option" where
  "read_retry sv disk_slot frame_addr s =
     (case sv_disk_read sv disk_slot frame_addr PAGE_SIZE s of
        Inl h \<Rightarrow> Some (Inl h)
      | Inr (n, s') \<Rightarrow> if n = PAGE_SIZE then Some (Inr s') else read_retry sv disk_slot frame_addr s')"

section \<open>Swapping\<close>

definition vmm_alloc_frame :: "'h vmm \<Rightarrow> u32 \<times> 'h vmm" where
  "vmm_alloc_frame s = (let (a, p) = pmm_alloc_frame (pmm s) in (a, s\<lparr>pmm := p\<rparr>))"

definition vmm_release_frame :: "u32 \<Rightarrow> 'h vmm \<Rightarrow> 'h vmm run" where
  "vmm_release_frame a s = bind_run (pmm_free_frame a (pmm s)) (\<lambda>p. Inr (s\<lparr>pmm := p\<rparr>))"

text \<open>
  \<open>vmm_get_page_entry\<close>, \<open>vmm_swap_in_page\<close> and \<open>vmm_swap_out_page\<close> call each other: a swap-in that finds no
  frame swaps another page out, whose page table may itself have to be swapped in. The bodies take
  \<open>vmm_get_page_entry\<close> as an argument and the recursion is tied below.
\<close>

type_synonym 'h entry_getter = "u32 \<Rightarrow> 'h vmm \<Rightarrow> (u32 \<times> 'h vmm) run"

definition swap_out_page_body :: "'h services \<Rightarrow> 'h entry_getter \<Rightarrow> u32 \<Rightarrow> 'h vmm \<Rightarrow> (bool \<times> 'h vmm) run" where
  "swap_out_page_body sv get_entry vir_addr s =
     bind_run (get_entry vir_addr s) (\<lambda>(e, s).
     bind_run (load e s) (\<lambda>x.
       if \<not> is_page_present x then Inr (False, s)
       else
         bind_run (disk_alloc_slots_for_page sv s) (\<lambda>(disk_slot, s).
           if disk_slot = DISK_NO_SLOT_AVAILABLE then Inr (False, s)
           else
             bind_run (returns (write_retry sv disk_slot e s)) (\<lambda>s.
             bind_run (page_entry_add_attrib e SWAPPED s) (\<lambda>s.
             bind_run (page_entry_remove_attrib e PRESENT s) (\<lambda>s.
             bind_run (page_entry_set_frame e disk_slot s) (\<lambda>s.
             Inr (True, s))))))))"

definition swap_out_some_page_body :: "'h services \<Rightarrow> 'h entry_getter \<Rightarrow> 'h vmm \<Rightarrow> (bool \<times> 'h vmm) run" where
  "swap_out_some_page_body sv get_entry s =
     bind_run (vmm_get_page_to_swap_out sv s) (\<lambda>(vir_addr, s).
       if vir_addr = 0 then Inr (False, s) else swap_out_page_body sv get_entry vir_addr s)"

text \<open>\<open>pmm_alloc_frame\<close>, with one swap-out and one more try when it fails: \<open>None\<close> when both fail.\<close>

definition frame_or_swap :: "'h services \<Rightarrow> 'h entry_getter \<Rightarrow> 'h vmm \<Rightarrow> (u32 option \<times> 'h vmm) run" where
  "frame_or_swap sv get_entry s =
     (let (frame_addr, s) = vmm_alloc_frame s in
      if frame_addr = PMM_NO_FRAME_AVAILABLE then
        bind_run (swap_out_some_page_body sv get_entry s) (\<lambda>(ok, s).
          if \<not> ok then Inr (None, s)
          else
            let (frame_addr, s) = vmm_alloc_frame s in
            Inr (if frame_addr = PMM_NO_FRAME_AVAILABLE then None else Some frame_addr, s))
      else Inr (Some frame_addr, s))"

definition swap_in_page_body :: "'h services \<Rightarrow> 'h entry_getter \<Rightarrow> u32 \<Rightarrow> 'h vmm \<Rightarrow> (bool \<times> 'h vmm) run" where
  "swap_in_page_body sv get_entry e s =
     bind_run (frame_or_swap sv get_entry s) (\<lambda>(r, s). case r of
       None \<Rightarrow> Inr (False, s)
     | Some frame_addr \<Rightarrow>
         bind_run (page_entry_set_frame e frame_addr s) (\<lambda>s.
         bind_run (load e s) (\<lambda>x.
         let disk_slot = get_frame_addr x in
         bind_run (returns (read_retry sv disk_slot frame_addr s)) (\<lambda>s.
         bind_run (disk_free_slots_for_page sv disk_slot s) (\<lambda>s.
         bind_run (page_entry_add_attrib e PRESENT s) (\<lambda>s.
         bind_run (page_entry_remove_attrib e SWAPPED s) (\<lambda>s.
         Inr (True, s))))))))"

definition get_page_entry_body :: "'h services \<Rightarrow> 'h entry_getter \<Rightarrow> 'h entry_getter" where
  "get_page_entry_body sv get_entry vir_addr s =
     assert_run (current_directory s \<noteq> 0) ''current_directory != NULL''
       (let pd_index = get_directory_index vir_addr;
            pt_index = get_table_index vir_addr;
            slot = entry_addr (current_directory s) pd_index in
        bind_run (load slot s) (\<lambda>x.
        bind_run (if is_swapped x then
                    bind_run (swap_in_page_body sv get_entry slot s) (\<lambda>(ok, s).
                      if ok then Inr s else Inl (Panic ''Failed to swap in page. Dont know what to do noq''))
                  else Inr s) (\<lambda>s.
        bind_run (load slot s) (\<lambda>x.
          if \<not> is_page_present x then
            Inl (Panic ''Trying to access a page that is not present. how tf did we mange to get here?'')
          else
            bind_run (get_page_table_addr (current_directory s) pd_index s) (\<lambda>page_table.
            Inr (entry_addr page_table pt_index, s))))))"

text \<open>
  Each nested call has taken a page off the queue first, so the length of the queue bounds the depth; a
  call nested deeper cannot happen.
\<close>

fun get_page_entry_depth :: "'h services \<Rightarrow> nat \<Rightarrow> 'h entry_getter" where
  "get_page_entry_depth sv 0 vir_addr s = Inl Halted"
| "get_page_entry_depth sv (Suc n) vir_addr s = get_page_entry_body sv (get_page_entry_depth sv n) vir_addr s"

definition vmm_get_page_entry :: "'h services \<Rightarrow> u32 \<Rightarrow> 'h vmm \<Rightarrow> (u32 \<times> 'h vmm) run" where
  "vmm_get_page_entry sv vir_addr s = get_page_entry_depth sv (unat (fifo_count s) + 1) vir_addr s"

definition vmm_swap_out_page :: "'h services \<Rightarrow> u32 \<Rightarrow> 'h vmm \<Rightarrow> (bool \<times> 'h vmm) run" where
  "vmm_swap_out_page sv vir_addr s = swap_out_page_body sv (vmm_get_page_entry sv) vir_addr s"

definition vmm_swap_out_some_page :: "'h services \<Rightarrow> 'h vmm \<Rightarrow> (bool \<times> 'h vmm) run" where
  "vmm_swap_out_some_page sv s = swap_out_some_page_body sv (vmm_get_page_entry sv) s"

definition vmm_swap_in_page :: "'h services \<Rightarrow> u32 \<Rightarrow> u32 \<Rightarrow> 'h vmm \<Rightarrow> (bool \<times> 'h vmm) run" where
  "vmm_swap_in_page sv e vir_addr s = swap_in_page_body sv (vmm_get_page_entry sv) e s"

section \<open>Mapping pages\<close>

definition vmm_alloc_permanent_page :: "'h services \<Rightarrow> u32 \<Rightarrow> 'h vmm \<Rightarrow> (bool \<times> 'h vmm) run" where
  "vmm_alloc_permanent_page sv e s =
     bind_run (frame_or_swap sv (vmm_get_page_entry sv) s) (\<lambda>(r, s). case r of
       None \<Rightarrow> Inr (False, s)
     | Some frame_addr \<Rightarrow>
         bind_run (page_entry_set_frame e frame_addr s) (\<lambda>s.
         bind_run (page_entry_add_attrib e PRESENT s) (\<lambda>s.
         Inr (True, s))))"

definition vmm_alloc_page :: "'h services \<Rightarrow> u32 \<Rightarrow> u32 \<Rightarrow> 'h vmm \<Rightarrow> (bool \<times> 'h vmm) run" where
  "vmm_alloc_page sv e vir_addr s =
     bind_run (vmm_alloc_permanent_page sv e s) (\<lambda>(ok, s).
       if \<not> ok then Inr (False, s)
       else
         bind_run (page_enqueue sv vir_addr s) (\<lambda>(ok, s).
           if ok then Inr (True, s)
           else
             bind_run (load e s) (\<lambda>x.
             bind_run (vmm_release_frame (get_frame_addr x) s) (\<lambda>s.
             bind_run (page_entry_remove_attrib e PRESENT s) (\<lambda>s.
             Inr (False, s))))))"

definition vmm_free_page :: "u32 \<Rightarrow> 'h vmm \<Rightarrow> 'h vmm run" where
  "vmm_free_page e s =
     bind_run (load e s) (\<lambda>x.
     bind_run (vmm_release_frame (x AND 0xFFFFF000) s) (\<lambda>s.
     store e 0 s))"

text \<open>The first half of \<open>vmm_map_page\<close>: the page table for directory entry \<open>pd_index\<close>, made if need be.\<close>

definition vmm_page_table_for :: "'h services \<Rightarrow> u32 \<Rightarrow> u32 \<Rightarrow> 'h vmm \<Rightarrow> (u32 \<times> 'h vmm) run" where
  "vmm_page_table_for sv page_dir pd_index s =
     (let slot = entry_addr page_dir pd_index in
      bind_run (load slot s) (\<lambda>x.
        if is_page_present x then
          bind_run (get_page_table_addr page_dir pd_index s) (\<lambda>t. Inr (t, s))
        else if is_swapped x then
          bind_run (vmm_swap_in_page sv slot (get_page_table_vir_addr pd_index) s) (\<lambda>(ok, s).
            if \<not> ok then Inl (Panic ''Failed to swap in page. how tf did we mange to get here?'')
            else bind_run (get_page_table_addr page_dir pd_index s) (\<lambda>t. Inr (t, s)))
        else
          bind_run (if \<not> paging_enabled s then vmm_alloc_permanent_page sv slot s
                    else vmm_alloc_page sv slot (get_page_table_vir_addr pd_index) s) (\<lambda>(ok, s).
            if \<not> ok then Inl (Panic ''Failed to allocate a frame for the page table. We fucked up?'')
            else
              bind_run (page_entry_add_attrib slot PAGE_WRITEABLE s) (\<lambda>s.
              bind_run (get_page_table_addr page_dir pd_index s) (\<lambda>t.
              bind_run (zero_words t PAGE_TABLE_SIZE s) (\<lambda>s.
              Inr (t, s)))))))"

definition vmm_map_page :: "'h services \<Rightarrow> u32 \<Rightarrow> u32 \<Rightarrow> u32 \<Rightarrow> u32 \<Rightarrow> 'h vmm \<Rightarrow> 'h vmm run" where
  "vmm_map_page sv page_dir vir_addr phys_addr flags s =
     assert_run (page_dir \<noteq> 0) ''page_dir != NULL''
       (let pd_index = get_directory_index vir_addr; pt_index = get_table_index vir_addr in
        bind_run (vmm_page_table_for sv page_dir pd_index s) (\<lambda>(page_table, s).
        let page_entry = entry_addr page_table pt_index in
        bind_run (page_entry_set_frame page_entry phys_addr s) (\<lambda>s.
        page_entry_add_attrib page_entry (flags OR PRESENT) s)))"

definition vmm_map_page_to_curr_dir :: "'h services \<Rightarrow> u32 \<Rightarrow> u32 \<Rightarrow> u32 \<Rightarrow> 'h vmm \<Rightarrow> 'h vmm run" where
  "vmm_map_page_to_curr_dir sv vir_addr frame_addr flags s =
     assert_run (current_directory s \<noteq> 0) ''current_directory != NULL''
       (vmm_map_page sv (current_directory s) vir_addr frame_addr flags s)"

definition vmm_unmap_page :: "'h services \<Rightarrow> u32 \<Rightarrow> 'h vmm \<Rightarrow> 'h vmm run" where
  "vmm_unmap_page sv vir_addr s =
     assert_run (current_directory s \<noteq> 0) ''current_directory != NULL''
       (bind_run (vmm_get_page_entry sv vir_addr s) (\<lambda>(e, s).
        bind_run (load e s) (\<lambda>x.
          if is_page_present x then
            bind_run (vmm_release_frame (get_frame_addr x) s) (store e 0)
          else if is_swapped x then
            bind_run (disk_free_slots_for_page sv (get_frame_addr x) s) (store e 0)
          else Inr s)))"

text \<open>\<open>fault_addr\<close> is the faulting address the processor leaves in \<open>cr2\<close>.\<close>

definition page_fault_handler :: "'h services \<Rightarrow> u32 \<Rightarrow> u32 \<Rightarrow> 'h vmm \<Rightarrow> 'h vmm run" where
  "page_fault_handler sv fault_addr error_code s =
     bind_run (vmm_get_page_entry sv fault_addr s) (\<lambda>(e, s).
       if \<not> is_page_present_error error_code then
         bind_run (load e s) (\<lambda>x.
           if is_swapped x then
             bind_run (vmm_swap_in_page sv e fault_addr s) (\<lambda>(ok, s).
               if ok then Inr s
               else Inl (Panic ''Failed to swap in page. dont know what to do so lets shut down the computer :)''))
           else
             bind_run (vmm_alloc_page sv e fault_addr s) (\<lambda>(ok, s).
               if ok then Inr s
               else Inl (Panic ''Failed to allocate a frame for the page. how tf did we mange to get here?'')))
       else if \<not> is_cow e then
         if \<not> is_page_user_error error_code then
           Inl (Panic ''Permission error in kernel mode. how tf did we mange to get here?'')
         else Inr s
       else Inr s)"

definition vmm_calc_phys_addr :: "'h services \<Rightarrow> u32 \<Rightarrow> 'h vmm \<Rightarrow> (u32 \<times> 'h vmm) run" where
  "vmm_calc_phys_addr sv vir_addr s =
     bind_run (vmm_get_page_entry sv vir_addr s) (\<lambda>(e, s).
     bind_run (load e s) (\<lambda>x.
       if \<not> is_page_present x then
         Inl (Panic ''Trying to calculate the physical address of a page that is not present'')
       else Inr (get_frame_addr x + get_frame_offset vir_addr, s)))"

section \<open>Address spaces\<close>

definition enable_paging :: "'h vmm \<Rightarrow> 'h vmm" where
  "enable_paging s = s\<lparr>paging_enabled := True\<rparr>"

text \<open>A \<open>vm_context_t\<close> has the directory's virtual address at offset 0 and its physical address at 4.\<close>

definition vmm_switch_vm_context :: "u32 \<Rightarrow> 'h vmm \<Rightarrow> 'h vmm run" where
  "vmm_switch_vm_context vm_context s =
     (if vm_context = 0 then Inl (Panic ''Trying to switch to a NULL vm_context, what the hell are you doing?'')
      else
        bind_run (load vm_context s) (\<lambda>page_dir.
        bind_run (load (vm_context + 4) s) (\<lambda>phys.
        Inr (s\<lparr>current_directory := page_dir, cr3 := phys\<rparr>))))"

definition vmm_create_empty_page_directory :: "'h services \<Rightarrow> 'h vmm \<Rightarrow> (u32 \<times> 'h vmm) run" where
  "vmm_create_empty_page_directory sv s =
     bind_run (sv_kmalloc sv 4096 s) (\<lambda>(page_dir, s).
       if page_dir = 0 then Inr (0, s)
       else bind_run (zero_words page_dir TABLES_PER_DIR s) (\<lambda>s. Inr (page_dir, s)))"

text \<open>The inner and the outer loop of \<open>vmm_destroy_page_directory\<close>, with \<open>n\<close> entries left.\<close>

fun destroy_table :: "u32 \<Rightarrow> u32 \<Rightarrow> nat \<Rightarrow> 'h vmm \<Rightarrow> 'h vmm run" where
  "destroy_table page_table j 0 s = Inr s"
| "destroy_table page_table j (Suc n) s =
     bind_run (load (entry_addr page_table j) s) (\<lambda>x.
     bind_run (if is_page_present x then vmm_release_frame (get_frame_addr x) s else Inr s)
       (destroy_table page_table (j + 1) n))"

fun destroy_tables :: "'h services \<Rightarrow> u32 \<Rightarrow> u32 \<Rightarrow> nat \<Rightarrow> 'h vmm \<Rightarrow> 'h vmm run" where
  "destroy_tables sv page_dir i 0 s = Inr s"
| "destroy_tables sv page_dir i (Suc n) s =
     bind_run (load (entry_addr page_dir i) s) (\<lambda>x.
     bind_run (if is_page_present x then
                 bind_run (get_page_table_addr page_dir i s) (\<lambda>page_table.
                 bind_run (destroy_table page_table 0 PAGE_TABLE_SIZE s) (\<lambda>s.
                 bind_run (load (entry_addr page_dir i) s) (\<lambda>x.
                 vmm_release_frame (get_frame_addr x) s)))
               else Inr s) (\<lambda>s.
     bind_run (load (entry_addr page_dir i) s) (\<lambda>x.
     bind_run (if is_swapped x then disk_free_slots_for_page sv (get_frame_addr x) s else Inr s)
       (destroy_tables sv page_dir (i + 1) n))))"

definition vmm_destroy_page_directory :: "'h services \<Rightarrow> u32 \<Rightarrow> 'h vmm \<Rightarrow> 'h vmm run" where
  "vmm_destroy_page_directory sv page_dir s =
     bind_run (destroy_tables sv page_dir 0 TABLES_PER_DIR s) (sv_kfree sv page_dir)"

text \<open>The copying loop of \<open>vmm_create_vm_context\<close>; the directory is not checked against NULL.\<close>

fun copy_tables :: "u32 \<Rightarrow> u32 \<Rightarrow> u32 \<Rightarrow> nat \<Rightarrow> 'h vmm \<Rightarrow> 'h vmm run" where
  "copy_tables dst src i 0 s = Inr s"
| "copy_tables dst src i (Suc n) s =
     bind_run (load (entry_addr src i) s) (\<lambda>x.
     bind_run (store (entry_addr dst i) x s) (copy_tables dst src (i + 1) n))"

definition vmm_create_vm_context :: "'h services \<Rightarrow> u32 \<Rightarrow> 'h vmm \<Rightarrow> (u32 \<times> 'h vmm) run" where
  "vmm_create_vm_context sv page_dir s =
     bind_run (sv_kmalloc sv 8 s) (\<lambda>(vm_context, s).
       if vm_context = 0 then Inr (0, s)
       else
         bind_run (vmm_create_empty_page_directory sv s) (\<lambda>(dir, s).
         bind_run (store vm_context dir s) (\<lambda>s.
         bind_run (copy_tables dir page_dir 0 (TABLES_PER_DIR - 1) s) (\<lambda>s.
         bind_run (vmm_calc_phys_addr sv dir s) (\<lambda>(phys, s).
         bind_run (store (vm_context + 4) phys s) (\<lambda>s.
         bind_run (store (entry_addr dir RECURSIVE_PAGE_TABLE_INDEX) (phys OR KERNEL_PAGE_FLAGS) s) (\<lambda>s.
         Inr (vm_context, s))))))))"

definition vmm_destroy_vm_context :: "'h services \<Rightarrow> u32 \<Rightarrow> 'h vmm \<Rightarrow> 'h vmm run" where
  "vmm_destroy_vm_context sv vm_context s =
     bind_run (load vm_context s) (\<lambda>page_dir.
     bind_run (vmm_destroy_page_directory sv page_dir s) (sv_kfree sv vm_context))"

section \<open>vmm_init\<close>

fun init_directory :: "u32 \<Rightarrow> u32 \<Rightarrow> nat \<Rightarrow> 'h vmm \<Rightarrow> 'h vmm run" where
  "init_directory dir i 0 s = Inr s"
| "init_directory dir i (Suc n) s =
     bind_run (page_entry_add_attrib (entry_addr dir i) KERNEL_PAGE_FLAGS s) (init_directory dir (i + 1) n)"

text \<open>Identity-map every address of a list, as the four loops do.\<close>

fun identity_map :: "'h services \<Rightarrow> u32 \<Rightarrow> u32 list \<Rightarrow> 'h vmm \<Rightarrow> 'h vmm run" where
  "identity_map sv flags [] s = Inr s"
| "identity_map sv flags (a # as) s =
     bind_run (vmm_map_page_to_curr_dir sv a a flags s) (identity_map sv flags as)"

definition kernel_image :: "layout \<Rightarrow> u32 list" where
  "kernel_image l = map (\<lambda>i. kernel_start l + of_nat i * PAGE_SIZE)
     [0..<unat ((kernel_end l - kernel_start l + PAGE_SIZE - 1) div PAGE_SIZE)]"

definition kernel_stack :: "layout \<Rightarrow> u32 list" where
  "kernel_stack l = map (\<lambda>i. kernel_stack_top l - of_nat i * PAGE_SIZE) [0..<unat (kernel_stack_pages_amount l)]"

definition kernel_heap :: "u32 \<Rightarrow> u32 list" where
  "kernel_heap base = map (\<lambda>i. base + of_nat i * PAGE_SIZE) [0..<unat (KERNEL_HEAP_SIZE div PAGE_SIZE)]"

text \<open>\<open>kdir\<close> is the address of the static \<open>kernel_directory\<close>.\<close>

definition vmm_init :: "'h services \<Rightarrow> layout \<Rightarrow> u32 \<Rightarrow> 'h vmm \<Rightarrow> 'h vmm run" where
  "vmm_init sv l kdir s =
     (let s = s\<lparr>current_directory := kdir\<rparr> in
      bind_run (init_directory kdir 0 TABLES_PER_DIR s) (\<lambda>s.
      bind_run (identity_map sv KERNEL_PAGE_FLAGS (kernel_image l) s) (\<lambda>s.
      bind_run (store (entry_addr kdir RECURSIVE_PAGE_TABLE_INDEX) (kdir OR KERNEL_PAGE_FLAGS) s) (\<lambda>s.
      bind_run (identity_map sv KERNEL_PAGE_FLAGS (kernel_stack l) s) (\<lambda>s.
      let s = s\<lparr>heap_base := ALIGN_TO_PAGE (kernel_stack_top l)\<rparr> in
      bind_run (identity_map sv KERNEL_PAGE_FLAGS (kernel_heap (heap_base s)) s) (\<lambda>s.
      bind_run (vmm_map_page_to_curr_dir sv VGA_ADDRESS VGA_ADDRESS (PRESENT OR PAGE_WRITEABLE) s) (\<lambda>s.
      Inr (enable_paging (s\<lparr>cr3 := kdir\<rparr>)))))))))"

end
