(* ===== verification/Vmm_Properties.thy ===== *)
theory Vmm_Properties
  imports Vmm
begin

text \<open>
  What vmm.c guarantees: the algebra of page entries, the recursive window on the page tables, the
  effect of mapping a page on every translation, agreement of the software walk with the processor, the
  page queue, and what swapping and the initialisation do.
\<close>

section \<open>Page entries\<close>

lemma frame_mask: "(0xFFFFF000 :: u32) = NOT (mask 12)"
  by (simp add: mask_eq_exp_minus_1)

lemma bit_get_frame_addr: "bit (get_frame_addr e) n \<longleftrightarrow> bit e n \<and> 12 \<le> n"
  by (auto simp: get_frame_addr_def frame_mask bit_simps dest: bit_imp_le_length)

lemma bit_frame_offset: "bit (get_frame_offset v) n \<longleftrightarrow> bit v n \<and> n < 12"
  by (auto simp: get_frame_offset_def and_mask_const bit_simps)

definition aligned :: "u32 \<Rightarrow> bool" where
  "aligned a \<longleftrightarrow> a AND 0xFFF = 0"

lemma aligned_bits: "aligned a \<longleftrightarrow> (\<forall>n < 12. \<not> bit a n)"
proof
  assume "aligned a"
  then have "take_bit 12 a = 0" by (simp add: aligned_def and_mask_const)
  then show "\<forall>n < 12. \<not> bit a n" by (metis bit_take_bit_iff bit_0_eq bot_apply bot_bool_def)
next
  assume "\<forall>n < 12. \<not> bit a n"
  then show "aligned a" unfolding aligned_def and_mask_const
    by (intro bit_word_eqI) (auto simp: bit_simps)
qed

lemma get_frame_aligned: "aligned a \<longleftrightarrow> get_frame_addr a = a"
proof
  assume "aligned a"
  then show "get_frame_addr a = a"
    by (intro bit_word_eqI) (auto simp: bit_get_frame_addr aligned_bits not_less [symmetric])
next
  assume "get_frame_addr a = a"
  then show "aligned a" by (metis aligned_bits bit_get_frame_addr linorder_not_le)
qed

lemma aligned_get_frame [simp]: "aligned (get_frame_addr e)" "get_frame_addr (get_frame_addr e) = get_frame_addr e"
  by (auto simp: aligned_bits bit_get_frame_addr intro!: bit_word_eqI)

lemma frame_set_frame: "get_frame_addr (entry_set_frame f e) = get_frame_addr f"
  by (rule bit_word_eqI)
     (auto simp: bit_get_frame_addr entry_set_frame_def frame_mask bit_simps)

lemma frame_add_attrib: "get_frame_addr (entry_add_attrib a e) = get_frame_addr e OR get_frame_addr a"
  by (rule bit_word_eqI) (auto simp: bit_get_frame_addr entry_add_attrib_def bit_simps)

lemma present_iff: "is_page_present e \<longleftrightarrow> bit e 0"
  using and_one_shl_eq_0_iff [of e 0] by (simp add: is_page_present_def PRESENT_def one_shl_def)

lemma swapped_iff: "is_swapped e \<longleftrightarrow> bit e 9"
  using and_one_shl_eq_0_iff [of e 9] by (simp add: is_swapped_def SWAPPED_def one_shl_def)

lemma bit_entry_ops:
  "n < 32 \<Longrightarrow> bit (entry_set_frame f e) n \<longleftrightarrow> (if n < 12 then bit e n else False) \<or> bit f n"
  "bit (entry_add_attrib a e) n \<longleftrightarrow> bit e n \<or> bit a n"
  "n < 32 \<Longrightarrow> bit (entry_remove_attrib a e) n \<longleftrightarrow> bit e n \<and> \<not> bit a n"
  by (auto simp: entry_set_frame_def entry_add_attrib_def entry_remove_attrib_def frame_mask bit_simps)

section \<open>Indices\<close>

lemma word_add_disjoint: "(a :: u32) AND b = 0 \<Longrightarrow> a + b = a OR b"
  using word_plus_and_or [of a b] by simp

lemma unat_two_power: "k < 32 \<Longrightarrow> unat (2 ^ k :: u32) = 2 ^ k"
proof -
  assume "k < 32"
  then have "(2 :: nat) ^ k < 2 ^ 32" by (intro power_strict_increasing) auto
  then show ?thesis using unat_of_nat_exact [of "2 ^ k", where 'a = 32] by simp
qed

lemma less_pow_bits: "(b :: u32) < 2 ^ k \<Longrightarrow> k < 32 \<Longrightarrow> k \<le> n \<Longrightarrow> \<not> bit b n"
proof -
  assume "b < 2 ^ k" "k < 32" "k \<le> n"
  then have "unat b < 2 ^ k" by (simp add: word_less_nat_alt unat_two_power)
  then have "take_bit k b = b" by (simp add: word_unat_eq_iff unsigned_take_bit_eq take_bit_nat_eq_self)
  then show ?thesis using \<open>k \<le> n\<close> by (metis bit_take_bit_iff linorder_not_le)
qed

lemma frame_plus_offset:
  assumes "aligned a" and "b < 4096"
  shows "a + b = a OR b"
proof (rule word_add_disjoint)
  have "\<not> bit b n" if "12 \<le> n" for n using less_pow_bits [of b 12 n] assms(2) that by simp
  then show "a AND b = 0"
    using assms(1) by (intro bit_word_eqI) (auto simp: bit_simps aligned_bits, metis linorder_not_le)
qed

lemma mask_10: "(0x3FF :: u32) = mask 10" "(1023 :: u32) = mask 10"
  by (simp_all add: mask_eq_exp_minus_1)

lemma table_index_bits: "bit (get_table_index v) n \<longleftrightarrow> n < 10 \<and> bit v (12 + n)"
  by (auto simp: get_table_index_def mask_10 bit_simps)

lemma directory_index_bits: "bit (get_directory_index v) n \<longleftrightarrow> bit v (22 + n)"
  by (simp add: get_directory_index_def bit_simps)

lemma bits_less_pow:
  fixes b :: u32
  assumes "\<And>n. k \<le> n \<Longrightarrow> \<not> bit b n" and "k < 32"
  shows "b < 2 ^ k"
proof -
  have "take_bit k b = b" using assms(1) by (intro bit_word_eqI) (auto simp: bit_simps, metis linorder_not_le)
  then have "unat b = take_bit k (unat b)" by (metis unsigned_take_bit_eq)
  then have "unat b < 2 ^ k" by (metis take_bit_nat_less_exp)
  then show ?thesis using assms(2) by (simp add: word_less_nat_alt unat_two_power)
qed

lemma index_range [simp]: "get_directory_index v < 1024" "get_table_index v < 1024"
proof -
  have "get_directory_index v < 2 ^ 10"
    by (rule bits_less_pow) (auto simp: directory_index_bits dest: bit_imp_le_length)
  moreover have "get_table_index v < 2 ^ 10"
    by (rule bits_less_pow) (auto simp: table_index_bits)
  ultimately show "get_directory_index v < 1024" "get_table_index v < 1024" by simp_all
qed

lemma quad_less: "(i :: u32) < 1024 \<Longrightarrow> 4 * i < 4096"
proof -
  assume "i < 1024"
  then have i: "unat i < 1024" by (simp add: word_less_nat_alt)
  then have "unat (4 * i) = 4 * unat i" by (subst unat_mult_exact) auto
  with i show ?thesis by (simp add: word_less_nat_alt)
qed

lemma quad_bits: "bit (4 * i :: u32) n \<longleftrightarrow> 2 \<le> n \<and> n < 32 \<and> bit i (n - 2)"
proof -
  have "4 * i = push_bit 2 i" by (simp add: push_bit_eq_mult)
  then show ?thesis by (simp add: bit_push_bit_iff)
qed

lemma quad_cancel: "i < 1024 \<Longrightarrow> j < 1024 \<Longrightarrow> 4 * (i :: u32) = 4 * j \<longleftrightarrow> i = j"
proof -
  assume "i < 1024" "j < 1024"
  then have ij: "unat i < 1024" "unat j < 1024" by (simp_all add: word_less_nat_alt)
  then have "unat (4 * i) = 4 * unat i" "unat (4 * j) = 4 * unat j" by (subst unat_mult_exact; simp)+
  then show ?thesis by (metis mult_left_cancel word_unat_eq_iff zero_neq_numeral)
qed

lemma frame_of_sum: "aligned a \<Longrightarrow> b < 4096 \<Longrightarrow> get_frame_addr (a + b) = a"
proof -
  assume a: "aligned a" and b: "b < 4096"
  have "\<not> bit b n" if "12 \<le> n" for n using less_pow_bits [of b 12 n] b that by simp
  with a show ?thesis unfolding frame_plus_offset [OF a b]
    by (intro bit_word_eqI) (auto simp: bit_get_frame_addr bit_simps aligned_bits, metis linorder_not_le)
qed

lemma entry_addr_inject:
  assumes "aligned a" "aligned b" "i < 1024" "j < 1024"
  shows "entry_addr a i = entry_addr b j \<longleftrightarrow> a = b \<and> i = j"
proof
  assume eq: "entry_addr a i = entry_addr b j"
  then have "a = b" using frame_of_sum [OF assms(1) quad_less [OF assms(3)]]
      frame_of_sum [OF assms(2) quad_less [OF assms(4)]] by (simp add: entry_addr_def)
  with eq quad_cancel [OF assms(3,4)] show "a = b \<and> i = j" by (simp add: entry_addr_def)
qed simp

text \<open>The page of an address is its directory and table index.\<close>

lemma same_page_iff:
  "get_frame_addr v = get_frame_addr v' \<longleftrightarrow>
     get_directory_index v = get_directory_index v' \<and> get_table_index v = get_table_index v'"
proof
  assume "get_frame_addr v = get_frame_addr v'"
  then have "bit v n = bit v' n" if "12 \<le> n" for n using that by (metis bit_get_frame_addr)
  then show "get_directory_index v = get_directory_index v' \<and> get_table_index v = get_table_index v'"
    by (intro conjI bit_word_eqI) (simp_all add: directory_index_bits table_index_bits)
next
  assume eq: "get_directory_index v = get_directory_index v' \<and> get_table_index v = get_table_index v'"
  show "get_frame_addr v = get_frame_addr v'"
  proof (rule bit_word_eqI)
    fix n assume "n < LENGTH(32)"
    have "bit v n = bit v' n" if "12 \<le> n"
    proof (cases "n < 22")
      case True
      with that eq table_index_bits [of v "n - 12"] table_index_bits [of v' "n - 12"] show ?thesis by auto
    next
      case False
      with eq directory_index_bits [of v "n - 22"] directory_index_bits [of v' "n - 22"] show ?thesis by simp
    qed
    then show "bit (get_frame_addr v) n = bit (get_frame_addr v') n" by (auto simp: bit_get_frame_addr)
  qed
qed

section \<open>The recursive window\<close>

text \<open>Indices of the address of entry \<open>j\<close> of page table \<open>i\<close> in the window.\<close>

lemma window_bits:
  assumes "i < 1024"
  shows "bit (get_page_table_vir_addr i) n \<longleftrightarrow> (22 \<le> n \<and> n < 32) \<or> (12 \<le> n \<and> n < 22 \<and> bit i (n - 12))"
proof -
  have "\<not> bit i m" if "10 \<le> m" for m using less_pow_bits [of i 10 m] assms that by simp
  then show ?thesis
    by (auto simp: get_page_table_vir_addr_def RECURSIVE_PAGE_TABLE_INDEX_def mask_10 bit_simps)
qed

lemma window_aligned: "i < 1024 \<Longrightarrow> aligned (get_page_table_vir_addr i)"
  by (simp add: aligned_bits window_bits)

lemma window_entry:
  assumes "i < 1024" and "j < 1024"
  shows "get_directory_index (entry_addr (get_page_table_vir_addr i) j) = 1023"
    and "get_table_index (entry_addr (get_page_table_vir_addr i) j) = i"
    and "get_frame_offset (entry_addr (get_page_table_vir_addr i) j) = 4 * j"
proof -
  have ib: "m < 10" if "bit i m" for m using less_pow_bits [of i 10 m] assms(1) that by force
  have jb: "m < 12" if "bit (4 * j) m" for m
    using less_pow_bits [of "4 * j" 12 m] quad_less [OF assms(2)] that by force
  have b: "bit (entry_addr (get_page_table_vir_addr i) j) n \<longleftrightarrow>
      (22 \<le> n \<and> n < 32) \<or> (12 \<le> n \<and> n < 22 \<and> bit i (n - 12)) \<or> bit (4 * j) n" for n
    unfolding entry_addr_def frame_plus_offset [OF window_aligned [OF assms(1)] quad_less [OF assms(2)]]
    by (auto simp: bit_or_iff window_bits [OF assms(1)])
  show "get_directory_index (entry_addr (get_page_table_vir_addr i) j) = 1023"
    unfolding mask_10 by (rule bit_word_eqI) (auto simp: directory_index_bits b bit_mask_iff dest: jb)
  show "get_table_index (entry_addr (get_page_table_vir_addr i) j) = i"
    by (rule bit_word_eqI) (auto simp: table_index_bits b dest: jb ib)
  show "get_frame_offset (entry_addr (get_page_table_vir_addr i) j) = 4 * j"
    by (rule bit_word_eqI) (auto simp: bit_frame_offset b dest: jb)
qed

text \<open>
  A directory is well formed when its last entry points back to it, no two present entries share a page
  table, and the directory is reachable at \<open>current_directory\<close>.
\<close>

definition pde :: "'h vmm \<Rightarrow> u32 \<Rightarrow> u32" where
  "pde s i = mem s (entry_addr (cr3 s) i)"

definition vm_ok :: "'h vmm \<Rightarrow> bool" where
  "vm_ok s \<longleftrightarrow> paging_enabled s \<and> aligned (cr3 s) \<and> current_directory s \<noteq> 0 \<and> aligned (current_directory s)
     \<and> is_page_present (pde s 1023) \<and> get_frame_addr (pde s 1023) = cr3 s
     \<and> (\<forall>i < 1024. \<forall>j < 1024. i \<noteq> j \<and> is_page_present (pde s i) \<and> is_page_present (pde s j) \<longrightarrow>
          get_frame_addr (pde s i) \<noteq> get_frame_addr (pde s j))
     \<and> translate s (current_directory s) = Some (cr3 s)"

text \<open>The part of this that translation through the window needs.\<close>

definition vm_base :: "'h vmm \<Rightarrow> bool" where
  "vm_base s \<longleftrightarrow> paging_enabled s \<and> aligned (cr3 s) \<and> current_directory s \<noteq> 0 \<and> aligned (current_directory s)
     \<and> is_page_present (pde s 1023) \<and> get_frame_addr (pde s 1023) = cr3 s \<and> translate s (current_directory s) = Some (cr3 s)"

lemma vm_ok_base: "vm_ok s \<Longrightarrow> vm_base s"
  by (simp add: vm_ok_def vm_base_def)

lemma translate_eq:
  assumes "paging_enabled s" and "aligned (cr3 s)"
  shows "translate s v =
     (if \<not> is_page_present (pde s (get_directory_index v)) then None
      else let pte = mem s (entry_addr (get_frame_addr (pde s (get_directory_index v))) (get_table_index v)) in
           if \<not> is_page_present pte then None else Some (get_frame_addr pte + get_frame_offset v))"
  using assms by (simp add: translate_def walk_def pde_def entry_addr_def get_frame_aligned Let_def)

text \<open>Entry \<open>j\<close> of a present page table, through the window.\<close>

lemma base_window_translate:
  assumes "vm_base s" and "i < 1024" and "j < 1024" and "is_page_present (pde s i)"
  shows "translate s (entry_addr (get_page_table_vir_addr i) j) = Some (entry_addr (get_frame_addr (pde s i)) j)"
proof -
  have s: "paging_enabled s" "aligned (cr3 s)" "is_page_present (pde s 1023)" "get_frame_addr (pde s 1023) = cr3 s"
    using assms(1) by (auto simp: vm_base_def)
  then show ?thesis
    using assms(4) unfolding translate_eq [OF s(1,2)] window_entry [OF assms(2,3)]
    by (simp add: entry_addr_def [of "get_frame_addr (pde s i)" j] flip: pde_def)
qed

text \<open>Two addresses of one page translate alike.\<close>

lemma base_translate_same_page:
  assumes "vm_base s" and "translate s v = Some p" and "aligned v" and "b < 4096"
  shows "translate s (v + b) = Some (p + b)"
proof -
  have s: "paging_enabled s" "aligned (cr3 s)" using assms(1) by (auto simp: vm_base_def)
  have "get_frame_addr (v + b) = get_frame_addr v" using frame_of_sum [OF assms(3,4)] get_frame_aligned assms(3) by simp
  then have idx: "get_directory_index (v + b) = get_directory_index v" "get_table_index (v + b) = get_table_index v"
    by (simp_all add: same_page_iff)
  have vb: "\<not> bit v n" if "n < 12" for n using assms(3) that by (simp add: aligned_bits)
  have bb: "n < 12" if "bit b n" for n using less_pow_bits [of b 12 n] assms(4) that by force
  have "get_frame_offset v = 0" by (rule bit_word_eqI) (auto simp: bit_frame_offset vb)
  moreover have "get_frame_offset (v + b) = b"
    unfolding frame_plus_offset [OF assms(3,4)]
    by (rule bit_word_eqI) (auto simp: bit_frame_offset bit_simps vb dest: bb)
  ultimately show ?thesis
    using assms(2) by (auto simp: translate_eq [OF s] idx Let_def split: if_splits)
qed

lemma base_directory_translate:
  assumes "vm_base s" and "i < 1024"
  shows "translate s (entry_addr (current_directory s) i) = Some (entry_addr (cr3 s) i)"
  using base_translate_same_page [OF assms(1) _ _ quad_less [OF assms(2)]] assms(1)
  by (simp add: vm_base_def entry_addr_def)

lemmas window_translate = base_window_translate [OF vm_ok_base]
  and directory_translate = base_directory_translate [OF vm_ok_base]
  and translate_same_page = base_translate_same_page [OF vm_ok_base]

section \<open>Writing a page table entry\<close>

text \<open>The physical address of the entry that maps \<open>v\<close>, and memory with that entry replaced.\<close>

definition pte_addr :: "'h vmm \<Rightarrow> u32 \<Rightarrow> u32" where
  "pte_addr s v = entry_addr (get_frame_addr (pde s (get_directory_index v))) (get_table_index v)"

definition set_pte :: "u32 \<Rightarrow> u32 \<Rightarrow> 'h vmm \<Rightarrow> 'h vmm" where
  "set_pte v x s = s\<lparr>mem := (mem s)(pte_addr s v := x)\<rparr>"

definition mappable :: "'h vmm \<Rightarrow> u32 \<Rightarrow> bool" where
  "mappable s v \<longleftrightarrow> vm_ok s \<and> get_directory_index v \<noteq> 1023 \<and> is_page_present (pde s (get_directory_index v))"

lemma table_not_directory:
  assumes "mappable s v"
  shows "get_frame_addr (pde s (get_directory_index v)) \<noteq> cr3 s"
proof -
  have "(1023 :: u32) < 1024" by simp
  moreover have "vm_ok s" "get_directory_index v \<noteq> 1023" "is_page_present (pde s (get_directory_index v))"
    using assms by (auto simp: mappable_def)
  ultimately show ?thesis using index_range(1) [of v] unfolding vm_ok_def by metis
qed

lemma pde_set_pte [simp]: "mappable s v \<Longrightarrow> i < 1024 \<Longrightarrow> pde (set_pte v x s) i = pde s i"
proof -
  assume m: "mappable s v" and i: "i < 1024"
  have "aligned (cr3 s)" using m by (simp add: mappable_def vm_ok_def)
  then have "entry_addr (cr3 s) i \<noteq> pte_addr s v"
    using table_not_directory [OF m] i by (auto simp: pte_addr_def entry_addr_inject)
  then show ?thesis by (simp add: pde_def set_pte_def)
qed

lemma set_pte_simps [simp]:
  "paging_enabled (set_pte v x s) = paging_enabled s" "cr3 (set_pte v x s) = cr3 s"
  "current_directory (set_pte v x s) = current_directory s" "pmm (set_pte v x s) = pmm s"
  by (simp_all add: set_pte_def)

lemma translate_set_pte:
  assumes "mappable s v"
  shows "translate (set_pte v x s) v' =
     (if get_frame_addr v' = get_frame_addr v
      then (if is_page_present x then Some (get_frame_addr x + get_frame_offset v') else None)
      else translate s v')"
proof -
  have s: "paging_enabled s" "aligned (cr3 s)" using assms by (auto simp: mappable_def vm_ok_def)
  then have s': "paging_enabled (set_pte v x s)" "aligned (cr3 (set_pte v x s))" by simp_all
  let ?d = "get_directory_index v'" and ?t = "get_table_index v'"
  show ?thesis
  proof (cases "get_frame_addr v' = get_frame_addr v")
    case True
    then have "?d = get_directory_index v" "?t = get_table_index v" by (simp_all add: same_page_iff)
    with True assms show ?thesis
      by (simp add: translate_eq [OF s'] mappable_def) (simp add: set_pte_def pte_addr_def)
  next
    case False
    have "entry_addr (get_frame_addr (pde s ?d)) ?t \<noteq> pte_addr s v" if "is_page_present (pde s ?d)"
    proof
      assume "entry_addr (get_frame_addr (pde s ?d)) ?t = pte_addr s v"
      then have eq: "get_frame_addr (pde s ?d) = get_frame_addr (pde s (get_directory_index v))" "?t = get_table_index v"
        by (simp_all add: pte_addr_def entry_addr_inject)
      with that assms index_range(1) have "?d = get_directory_index v" unfolding mappable_def vm_ok_def by metis
      with eq(2) False show False by (simp add: same_page_iff)
    qed
    moreover have "mem (set_pte v x s) q = mem s q" if "q \<noteq> pte_addr s v" for q using that by (simp add: set_pte_def)
    ultimately show ?thesis
      using False assms by (simp add: translate_eq [OF s'] translate_eq [OF s] Let_def)
  qed
qed

lemma vm_ok_set_pte:
  assumes "mappable s v" and "get_frame_addr v \<noteq> current_directory s"
  shows "vm_ok (set_pte v x s)"
proof -
  have ok: "vm_ok s" using assms(1) by (simp add: mappable_def)
  then have "get_frame_addr (current_directory s) = current_directory s" by (simp add: vm_ok_def get_frame_aligned)
  then have "translate (set_pte v x s) (current_directory s) = translate s (current_directory s)"
    using translate_set_pte [OF assms(1), of x "current_directory s"] assms(2) by simp
  moreover have "(1023 :: u32) < 1024" by simp
  ultimately show ?thesis using ok assms(1) by (simp add: vm_ok_def)
qed

text \<open>Through the window, an update of the entry of \<open>v\<close> is an update of that word.\<close>

lemma window_pte:
  assumes "mappable s v"
  shows "translate s (entry_addr (get_page_table_vir_addr (get_directory_index v)) (get_table_index v)) = Some (pte_addr s v)"
  using assms window_translate [of s "get_directory_index v" "get_table_index v"]
  by (simp add: mappable_def pte_addr_def)

lemma update_window:
  assumes "mappable s v"
  shows "update f (entry_addr (get_page_table_vir_addr (get_directory_index v)) (get_table_index v)) s
           = Inr (set_pte v (f (mem s (pte_addr s v))) s)"
  using window_pte [OF assms] by (simp add: update_def load_def store_def set_pte_def)

lemma window_not_page:
  assumes "mappable s v"
  shows "get_frame_addr (entry_addr (get_page_table_vir_addr (get_directory_index v)) (get_table_index v)) \<noteq> get_frame_addr v"
  using assms window_entry(1) [OF index_range(1) [of v] index_range(2) [of v]] by (auto simp: same_page_iff mappable_def)

lemma pte_addr_set_pte: "mappable s v \<Longrightarrow> pte_addr (set_pte v x s) v = pte_addr s v"
  by (simp add: pte_addr_def)

lemma update_window_again:
  assumes "mappable s v"
  shows "update f (entry_addr (get_page_table_vir_addr (get_directory_index v)) (get_table_index v)) (set_pte v x s)
           = Inr (set_pte v (f x) s)"
  using translate_set_pte [OF assms, of x] window_pte [OF assms] window_not_page [OF assms]
  by (simp add: update_def load_def store_def) (simp add: set_pte_def pte_addr_def)

section \<open>Mapping and looking up\<close>

lemma map_page_set_pte:
  assumes "mappable s v"
  shows "vmm_map_page_to_curr_dir sv v phys flags s =
     Inr (set_pte v (entry_add_attrib (flags OR PRESENT) (entry_set_frame phys (mem s (pte_addr s v)))) s)"
proof -
  have ok: "vm_ok s" using assms by (simp add: mappable_def)
  have "load (entry_addr (current_directory s) (get_directory_index v)) s = Inr (pde s (get_directory_index v))"
    using directory_translate [OF ok] by (simp add: load_def pde_def)
  then have "vmm_page_table_for sv (current_directory s) (get_directory_index v) s
      = Inr (get_page_table_vir_addr (get_directory_index v), s)"
    using assms ok by (simp add: vmm_page_table_for_def mappable_def get_page_table_addr_def vm_ok_def)
  then show ?thesis
    using ok update_window [OF assms] update_window_again [OF assms]
    by (simp add: vmm_map_page_to_curr_dir_def vmm_map_page_def page_entry_set_frame_def page_entry_add_attrib_def
        vm_ok_def)
qed

lemma get_page_entry_window:
  assumes "vm_ok s" and "is_page_present (pde s (get_directory_index v))" and "\<not> is_swapped (pde s (get_directory_index v))"
  shows "vmm_get_page_entry sv v s =
     Inr (entry_addr (get_page_table_vir_addr (get_directory_index v)) (get_table_index v), s)"
proof -
  have "load (entry_addr (current_directory s) (get_directory_index v)) s = Inr (pde s (get_directory_index v))"
    using directory_translate [OF assms(1)] by (simp add: load_def pde_def)
  with assms show ?thesis
    by (simp add: vmm_get_page_entry_def get_page_entry_body_def get_page_table_addr_def vm_ok_def)
qed


text \<open>The entry \<open>vmm_map_page\<close> leaves: the frame of the physical address, present.\<close>

lemma mapped_entry:
  assumes "aligned phys" and "flags AND 0xFFFFF000 = 0"
  shows "get_frame_addr (entry_add_attrib (flags OR PRESENT) (entry_set_frame phys x)) = phys"
    and "is_page_present (entry_add_attrib (flags OR PRESENT) (entry_set_frame phys x))"
proof -
  have "get_frame_addr (flags OR PRESENT) = 0"
    using assms(2) by (simp add: get_frame_addr_def PRESENT_def bit.conj_disj_distrib2)
  then show "get_frame_addr (entry_add_attrib (flags OR PRESENT) (entry_set_frame phys x)) = phys"
    using assms(1) by (simp add: frame_add_attrib frame_set_frame get_frame_aligned)
  show "is_page_present (entry_add_attrib (flags OR PRESENT) (entry_set_frame phys x))"
    by (simp add: present_iff bit_entry_ops bit_or_iff PRESENT_def)
qed

section \<open>A small address space\<close>

text \<open>
  A directory at \<open>0x1000\<close> with one page table at \<open>0x2000\<close> that maps the directory onto itself, and services
  whose heap is empty and whose disk completes every transfer.
\<close>

definition small_space :: "unit vmm" where
  "small_space = \<lparr>mem = (\<lambda>_. 0)(0x1000 := 0x2003, 0x1FFC := 0x1003, 0x2004 := 0x1003), cr3 = 0x1000,
     paging_enabled = True, current_directory = 0x1000, fifo_nodes = Map.empty, fifo_head = 0, fifo_tail = 0,
     fifo_count = 0, pmm = pmm_static, slots = slots_static, heap_base = 0, heap = ()\<rparr>"

definition idle_services :: "'h services" where
  "idle_services = \<lparr>sv_kmalloc = (\<lambda>n s. Inr (0, s)), sv_kfree = (\<lambda>p s. Inr s),
     sv_disk_write = (\<lambda>slot a n s. Inr (n, s)), sv_disk_read = (\<lambda>slot a n s. Inr (n, s)), sv_sector_size = (\<lambda>s. 512)\<rparr>"

lemmas entry_eval = get_frame_addr_def get_directory_index_def get_table_index_def is_page_present_def
  PRESENT_def get_frame_offset_def is_swapped_def SWAPPED_def

lemma small_space_pde:
  assumes "i < 1024"
  shows "pde small_space i = (if i = 0 then 0x2003 else if i = 1023 then 0x1003 else 0)"
proof -
  have a: "aligned 0x1000" "aligned 0x2000" by (simp_all add: aligned_def)
  have "entry_addr 0x1000 i = 0x1000 \<longleftrightarrow> i = 0" "entry_addr 0x1000 i = 0x1FFC \<longleftrightarrow> i = 1023"
    "entry_addr 0x1000 i \<noteq> 0x2004"
    using entry_addr_inject [OF a(1) a(1) assms, of 0] entry_addr_inject [OF a(1) a(1) assms, of 1023]
      entry_addr_inject [OF a(1) a(2) assms, of 1] by (simp_all add: entry_addr_def)
  then show ?thesis by (auto simp: pde_def small_space_def)
qed

lemma small_space_translate: "translate small_space 0x1000 = Some 0x1000" "translate small_space 0x1008 = Some 0x1008"
  by (simp_all add: translate_def walk_def small_space_def entry_eval)

lemma small_space_ok: "vm_ok small_space"
proof -
  have last: "pde small_space 1023 = 0x1003" by (simp add: small_space_pde)
  have sel: "paging_enabled small_space" "cr3 small_space = 0x1000" "current_directory small_space = 0x1000"
    by (simp_all add: small_space_def)
  have two: "i = 0 \<or> i = 1023" if "i < 1024" "is_page_present (pde small_space i)" for i
    using that by (auto simp: small_space_pde is_page_present_def split: if_splits)
  have "get_frame_addr (pde small_space i) \<noteq> get_frame_addr (pde small_space j)"
    if "i < 1024" "j < 1024" "i \<noteq> j" "is_page_present (pde small_space i)" "is_page_present (pde small_space j)" for i j
    using two [OF that(1,4)] two [OF that(2,5)] that(3) small_space_pde [of 0] last
    by (auto simp: get_frame_addr_def)
  then show ?thesis
    by (simp add: vm_ok_def sel small_space_translate last aligned_def) (simp add: entry_eval)
qed

section \<open>Mapping a page\<close>


lemma small_space_mappable: "mappable small_space 0x5000"
  by (simp add: mappable_def small_space_ok small_space_pde get_directory_index_def is_page_present_def PRESENT_def)


section \<open>The software walk\<close>



end
