(* ===== verification/Vmm_Swap.thy ===== *)
theory Vmm_Swap
  imports Vmm_Properties
begin

text \<open>
  The queue of swappable pages and swapping: the queue is first in, first out; it bounds the depth of the
  recursion between looking up a page entry and swapping; swapping out gives no frame back, and swapping
  in reads the disk at the new frame's address instead of the page's slot.
\<close>

section \<open>The page queue as a list\<close>

fun page_chain :: "(u32 \<rightharpoonup> page_fifo_node) \<Rightarrow> u32 \<Rightarrow> u32 list \<Rightarrow> bool" where
  "page_chain ns p [] \<longleftrightarrow> p = 0"
| "page_chain ns p (a # as) \<longleftrightarrow> p = a \<and> p \<noteq> 0 \<and> (\<exists>n. ns p = Some n \<and> page_chain ns (pf_next n) as)"

text \<open>The nodes of the queue in order; the tail pointer is only meaningful while there are nodes.\<close>

definition page_queue :: "'h vmm \<Rightarrow> u32 list \<Rightarrow> bool" where
  "page_queue s as \<longleftrightarrow> page_chain (fifo_nodes s) (fifo_head s) as \<and> distinct as
     \<and> (as \<noteq> [] \<longrightarrow> fifo_tail s = last as) \<and> unat (fifo_count s) = length as"

definition queued_pages :: "'h vmm \<Rightarrow> u32 list \<Rightarrow> u32 list" where
  "queued_pages s as = map (\<lambda>a. pf_vir_addr (the (fifo_nodes s a))) as"

definition same_queue :: "'h vmm \<Rightarrow> 'h vmm \<Rightarrow> bool" where
  "same_queue s s' \<longleftrightarrow> fifo_nodes s' = fifo_nodes s \<and> fifo_head s' = fifo_head s \<and> fifo_tail s' = fifo_tail s
     \<and> fifo_count s' = fifo_count s"

lemma same_queue_refl [simp]: "same_queue s s"
  by (simp add: same_queue_def)

lemma same_queue_trans: "same_queue s s1 \<Longrightarrow> same_queue s1 s2 \<Longrightarrow> same_queue s s2"
  by (simp add: same_queue_def)

lemma page_queue_same: "same_queue s s' \<Longrightarrow> page_queue s' as \<longleftrightarrow> page_queue s as"
  "same_queue s s' \<Longrightarrow> queued_pages s' as = queued_pages s as"
  by (simp_all add: page_queue_def same_queue_def queued_pages_def)

lemma page_chain_other: "a \<notin> set as \<Longrightarrow> page_chain (ns(a := x)) p as \<longleftrightarrow> page_chain ns p as"
  by (induction as arbitrary: p) auto

lemma page_chain_nodes: "page_chain ns p as \<Longrightarrow> a \<in> set as \<Longrightarrow> \<exists>n. ns a = Some n"
  by (induction as arbitrary: p) auto

lemma page_chain_snoc:
  assumes "page_chain ns p (as @ [t])" and "distinct (as @ [t])" and "b \<notin> set (as @ [t])" and "b \<noteq> 0" and "ns t = Some n"
  shows "page_chain (ns(b \<mapsto> \<lparr>pf_vir_addr = v, pf_next = 0\<rparr>, t \<mapsto> n\<lparr>pf_next := b\<rparr>)) p (as @ [t, b])"
  using assms by (induction as arbitrary: p) auto

lemma enqueue_appends:
  assumes "page_queue s as" and "node \<noteq> 0" and "node \<notin> set as" and "length as + 1 < 2 ^ 32"
  shows "\<exists>s'. page_fifo_enqueue node (s\<lparr>fifo_nodes := (fifo_nodes s)(node \<mapsto> \<lparr>pf_vir_addr = v, pf_next = 0\<rparr>)\<rparr>) = Inr s'
     \<and> page_queue s' (as @ [node]) \<and> queued_pages s' (as @ [node]) = queued_pages s as @ [v]"
proof -
  let ?s = "s\<lparr>fifo_nodes := (fifo_nodes s)(node \<mapsto> \<lparr>pf_vir_addr = v, pf_next = 0\<rparr>)\<rparr>"
  have count: "unat (fifo_count s + 1) = Suc (length as)"
    using assms(1,4) by (subst unat_add_exact) (auto simp: page_queue_def)
  show ?thesis
  proof (cases as rule: rev_cases)
    case Nil
    with assms count show ?thesis by (simp add: page_fifo_enqueue_def page_queue_def queued_pages_def)
  next
    case (snoc bs t)
    then have q: "page_chain (fifo_nodes s) (fifo_head s) (bs @ [t])" "distinct (bs @ [t])" "fifo_tail s = t"
      using assms(1) by (auto simp: page_queue_def)
    obtain n where n: "fifo_nodes s t = Some n" using page_chain_nodes [OF q(1), of t] by auto
    have "t \<noteq> node" using assms(3) snoc by auto
    moreover have "fifo_head s \<noteq> 0" using q(1) by (cases bs) auto
    moreover note page_chain_snoc [OF q(1,2) assms(3) [unfolded snoc] assms(2) n, of v]
    ultimately show ?thesis
      using n snoc q assms(3) count
      by (auto simp: page_fifo_enqueue_def fifo_node_at_def page_queue_def queued_pages_def)
  qed
qed

lemma dequeue_oldest:
  assumes "page_queue s (a # bs)" and "\<forall>s0. \<exists>s1. sv_kfree sv a s0 = Inr s1 \<and> same_queue s0 s1"
  shows "\<exists>s'. page_fifo_dequeue sv s = Inr (pf_vir_addr (the (fifo_nodes s a)), s') \<and> page_queue s' bs
     \<and> queued_pages s' bs = queued_pages s bs"
proof -
  obtain n where n: "fifo_head s = a" "a \<noteq> 0" "fifo_nodes s a = Some n" "page_chain (fifo_nodes s) (pf_next n) bs"
      "a \<notin> set bs" "distinct bs"
    using assms(1) by (auto simp: page_queue_def)
  have "unat (fifo_count s - 1) = length bs" using assms(1) by (subst unat_pred) (auto simp: page_queue_def)
  moreover obtain s1 where "sv_kfree sv a (s\<lparr>fifo_head := pf_next n, fifo_count := fifo_count s - 1\<rparr>) = Inr s1"
    "same_queue (s\<lparr>fifo_head := pf_next n, fifo_count := fifo_count s - 1\<rparr>) s1" using assms(2) by blast
  ultimately show ?thesis
    using n assms(1)
    by (auto simp: page_fifo_dequeue_def fifo_node_at_def same_queue_def page_queue_def queued_pages_def
        page_chain_other Let_def split: if_splits)
qed

text \<open>
  C24. The page queue is first in, first out. When \<open>kmalloc\<close> hands out a fresh node and leaves the queue alone,
  \<open>page_enqueue\<close> appends the page; when \<open>kfree\<close> leaves the queue alone, \<open>page_fifo_dequeue\<close> returns the oldest page
  (0 from an empty queue) and keeps the rest in order, even though the tail pointer is left dangling when
  the queue empties.
\<close>

theorem page_queue_fifo:
  assumes "page_queue s as" and "length as + 1 < 2 ^ 32"
    and "sv_kmalloc sv 8 s = Inr (node, s1)" and "same_queue s s1" and "node \<noteq> 0" and "node \<notin> set as"
    and "\<forall>s0. \<exists>s1. sv_kfree sv (hd as) s0 = Inr s1 \<and> same_queue s0 s1"
  shows "(\<exists>s'. page_enqueue sv v s = Inr (True, s') \<and> page_queue s' (as @ [node])
             \<and> queued_pages s' (as @ [node]) = queued_pages s as @ [v])
     \<and> (\<exists>s'. page_fifo_dequeue sv s = Inr (if as = [] then 0 else hd (queued_pages s as), s') \<and> page_queue s' (tl as)
             \<and> queued_pages s' (tl as) = tl (queued_pages s as))"
proof
  show "\<exists>s'. page_enqueue sv v s = Inr (True, s') \<and> page_queue s' (as @ [node])
      \<and> queued_pages s' (as @ [node]) = queued_pages s as @ [v]"
    using enqueue_appends [of s1 as node v] assms page_queue_same [OF assms(4)]
    by (auto simp: page_enqueue_def Let_def)
  show "\<exists>s'. page_fifo_dequeue sv s = Inr (if as = [] then 0 else hd (queued_pages s as), s') \<and> page_queue s' (tl as)
      \<and> queued_pages s' (tl as) = tl (queued_pages s as)"
  proof (cases as)
    case Nil
    with assms(1) show ?thesis by (simp add: page_queue_def page_fifo_dequeue_def queued_pages_def)
  next
    case (Cons a bs)
    with assms(1,7) dequeue_oldest [of s a bs sv] show ?thesis by (simp add: queued_pages_def)
  qed
qed

text \<open>Services whose heap hands out increasing addresses.\<close>

definition bump_services :: "u32 services" where
  "bump_services = \<lparr>sv_kmalloc = (\<lambda>n s. Inr (heap s, s\<lparr>heap := heap s + n\<rparr>)), sv_kfree = (\<lambda>p s. Inr s),
     sv_disk_write = (\<lambda>slot a n s. Inr (n, s)), sv_disk_read = (\<lambda>slot a n s. Inr (n, s)), sv_sector_size = (\<lambda>s. 512)\<rparr>"

definition one_page_queued :: "u32 vmm" where
  "one_page_queued = \<lparr>mem = mem small_space, cr3 = 0x1000, paging_enabled = True, current_directory = 0x1000,
     fifo_nodes = [0x100 \<mapsto> \<lparr>pf_vir_addr = 0x7000, pf_next = 0\<rparr>], fifo_head = 0x100, fifo_tail = 0x100, fifo_count = 1,
     pmm = pmm_static, slots = slots_static, heap_base = 0, heap = 0x200\<rparr>"

lemma one_page_queued_ok: "page_queue one_page_queued [0x100]"
  by (simp add: page_queue_def one_page_queued_def)

theorem page_queue_fifo_witness:
  "(\<exists>s'. page_enqueue bump_services 0x8000 one_page_queued = Inr (True, s') \<and> queued_pages s' [0x100, 0x200] = [0x7000, 0x8000])
     \<and> (\<exists>s'. page_fifo_dequeue bump_services one_page_queued = Inr (0x7000, s') \<and> page_queue s' [])"
proof -
  have "sv_kmalloc bump_services 8 one_page_queued = Inr (0x200, one_page_queued\<lparr>heap := 0x208\<rparr>)"
    by (simp add: bump_services_def one_page_queued_def)
  moreover have "same_queue one_page_queued (one_page_queued\<lparr>heap := 0x208\<rparr>)" by (simp add: same_queue_def)
  moreover have "queued_pages one_page_queued [0x100] = [0x7000]" by (simp add: queued_pages_def one_page_queued_def)
  ultimately show ?thesis
    using page_queue_fifo [OF one_page_queued_ok, where sv = bump_services and v = "0x8000"]
    by (auto simp: bump_services_def)
qed

section \<open>The depth of the recursion\<close>

text \<open>A lookup only recurses on a state from which a page has been dequeued.\<close>

definition frees_quietly :: "'h services \<Rightarrow> bool" where
  "frees_quietly sv \<longleftrightarrow> (\<forall>p s. \<exists>s'. sv_kfree sv p s = Inr s' \<and> same_queue s s')"

lemma alloc_frame_queue: "vmm_alloc_frame s = (a, s') \<Longrightarrow> same_queue s s'"
  by (auto simp: vmm_alloc_frame_def same_queue_def split: prod.splits)

lemma swap_out_some_cong:
  assumes "page_queue s as" and "frees_quietly sv"
    and "\<And>v s' bs. page_queue s' bs \<Longrightarrow> length bs < length as \<Longrightarrow> g v s' = g' v s'"
  shows "swap_out_some_page_body sv g s = swap_out_some_page_body sv g' s"
proof (cases as)
  case Nil
  with assms(1) have "fifo_head s = 0" by (simp add: page_queue_def)
  then show ?thesis by (simp add: swap_out_some_page_body_def vmm_get_page_to_swap_out_def page_fifo_dequeue_def)
next
  case (Cons a bs)
  with assms(1,2) obtain v s' where "page_fifo_dequeue sv s = Inr (v, s')" "page_queue s' bs"
    using dequeue_oldest [of s a bs sv] by (auto simp: frees_quietly_def)
  with assms(3) [of s' bs] Cons show ?thesis
    by (simp add: swap_out_some_page_body_def vmm_get_page_to_swap_out_def swap_out_page_body_def)
qed

lemma frame_or_swap_cong:
  assumes "page_queue s as" and "frees_quietly sv"
    and "\<And>v s' bs. page_queue s' bs \<Longrightarrow> length bs < length as \<Longrightarrow> g v s' = g' v s'"
  shows "frame_or_swap sv g s = frame_or_swap sv g' s"
proof -
  obtain a s1 where a: "vmm_alloc_frame s = (a, s1)" by fastforce
  then have "page_queue s1 as" using alloc_frame_queue page_queue_same(1) assms(1) by blast
  then have "swap_out_some_page_body sv g s1 = swap_out_some_page_body sv g' s1"
    using assms(2,3) by (rule swap_out_some_cong)
  with a show ?thesis by (simp add: frame_or_swap_def)
qed

lemma get_page_entry_body_cong:
  assumes "page_queue s as" and "frees_quietly sv"
    and "\<And>v s' bs. page_queue s' bs \<Longrightarrow> length bs < length as \<Longrightarrow> g v s' = g' v s'"
  shows "get_page_entry_body sv g v s = get_page_entry_body sv g' v s"
proof -
  have "frame_or_swap sv g s = frame_or_swap sv g' s" using assms by (rule frame_or_swap_cong)
  then have "swap_in_page_body sv g e s = swap_in_page_body sv g' e s" for e by (simp add: swap_in_page_body_def)
  then show ?thesis by (simp add: get_page_entry_body_def Let_def cong: if_cong)
qed

lemma depth_enough:
  assumes "frees_quietly sv"
  shows "page_queue s as \<Longrightarrow> length as < n \<Longrightarrow> length as < k \<Longrightarrow> get_page_entry_depth sv n v s = get_page_entry_depth sv k v s"
proof (induction "length as" arbitrary: as s v n k rule: less_induct)
  case less
  then obtain n' k' where nk: "n = Suc n'" "k = Suc k'" by (metis not_less_zero old.nat.exhaust)
  have "get_page_entry_body sv (get_page_entry_depth sv n') v s = get_page_entry_body sv (get_page_entry_depth sv k') v s"
  proof (rule get_page_entry_body_cong [OF less.prems(1) assms])
    fix v bs and s' :: "'a vmm" assume "page_queue s' bs" "length bs < length as"
    with less.prems(2,3) nk show "get_page_entry_depth sv n' v s' = get_page_entry_depth sv k' v s'"
      by (intro less.hyps [of bs s']) simp_all
  qed
  with nk show ?case by simp
qed




section \<open>Swapping out\<close>

definition swapped_entry :: "u32 \<Rightarrow> u32 \<Rightarrow> u32" where
  "swapped_entry slot x = entry_set_frame slot (entry_remove_attrib PRESENT (entry_add_attrib SWAPPED x))"

lemma swapped_entry_bits:
  "is_swapped (swapped_entry slot x)" "is_page_present (swapped_entry slot x) \<longleftrightarrow> bit slot 0"
  "get_frame_addr (swapped_entry slot x) = get_frame_addr slot"
proof -
  have "bit SWAPPED 9" "\<not> bit PRESENT 9" "bit PRESENT 0" by (simp_all add: SWAPPED_def PRESENT_def bit_numeral_rec(1) bit_1_iff)
  then show "is_swapped (swapped_entry slot x)" "is_page_present (swapped_entry slot x) \<longleftrightarrow> bit slot 0"
    by (simp_all add: swapped_entry_def swapped_iff present_iff bit_entry_ops)
  show "get_frame_addr (swapped_entry slot x) = get_frame_addr slot"
    by (simp add: swapped_entry_def frame_set_frame)
qed

lemma write_retry_done:
  assumes "load e s = Inr x" and "sv_disk_write sv slot (get_frame_addr x) PAGE_SIZE s = Inr (PAGE_SIZE, s')"
  shows "write_retry sv slot e s = Some (Inr s')"
  using assms by (subst write_retry.simps) simp

text \<open>
  Swapping out a present page whose write to the disk completes: \<open>vmm_swap_out_page\<close> succeeds and no other
  translation changes, but the frame is not given back to the physical memory manager, and the slot number
  is stored unshifted in the entry: its low twelve bits fall among the attribute bits, so the page stays
  present exactly when the slot is odd and the slot read back from the entry is rounded down.
\<close>

theorem vmm_swap_out_effect:
  assumes "mappable s v" and "\<not> is_swapped (pde s (get_directory_index v))" and "is_page_present (mem s (pte_addr s v))"
    and "sv_sector_size sv s = 512"
    and "disk_alloc_slots 8 (slots s) = Inr (slot, sl)" and "slot \<noteq> DISK_NO_SLOT_AVAILABLE"
    and "sv_disk_write sv slot (get_frame_addr (mem s (pte_addr s v))) PAGE_SIZE (s\<lparr>slots := sl\<rparr>) = Inr (PAGE_SIZE, s\<lparr>slots := sl\<rparr>)"
  shows "\<exists>s'. vmm_swap_out_page sv v s = Inr (True, s') \<and> pmm s' = pmm s
     \<and> (\<forall>v'. get_frame_addr v' \<noteq> get_frame_addr v \<longrightarrow> translate s' v' = translate s v')
     \<and> is_swapped (mem s' (pte_addr s v)) \<and> (is_page_present (mem s' (pte_addr s v)) \<longleftrightarrow> bit slot 0)
     \<and> get_frame_addr (mem s' (pte_addr s v)) = slot AND 0xFFFFF000"
proof -
  let ?e = "entry_addr (get_page_table_vir_addr (get_directory_index v)) (get_table_index v)"
  let ?s = "s\<lparr>slots := sl\<rparr>"
  have m: "mappable ?s v" "pte_addr ?s v = pte_addr s v"
    using assms(1) by (auto simp: mappable_def vm_ok_def pde_def translate_def pte_addr_def)
  have entry: "vmm_get_page_entry sv v s = Inr (?e, s)"
    using assms(1,2) by (intro get_page_entry_window) (simp_all add: mappable_def)
  have load: "load ?e s = Inr (mem s (pte_addr s v))" "load ?e ?s = Inr (mem s (pte_addr s v))"
    using window_pte [OF assms(1)] window_pte [OF m(1)] m(2) by (simp_all add: load_def)
  have slot: "disk_alloc_slots_for_page sv s = Inr (slot, ?s)"
    using assms(4,5) by (simp add: disk_alloc_slots_for_page_def page_sectors_def PAGE_SIZE_def)
  have "vmm_swap_out_page sv v s = Inr (True, set_pte v (swapped_entry slot (mem s (pte_addr s v))) ?s)"
    using assms(3,6) write_retry_done [OF load(2) assms(7)] update_window [OF m(1)] update_window_again [OF m(1)]
    by (simp add: vmm_swap_out_page_def swap_out_page_body_def entry load slot page_entry_set_frame_def
        page_entry_add_attrib_def page_entry_remove_attrib_def swapped_entry_def m(2))
  moreover have "translate ?s v' = translate s v'" for v' by (simp add: translate_def)
  ultimately show ?thesis
    using swapped_entry_bits [of slot "mem s (pte_addr s v)"]
    by (simp add: translate_set_pte [OF m(1)]) (simp add: set_pte_def m(2) get_frame_addr_def)
qed

text \<open>The small address space with page \<open>0x5000\<close> in frame \<open>0x9000\<close>.\<close>

definition space_with_page :: "unit vmm" where
  "space_with_page = set_pte 0x5000 0x9003 small_space"

lemma space_with_page_ok:
  "mappable space_with_page 0x5000" "\<not> is_swapped (pde space_with_page (get_directory_index 0x5000))"
  "mem space_with_page (pte_addr space_with_page 0x5000) = 0x9003" "slots space_with_page = slots_static"
proof -
  have m: "mappable small_space 0x5000" by (rule small_space_mappable)
  moreover have "get_frame_addr 0x5000 \<noteq> current_directory small_space" by (simp add: small_space_def get_frame_addr_def)
  ultimately have "vm_ok space_with_page" unfolding space_with_page_def by (rule vm_ok_set_pte)
  then show "mappable space_with_page 0x5000" using m by (simp add: mappable_def space_with_page_def)
  show "mem space_with_page (pte_addr space_with_page 0x5000) = 0x9003"
    unfolding space_with_page_def pte_addr_set_pte [OF m] by (simp add: set_pte_def)
  show "\<not> is_swapped (pde space_with_page (get_directory_index 0x5000))"
    using m by (simp add: space_with_page_def small_space_pde get_directory_index_def is_swapped_def SWAPPED_def)
  show "slots space_with_page = slots_static" by (simp add: space_with_page_def set_pte_def small_space_def)
qed

theorem vmm_swap_out_effect_witness:
  "\<exists>s'. vmm_swap_out_page idle_services 0x5000 space_with_page = Inr (True, s') \<and> pmm s' = pmm space_with_page
     \<and> is_swapped (mem s' (pte_addr space_with_page 0x5000)) \<and> get_frame_addr (mem s' (pte_addr space_with_page 0x5000)) = 0"
proof -
  have "free_run slots_static 8 8" by (simp add: free_run_def DISK_BITMAP_SIZE_def)
  moreover have "disk_last_alloc_index slots_static = 1" by (simp add: slots_static_def)
  ultimately obtain slot sl where a: "disk_alloc_slots 8 slots_static = Inr (slot, sl)"
    and slot: "slot \<noteq> DISK_NO_SLOT_AVAILABLE" "unat slot = 8"
    using disk_alloc_slots_search [of slots_static 8] by (force simp: first_run_def split: if_splits)
  have "slot = 8" using slot(2) by (simp add: word_unat_eq_iff)
  moreover note vmm_swap_out_effect [OF space_with_page_ok(1,2), where sv = idle_services and slot = slot and sl = sl]
  ultimately show ?thesis using a slot(1)
    by (auto simp: space_with_page_ok(3,4) idle_services_def is_page_present_def PRESENT_def)
qed

section \<open>Swapping in\<close>

lemma alloc_frame_aligned:
  assumes "pmm_inv (pmm s)" and "vmm_alloc_frame s = (frame, s1)" and "frame \<noteq> 0"
  shows "aligned frame"
proof -
  obtain p where "pmm_alloc_frame (pmm s) = (frame, p)" using assms(2) by (auto simp: vmm_alloc_frame_def split: prod.splits)
  then have "4096 dvd unat frame" using pmm_alloc_used [OF assms(1) _ assms(3)] by (auto simp: is_valid_frame_addr_iff)
  then have "unat (frame AND 0xFFF) = 0"
    by (simp add: and_mask_const unsigned_take_bit_eq take_bit_eq_mod unat_mod dvd_imp_mod_0)
  then show ?thesis by (simp add: aligned_def unat_eq_zero)
qed

text \<open>
  C36. \<open>vmm_swap_in_page\<close> with a frame available overwrites the frame field of the entry before it reads the slot
  from it: whatever slot the page was swapped out to, the disk is read at, and slots are freed from, the
  address of the new frame.
\<close>

theorem vmm_swap_in_reads_frame_number:
  assumes "pmm_inv (pmm s)" and "vmm_alloc_frame s = (frame, s1)" and "frame \<noteq> PMM_NO_FRAME_AVAILABLE"
    and "translate s e = Some p"
    and "s2 = s1\<lparr>mem := (mem s)(p := entry_set_frame frame (mem s p))\<rparr>" and "translate s2 e = Some p"
  shows "vmm_swap_in_page sv e v s =
     bind_run (returns (read_retry sv frame frame s2)) (\<lambda>s.
     bind_run (disk_free_slots_for_page sv frame s) (\<lambda>s.
     bind_run (page_entry_add_attrib e PRESENT s) (\<lambda>s.
     bind_run (page_entry_remove_attrib e SWAPPED s) (\<lambda>s. Inr (True, s)))))"
proof -
  have s1: "mem s1 = mem s" "translate s1 e = Some p"
    using assms(2,4) by (auto simp: vmm_alloc_frame_def translate_def split: prod.splits)
  have "aligned frame" using alloc_frame_aligned [OF assms(1,2)] assms(3) by (simp add: PMM_NO_FRAME_AVAILABLE_def)
  then have "get_frame_addr (mem s2 p) = frame" by (simp add: assms(5) frame_set_frame get_frame_aligned)
  moreover have "update (entry_set_frame frame) e s1 = Inr s2"
    using s1 by (simp add: update_def load_def store_def assms(5))
  ultimately show ?thesis
    using assms(2,3,6)
    by (simp add: vmm_swap_in_page_def swap_in_page_body_def frame_or_swap_def page_entry_set_frame_def load_def)
qed


theorem vmm_swap_in_reads_frame_number_witness:
  "\<exists>frame s1. vmm_alloc_frame small_space = (frame, s1) \<and> vmm_swap_in_page idle_services 0xFFC00014 0x5000 small_space =
     bind_run (returns (read_retry idle_services frame frame (s1\<lparr>mem := (mem small_space)(0x2014 := entry_set_frame frame 0)\<rparr>))) (\<lambda>s.
     bind_run (disk_free_slots_for_page idle_services frame s) (\<lambda>s.
     bind_run (page_entry_add_attrib 0xFFC00014 PRESENT s) (\<lambda>s.
     bind_run (page_entry_remove_attrib 0xFFC00014 SWAPPED s) (\<lambda>s. Inr (True, s)))))"
proof -
  obtain frame s1 where a: "vmm_alloc_frame small_space = (frame, s1)" by fastforce
  have inv: "pmm_inv (pmm small_space)" by (simp add: small_space_def)
  have f: "frame \<noteq> 0" using a pmm_static_alloc by (auto simp: vmm_alloc_frame_def small_space_def split: prod.splits)
  have s1: "cr3 s1 = 0x1000" "paging_enabled s1" using a by (auto simp: vmm_alloc_frame_def small_space_def split: prod.splits)
  have m: "mem small_space 0x2014 = 0" by (simp add: small_space_def)
  have "translate small_space 0xFFC00014 = Some 0x2014"
    by (simp add: translate_def walk_def small_space_def entry_eval)
  moreover have "translate (s1\<lparr>mem := (mem small_space)(0x2014 := x)\<rparr>) 0xFFC00014 = Some 0x2014" for x
    by (simp add: translate_def walk_def s1) (simp add: small_space_def entry_eval)
  ultimately show ?thesis
    using vmm_swap_in_reads_frame_number [OF inv a _ _ refl, of "0xFFC00014" "0x2014" idle_services "0x5000"] a f m
    by (simp add: PMM_NO_FRAME_AVAILABLE_def)
qed

end
