(* ===== verification/Kmalloc.thy ===== *)
theory Kmalloc
  imports Vmm_Swap
begin

text \<open>
  memory/kmalloc.c: a slab allocator for small objects and page-granular large blocks. Slabs, free lists and
  the records of large blocks are words of memory, read and written through the address translation of
  the memory manager; the static variables of the file are the heap component of its state.
\<close>

section \<open>Data\<close>

definition MAX_CACHE_SIZE :: u32 where "MAX_CACHE_SIZE = 2048"

text \<open>The \<open>slabs\<close> pointers of the caches, the two break addresses, and the list of large blocks.\<close>

record kheap =
  caches :: "u32 list"
  current_heap_addr :: u32
  current_large_heap_addr :: u32
  large_allocations :: u32

type_synonym kvm = "kheap vmm"

definition kheap_static :: kheap where
  "kheap_static = \<lparr>caches = replicate 8 0, current_heap_addr = 0, current_large_heap_addr = 0, large_allocations = 0\<rparr>"

definition cache_sizes :: "u32 list" where
  "cache_sizes = [16, 32, 64, 128, 256, 512, 1024, 2048]"

text \<open>Offsets of the fields of \<open>struct slab\<close> and \<open>large_alloc_t\<close>.\<close>

definition slab_object_size :: "u32 \<Rightarrow> u32" where "slab_object_size slab = slab"
definition slab_free_list :: "u32 \<Rightarrow> u32" where "slab_free_list slab = slab + 4"
definition slab_offset :: "u32 \<Rightarrow> u32" where "slab_offset slab = slab + 8"
definition slab_free_count :: "u32 \<Rightarrow> u32" where "slab_free_count slab = slab + 12"
definition slab_next :: "u32 \<Rightarrow> u32" where "slab_next slab = slab + 16"
definition slab_data :: "u32 \<Rightarrow> u32" where "slab_data slab = slab + 20"
definition slab_data_size :: u32 where "slab_data_size = PMM_BLOCK_SIZE - 20"

definition large_size :: "u32 \<Rightarrow> u32" where "large_size alloc = alloc"
definition large_ptr :: "u32 \<Rightarrow> u32" where "large_ptr alloc = alloc + 4"
definition large_next :: "u32 \<Rightarrow> u32" where "large_next alloc = alloc + 8"
definition large_prev :: "u32 \<Rightarrow> u32" where "large_prev alloc = alloc + 12"

definition sizeof_large_alloc :: u32 where "sizeof_large_alloc = 16"

lemmas slab_fields = slab_object_size_def slab_free_list_def slab_offset_def slab_free_count_def slab_next_def slab_data_def

section \<open>Slabs\<close>

definition convert_to_vir_addr :: "u32 \<Rightarrow> kvm \<Rightarrow> u32" where
  "convert_to_vir_addr addr s = addr + heap_base s"

text \<open>The loop of \<open>init_slab\<close> from object \<open>i\<close>, with \<open>n\<close> objects left and \<open>current\<close> the last one linked.\<close>

fun init_free_list :: "u32 \<Rightarrow> u32 \<Rightarrow> nat \<Rightarrow> nat \<Rightarrow> u32 \<Rightarrow> 'h vmm \<Rightarrow> (u32 \<times> 'h vmm) run" where
  "init_free_list slab object_size i 0 current s = Inr (current, s)"
| "init_free_list slab object_size i (Suc n) current s =
     (let next_obj = slab_data slab + of_nat i * object_size in
      bind_run (store current next_obj s) (init_free_list slab object_size (Suc i) n next_obj))"

definition init_slab :: "u32 \<Rightarrow> u32 \<Rightarrow> 'h vmm \<Rightarrow> 'h vmm run" where
  "init_slab slab object_size s =
     (if object_size = 0 then Inl Divide_error
      else
        let num_objects = slab_data_size div object_size in
        bind_run (store (slab_free_count slab) num_objects s) (\<lambda>s.
        bind_run (store (slab_free_list slab) (slab_data slab) s) (\<lambda>s.
        bind_run (load (slab_free_list slab) s) (\<lambda>current.
        bind_run (init_free_list slab object_size 1 (unat num_objects - 1) current s) (\<lambda>(current, s).
        store current 0 s)))))"

definition alloc_from_slab :: "u32 \<Rightarrow> 'h vmm \<Rightarrow> (u32 \<times> 'h vmm) run" where
  "alloc_from_slab slab s =
     bind_run (load (slab_free_count slab) s) (\<lambda>free_count.
       if free_count = 0 then Inr (0, s)
       else
         bind_run (load (slab_free_list slab) s) (\<lambda>object.
         bind_run (load object s) (\<lambda>next_obj.
         bind_run (store (slab_free_list slab) next_obj s) (\<lambda>s.
         bind_run (update (\<lambda>n. n - 1) (slab_free_count slab) s) (\<lambda>s.
         Inr (object, s))))))"

definition slab_free :: "u32 \<Rightarrow> u32 \<Rightarrow> 'h vmm \<Rightarrow> 'h vmm run" where
  "slab_free slab object s =
     bind_run (load (slab_free_list slab) s) (\<lambda>free_list.
     bind_run (store object free_list s) (\<lambda>s.
     bind_run (store (slab_free_list slab) object s) (\<lambda>s.
     update (\<lambda>n. n + 1) (slab_free_count slab) s)))"

definition create_slab :: "kheap services \<Rightarrow> u32 \<Rightarrow> kvm \<Rightarrow> (u32 \<times> kvm) run" where
  "create_slab sv object_size s =
     assert_run (current_heap_addr (heap s) \<le> heap_base s + KERNEL_HEAP_SIZE)
       ''current_heap_addr <= KERNEL_BASE_HEAP_ADDR + KERNEL_HEAP_SIZE''
       (let slab_phys_addr = current_heap_addr (heap s);
            s = s\<lparr>heap := (heap s)\<lparr>current_heap_addr := current_heap_addr (heap s) + PMM_BLOCK_SIZE\<rparr>\<rparr>;
            slab = convert_to_vir_addr slab_phys_addr s in
        bind_run (vmm_map_page_to_curr_dir sv slab slab_phys_addr PAGE_WRITEABLE s) (\<lambda>s.
        bind_run (store (slab_object_size slab) object_size s) (\<lambda>s.
        bind_run (store (slab_offset slab) 0 s) (\<lambda>s.
        bind_run (store (slab_next slab) 0 s) (\<lambda>s.
        bind_run (init_slab slab object_size s) (\<lambda>s.
        Inr (slab, s)))))))"

section \<open>Caches\<close>

fun find_size :: "u32 list \<Rightarrow> u32 \<Rightarrow> nat \<Rightarrow> nat option" where
  "find_size [] sz i = None"
| "find_size (c # cs) sz i = (if c \<ge> sz then Some i else find_size cs sz (Suc i))"

definition get_cache :: "u32 \<Rightarrow> nat option" where
  "get_cache sz = find_size cache_sizes sz 0"

text \<open>The loop of \<open>get_slab_index\<close> from index \<open>i\<close>; the result is an \<open>int8_t\<close>.\<close>

fun slab_index_loop :: "u32 list \<Rightarrow> u32 \<Rightarrow> u32 \<Rightarrow> u8" where
  "slab_index_loop [] sz i = -1"
| "slab_index_loop (c # cs) sz i = (if sz \<le> c then ucast i else slab_index_loop cs sz (i + 1))"

definition get_slab_index :: "u32 \<Rightarrow> u8" where
  "get_slab_index sz = slab_index_loop [16, 32, 64, 128, 256, 512, 1024, 2048] sz 0"

text \<open>The loop of \<open>alloc_from_cache\<close> over the slabs of a cache: 0 when all are full.\<close>

partial_function (option) scan_slabs :: "u32 \<Rightarrow> kvm \<Rightarrow> (u32 \<times> kvm) run option" where
  "scan_slabs curr_slab s =
     (if curr_slab = 0 then Some (Inr (0, s))
      else
        (case alloc_from_slab curr_slab s of
           Inl h \<Rightarrow> Some (Inl h)
         | Inr (res, s') \<Rightarrow>
             if res \<noteq> 0 then Some (Inr (res, s'))
             else
               (case load (slab_next curr_slab) s' of
                  Inl h \<Rightarrow> Some (Inl h)
                | Inr n \<Rightarrow> scan_slabs n s')))"

definition set_cache :: "nat \<Rightarrow> u32 \<Rightarrow> kvm \<Rightarrow> kvm" where
  "set_cache i slab s = s\<lparr>heap := (heap s)\<lparr>caches := (caches (heap s))[i := slab]\<rparr>\<rparr>"

definition alloc_from_cache :: "kheap services \<Rightarrow> nat \<Rightarrow> kvm \<Rightarrow> (u32 \<times> kvm) run" where
  "alloc_from_cache sv i s =
     bind_run (returns (scan_slabs (caches (heap s) ! i) s)) (\<lambda>(res, s).
       if res \<noteq> 0 then Inr (res, s)
       else
         bind_run (create_slab sv (cache_sizes ! i) s) (\<lambda>(new_slab, s).
           if new_slab = 0 then Inr (0, s)
           else
             bind_run (store (slab_next new_slab) (caches (heap s) ! i) s) (\<lambda>s.
             alloc_from_slab new_slab (set_cache i new_slab s))))"

text \<open>\<open>kmalloc\<close> of at most \<open>MAX_CACHE_SIZE\<close> bytes.\<close>

definition kmalloc_small :: "kheap services \<Rightarrow> u32 \<Rightarrow> kvm \<Rightarrow> (u32 \<times> kvm) run" where
  "kmalloc_small sv sz s =
     (case get_cache sz of
        None \<Rightarrow> Inl (Panic ''Cache for slab was not found, how tf did we get here?'')
      | Some i \<Rightarrow> alloc_from_cache sv i s)"

section \<open>Large blocks\<close>

text \<open>The record of a block is itself a small object: \<open>sizeof(large_alloc_t)\<close> is 16.\<close>

definition create_large_alloc :: "kheap services \<Rightarrow> u32 \<Rightarrow> u32 \<Rightarrow> kvm \<Rightarrow> (u32 \<times> kvm) run" where
  "create_large_alloc sv sz ptr s =
     bind_run (kmalloc_small sv sizeof_large_alloc s) (\<lambda>(alloc, s).
       if alloc = 0 then Inl (Panic ''Failed to allocate memory for large allocation'')
       else
         bind_run (store (large_size alloc) sz s) (\<lambda>s.
         bind_run (store (large_ptr alloc) ptr s) (\<lambda>s.
         bind_run (store (large_next alloc) 0 s) (\<lambda>s.
         bind_run (store (large_prev alloc) 0 s) (\<lambda>s.
         Inr (alloc, s))))))"

definition set_large :: "u32 \<Rightarrow> kvm \<Rightarrow> kvm" where
  "set_large p s = s\<lparr>heap := (heap s)\<lparr>large_allocations := p\<rparr>\<rparr>"

definition insert_large_alloc :: "u32 \<Rightarrow> kvm \<Rightarrow> kvm run" where
  "insert_large_alloc alloc s =
     (if large_allocations (heap s) = 0 then Inr (set_large alloc s)
      else
        let current = large_allocations (heap s) in
        bind_run (store (large_prev current) alloc s) (\<lambda>s.
        bind_run (store (large_next alloc) current s) (\<lambda>s.
        Inr (set_large alloc s))))"

partial_function (option) find_large :: "u32 \<Rightarrow> u32 \<Rightarrow> kvm \<Rightarrow> u32 run option" where
  "find_large ptr current s =
     (if current = 0 then Some (Inr 0)
      else
        (case load (large_ptr current) s of
           Inl h \<Rightarrow> Some (Inl h)
         | Inr p \<Rightarrow>
             if p = ptr then Some (Inr current)
             else
               (case load (large_next current) s of
                  Inl h \<Rightarrow> Some (Inl h)
                | Inr n \<Rightarrow> find_large ptr n s)))"

definition get_large_alloc_by_ptr :: "u32 \<Rightarrow> kvm \<Rightarrow> u32 run" where
  "get_large_alloc_by_ptr ptr s = returns (find_large ptr (large_allocations (heap s)) s)"

text \<open>\<open>large_alloc_remove\<close> up to its call of \<open>large_alloc_destroy\<close>.\<close>

definition large_alloc_unlink :: "u32 \<Rightarrow> kvm \<Rightarrow> kvm run" where
  "large_alloc_unlink alloc s =
     bind_run (load (large_prev alloc) s) (\<lambda>prev.
     bind_run (if prev \<noteq> 0 then
                 bind_run (load (large_next alloc) s) (\<lambda>nxt. store (large_next prev) nxt s)
               else
                 bind_run (load (large_next alloc) s) (\<lambda>nxt. Inr (set_large nxt s))) (\<lambda>s.
     bind_run (load (large_next alloc) s) (\<lambda>nxt.
     bind_run (if nxt \<noteq> 0 then
                 bind_run (load (large_prev alloc) s) (\<lambda>prev. store (large_prev nxt) prev s)
               else Inr s) (\<lambda>s.
     bind_run (store (large_next alloc) 0 s) (\<lambda>s.
     bind_run (store (large_prev alloc) 0 s) (\<lambda>s.
     store (large_ptr alloc) 0 s))))))"

definition aligned_size :: "u32 \<Rightarrow> u32" where
  "aligned_size sz = (sz + PMM_BLOCK_SIZE - 1) AND NOT (PMM_BLOCK_SIZE - 1)"

fun unmap_pages :: "kheap services \<Rightarrow> u32 \<Rightarrow> nat \<Rightarrow> nat \<Rightarrow> kvm \<Rightarrow> kvm run" where
  "unmap_pages sv base j 0 s = Inr s"
| "unmap_pages sv base j (Suc n) s =
     bind_run (vmm_unmap_page sv (base + of_nat j * PMM_BLOCK_SIZE) s) (unmap_pages sv base (Suc j) n)"

text \<open>The loop of \<open>kmalloc_large\<close> from page \<open>i\<close> with \<open>n\<close> pages left; \<open>False\<close> when the frames run out.\<close>

fun map_large :: "kheap services \<Rightarrow> nat \<Rightarrow> nat \<Rightarrow> kvm \<Rightarrow> (bool \<times> kvm) run" where
  "map_large sv i 0 s = Inr (True, s)"
| "map_large sv i (Suc n) s =
     (let vir_addr = current_large_heap_addr (heap s) + of_nat i * PMM_BLOCK_SIZE;
          (addr, s) = vmm_alloc_frame s in
      if addr = PMM_NO_FRAME_AVAILABLE then
        bind_run (unmap_pages sv (current_large_heap_addr (heap s)) 0 i s) (\<lambda>s. Inr (False, s))
      else
        bind_run (vmm_map_page_to_curr_dir sv vir_addr addr PAGE_WRITEABLE s) (map_large sv (Suc i) n))"

definition kmalloc_large :: "kheap services \<Rightarrow> u32 \<Rightarrow> kvm \<Rightarrow> (u32 \<times> kvm) run" where
  "kmalloc_large sv sz s =
     bind_run (map_large sv 0 (unat (aligned_size sz div PMM_BLOCK_SIZE)) s) (\<lambda>(ok, s).
       if \<not> ok then Inr (0, s)
       else
         let ptr = current_large_heap_addr (heap s);
             s = s\<lparr>heap := (heap s)\<lparr>current_large_heap_addr := ptr + aligned_size sz\<rparr>\<rparr> in
         bind_run (create_large_alloc sv sz ptr s) (\<lambda>(alloc, s).
         bind_run (insert_large_alloc alloc s) (\<lambda>s.
         Inr (ptr, s))))"

section \<open>kmalloc, kfree and init_kmalloc\<close>

definition kmalloc :: "kheap services \<Rightarrow> u32 \<Rightarrow> kvm \<Rightarrow> (u32 \<times> kvm) run" where
  "kmalloc sv sz s = (if sz > MAX_CACHE_SIZE then kmalloc_large sv sz s else kmalloc_small sv sz s)"

text \<open>
  \<open>_kmalloc_large_free\<close> and \<open>kfree\<close> call each other, the last call being \<open>kfree\<close> of the block's record: a step
  returns that record when there is one to free.
\<close>

definition kmalloc_large_free_step :: "kheap services \<Rightarrow> u32 \<Rightarrow> kvm \<Rightarrow> (u32 option \<times> kvm) run" where
  "kmalloc_large_free_step sv ptr s =
     (if ptr = 0 then Inr (None, s)
      else
        bind_run (get_large_alloc_by_ptr ptr s) (\<lambda>alloc.
          if alloc = 0 then Inr (None, s)
          else
            bind_run (load (large_size alloc) s) (\<lambda>sz.
            bind_run (unmap_pages sv ptr 0 (unat (aligned_size sz div PMM_BLOCK_SIZE)) s) (\<lambda>s.
            bind_run (large_alloc_unlink alloc s) (\<lambda>s.
            Inr (Some alloc, s))))))"

definition kfree_step :: "kheap services \<Rightarrow> u32 \<Rightarrow> kvm \<Rightarrow> (u32 option \<times> kvm) run" where
  "kfree_step sv ptr s =
     (if ptr = 0 then Inr (None, s)
      else if ptr < heap_base s \<or> ptr > heap_base s + KERNEL_HEAP_SIZE then kmalloc_large_free_step sv ptr s
      else bind_run (slab_free (ptr AND NOT (PMM_BLOCK_SIZE - 1)) ptr s) (\<lambda>s. Inr (None, s)))"

partial_function (option) kfree_loop :: "kheap services \<Rightarrow> u32 \<Rightarrow> kvm \<Rightarrow> kvm run option" where
  "kfree_loop sv ptr s =
     (case kfree_step sv ptr s of
        Inl h \<Rightarrow> Some (Inl h)
      | Inr (r, s') \<Rightarrow> (case r of None \<Rightarrow> Some (Inr s') | Some alloc \<Rightarrow> kfree_loop sv alloc s'))"

definition kfree :: "kheap services \<Rightarrow> u32 \<Rightarrow> kvm \<Rightarrow> kvm run" where
  "kfree sv ptr s = returns (kfree_loop sv ptr s)"

fun init_caches :: "kheap services \<Rightarrow> nat \<Rightarrow> nat \<Rightarrow> kvm \<Rightarrow> kvm run" where
  "init_caches sv i 0 s = Inr s"
| "init_caches sv i (Suc n) s =
     bind_run (create_slab sv (cache_sizes ! i) s) (\<lambda>(slab, s).
       if slab = 0 then
         Inl (Panic (''Failed to allocate memory for kmalloc, what piece of shit computer do you have?'' @ [CHR 0x0A] @ ''Its probably my fault :)''))
       else init_caches sv (Suc i) n (set_cache i slab s))"

definition init_kmalloc :: "kheap services \<Rightarrow> kvm \<Rightarrow> kvm run" where
  "init_kmalloc sv s =
     init_caches sv 0 (unat NUM_CACHES)
       (s\<lparr>heap := (heap s)\<lparr>current_heap_addr := heap_base s, current_large_heap_addr := heap_base s + KERNEL_HEAP_SIZE\<rparr>\<rparr>)"

text \<open>The memory manager on top of this heap, which itself calls a memory manager on top of \<open>sv\<close>.\<close>

definition heap_services :: "kheap services \<Rightarrow> kheap services" where
  "heap_services sv = sv\<lparr>sv_kmalloc := kmalloc sv, sv_kfree := kfree sv\<rparr>"

end
