(* ===== verification/Kmalloc_Properties.thy ===== *)
theory Kmalloc_Properties
  imports Kmalloc
begin

text \<open>
  What kmalloc.c guarantees: a slab is a last-in first-out list of disjoint objects inside its page, the
  cache chosen for a size is the smallest that fits, and small objects are never given back.
\<close>

section \<open>A page of data\<close>

text \<open>
  Virtual page \<open>v\<close> is the frame \<open>f\<close>, whatever the frame holds: no page table the translation of \<open>v\<close> needs lies
  in \<open>f\<close> itself.
\<close>

definition data_page :: "'h vmm \<Rightarrow> u32 \<Rightarrow> u32 \<Rightarrow> bool" where
  "data_page s v f \<longleftrightarrow> aligned v \<and> aligned f \<and>
     (\<forall>m. (\<forall>p. get_frame_addr p \<noteq> f \<longrightarrow> m p = mem s p) \<longrightarrow>
        (\<forall>b < 4096. translate (s\<lparr>mem := m\<rparr>) (v + b) = Some (f + b)))"

text \<open>The words of the frame, by offset, and a write to one of them.\<close>

definition words_of :: "u32 \<Rightarrow> 'h vmm \<Rightarrow> u32 \<Rightarrow> u32" where
  "words_of f s b = mem s (f + b)"

definition put_word :: "u32 \<Rightarrow> u32 \<Rightarrow> u32 \<Rightarrow> 'h vmm \<Rightarrow> 'h vmm" where
  "put_word f b x s = s\<lparr>mem := (mem s)(f + b := x)\<rparr>"

lemma words_of_put [simp]: "words_of f (put_word f b x s) = (words_of f s)(b := x)"
  by (auto simp: words_of_def put_word_def)

text \<open>A state that differs only inside the frame \<open>f\<close>.\<close>

definition within :: "u32 \<Rightarrow> 'h vmm \<Rightarrow> 'h vmm \<Rightarrow> bool" where
  "within f s s' \<longleftrightarrow> (\<exists>m. s' = s\<lparr>mem := m\<rparr> \<and> (\<forall>p. get_frame_addr p \<noteq> f \<longrightarrow> m p = mem s p))"

lemma within_refl [simp]: "within f s s"
  by (auto simp: within_def intro!: exI [of _ "mem s"])

lemma within_trans: "within f s s1 \<Longrightarrow> within f s1 s2 \<Longrightarrow> within f s s2"
  by (fastforce simp: within_def)

lemma within_put: "aligned f \<Longrightarrow> b < 4096 \<Longrightarrow> within f s (put_word f b x s)"
  using frame_of_sum [of f b] by (auto simp: within_def put_word_def intro!: exI [of _ "(mem s)(f + b := x)"])

lemma data_page_translate:
  assumes "data_page s v f" and "b < 4096"
  shows "translate s (v + b) = Some (f + b)"
proof -
  have "translate (s\<lparr>mem := mem s\<rparr>) (v + b) = Some (f + b)" using assms unfolding data_page_def by blast
  then show ?thesis by simp
qed

lemma data_page_put [simp]:
  assumes "data_page s v f" and "b < 4096"
  shows "data_page (put_word f b x s) v f"
proof -
  have "get_frame_addr (f + b) = f" using assms by (auto simp: data_page_def intro: frame_of_sum)
  then have "m p = mem s p" if "\<forall>p. get_frame_addr p \<noteq> f \<longrightarrow> m p = mem (put_word f b x s) p" "get_frame_addr p \<noteq> f" for m p
    using that by (auto simp: put_word_def)
  then have "translate (s\<lparr>mem := m\<rparr>) (v + b') = Some (f + b')"
    if "\<forall>p. get_frame_addr p \<noteq> f \<longrightarrow> m p = mem (put_word f b x s) p" "b' < 4096" for m b'
    using assms(1) that unfolding data_page_def by blast
  then show ?thesis using assms(1) by (simp add: data_page_def put_word_def)
qed

lemma data_page_access:
  assumes "data_page s v f" and "b < 4096"
  shows "load (v + b) s = Inr (words_of f s b)" "store (v + b) x s = Inr (put_word f b x s)"
    "update g (v + b) s = Inr (put_word f b (g (words_of f s b)) s)"
  using data_page_translate [OF assms] by (simp_all add: load_def store_def update_def words_of_def put_word_def)

lemma slab_header:
  assumes "data_page s slab f"
  shows "load (slab_free_list slab) s = Inr (words_of f s 4)" "store (slab_free_list slab) x s = Inr (put_word f 4 x s)"
    "load (slab_free_count slab) s = Inr (words_of f s 12)" "store (slab_free_count slab) x s = Inr (put_word f 12 x s)"
    "update g (slab_free_count slab) s = Inr (put_word f 12 (g (words_of f s 12)) s)"
  using data_page_access [OF assms, of 4] data_page_access [OF assms, of 12] by (simp_all add: slab_fields)

section \<open>A slab as a list of free objects\<close>

text \<open>Objects by their offset in the page; the link in a free object is a virtual address.\<close>

fun free_chain :: "u32 \<Rightarrow> (u32 \<Rightarrow> u32) \<Rightarrow> u32 \<Rightarrow> u32 list \<Rightarrow> bool" where
  "free_chain slab w p [] \<longleftrightarrow> p = 0"
| "free_chain slab w p (b # bs) \<longleftrightarrow> p = slab + b \<and> free_chain slab w (w b) bs"

definition slab_holds :: "'h vmm \<Rightarrow> u32 \<Rightarrow> u32 \<Rightarrow> u32 list \<Rightarrow> bool" where
  "slab_holds s slab f bs \<longleftrightarrow> data_page s slab f \<and> distinct bs \<and> (\<forall>b \<in> set bs. 20 \<le> b \<and> b < 4096)
     \<and> free_chain slab (words_of f s) (words_of f s 4) bs \<and> unat (words_of f s 12) = length bs"

lemma free_chain_other: "b \<notin> set bs \<Longrightarrow> free_chain slab (w(b := x)) p bs \<longleftrightarrow> free_chain slab w p bs"
  by (induction bs arbitrary: p) auto

lemma header_not_object: "\<forall>b \<in> set bs. 20 \<le> b \<and> b < (4096 :: u32) \<Longrightarrow> 4 \<notin> set bs \<and> 12 \<notin> set bs"
  by (auto simp: word_le_nat_alt)

lemma alloc_from_slab_pops:
  assumes "slab_holds s slab f (b # bs)"
  shows "\<exists>s'. alloc_from_slab slab s = Inr (slab + b, s') \<and> slab_holds s' slab f bs"
proof -
  have d: "data_page s slab f" and b: "20 \<le> b" "b < 4096" and c: "unat (words_of f s 12) = Suc (length bs)"
    using assms by (auto simp: slab_holds_def)
  have ne: "b \<noteq> 4" "b \<noteq> 12" "words_of f s 12 \<noteq> 0" using b(1) c by (auto simp: word_le_nat_alt)
  have "words_of f s 4 = slab + b" using assms by (simp add: slab_holds_def)
  moreover have "unat (words_of f s 12 - 1) = length bs" using c by (subst unat_pred) auto
  moreover have "4 \<notin> set bs \<and> 12 \<notin> set bs" using assms by (intro header_not_object) (simp add: slab_holds_def)
  moreover have d1: "data_page (put_word f 4 (words_of f s b) s) slab f" using d by simp
  ultimately show ?thesis
    using assms ne d b
    by (simp add: alloc_from_slab_def slab_header [OF d] data_page_access [OF d] slab_header [OF d1]
        slab_holds_def free_chain_other)
qed

lemma alloc_from_slab_empty: "slab_holds s slab f [] \<Longrightarrow> alloc_from_slab slab s = Inr (0, s)"
  by (auto simp: alloc_from_slab_def slab_holds_def slab_header unat_eq_zero)

lemma slab_free_pushes:
  assumes "slab_holds s slab f bs" and "20 \<le> b" and "b < 4096" and "b \<notin> set bs" and "length bs + 1 < 2 ^ 32"
  shows "\<exists>s'. slab_free slab (slab + b) s = Inr s' \<and> slab_holds s' slab f (b # bs)"
proof -
  have d: "data_page s slab f" using assms(1) by (simp add: slab_holds_def)
  have ne: "b \<noteq> 4" "b \<noteq> 12" using assms(2) by (auto simp: word_le_nat_alt)
  have "4 \<notin> set bs \<and> 12 \<notin> set bs" using assms(1) by (intro header_not_object) (simp add: slab_holds_def)
  moreover have "unat (words_of f s 12 + 1) = Suc (length bs)"
    using assms(1,5) by (subst unat_add_exact) (auto simp: slab_holds_def)
  moreover have d1: "data_page (put_word f b (words_of f s 4) s) slab f" using d assms(3) by simp
  moreover have d2: "data_page (put_word f 4 (slab + b) (put_word f b (words_of f s 4) s)) slab f" using d1 by simp
  ultimately show ?thesis
    using assms ne d
    by (simp add: slab_free_def slab_header [OF d] data_page_access [OF d] slab_header [OF d1] slab_header [OF d2]
        slab_holds_def free_chain_other)
qed


section \<open>A fresh slab\<close>

text \<open>Offset of object \<open>k\<close>, and how many objects a slab has.\<close>

definition object_at :: "u32 \<Rightarrow> nat \<Rightarrow> u32" where
  "object_at object_size k = 20 + of_nat k * object_size"

definition slab_capacity :: "u32 \<Rightarrow> nat" where
  "slab_capacity object_size = 4076 div unat object_size"

lemma object_in_page:
  assumes "k < slab_capacity os"
  shows "unat (object_at os k) = 20 + k * unat os" "20 + k * unat os + unat os \<le> 4096" "0 < unat os"
proof -
  have pos: "0 < unat os" using assms by (cases "unat os = 0") (auto simp: slab_capacity_def)
  have "(k + 1) * unat os \<le> slab_capacity os * unat os" using assms by (intro mult_le_mono1) simp
  also have "\<dots> \<le> 4076" by (simp add: slab_capacity_def)
  finally show le: "20 + k * unat os + unat os \<le> 4096" by simp
  have "k \<le> k * unat os" using pos by simp
  then have "k \<le> 4096" using le by linarith
  then have "unat (of_nat k :: u32) = k" by (intro unat_of_nat_exact) simp
  then have "unat (of_nat k * os) = k * unat os" using le by (subst unat_mult_exact) simp_all
  then show "unat (object_at os k) = 20 + k * unat os" using le by (simp add: object_at_def unat_add_exact)
  show "0 < unat os" by (rule pos)
qed

lemma object_offset:
  assumes "k < slab_capacity os"
  shows "object_at os k < 4096" "20 \<le> object_at os k"
  using object_in_page [OF assms] by (simp_all add: word_less_nat_alt word_le_nat_alt)

lemma object_inject: "k < slab_capacity os \<Longrightarrow> j < slab_capacity os \<Longrightarrow> object_at os k = object_at os j \<longleftrightarrow> k = j"
  using object_in_page [of k os] object_in_page [of j os] by (auto simp: word_unat_eq_iff)

lemma object_address: "slab_data slab + of_nat k * os = slab + object_at os k"
  by (simp add: slab_fields object_at_def)

lemma init_free_list_links:
  assumes "data_page s slab f" and "i + n < slab_capacity os"
  shows "\<exists>s'. init_free_list slab os (Suc i) n (slab + object_at os i) s = Inr (slab + object_at os (i + n), s')
     \<and> data_page s' slab f \<and> within f s s'
     \<and> (\<forall>k. i \<le> k \<and> k < i + n \<longrightarrow> words_of f s' (object_at os k) = slab + object_at os (Suc k))
     \<and> (\<forall>b. (\<forall>k. i \<le> k \<and> k < i + n \<longrightarrow> b \<noteq> object_at os k) \<longrightarrow> words_of f s' b = words_of f s b)"
  using assms
proof (induction n arbitrary: i s)
  case 0
  then show ?case by auto
next
  case (Suc n)
  let ?s = "put_word f (object_at os i) (slab + object_at os (Suc i)) s"
  have i: "object_at os i < 4096" using Suc.prems(2) by (intro object_offset) simp
  obtain s' where s': "init_free_list slab os (Suc (Suc i)) n (slab + object_at os (Suc i)) ?s =
        Inr (slab + object_at os (Suc i + n), s')" "data_page s' slab f" "within f ?s s'"
      "\<forall>k. Suc i \<le> k \<and> k < Suc i + n \<longrightarrow> words_of f s' (object_at os k) = slab + object_at os (Suc k)"
      "\<forall>b. (\<forall>k. Suc i \<le> k \<and> k < Suc i + n \<longrightarrow> b \<noteq> object_at os k) \<longrightarrow> words_of f s' b = words_of f ?s b"
    using Suc.IH [of ?s "Suc i"] Suc.prems i by auto
  have "object_at os i \<noteq> object_at os k" if "Suc i \<le> k" "k < Suc i + n" for k
    using object_inject [of i os k] Suc.prems(2) that by auto
  then have "words_of f s' (object_at os i) = slab + object_at os (Suc i)" using s'(5) by simp
  with s'(4) have "\<forall>k. i \<le> k \<and> k < i + Suc n \<longrightarrow> words_of f s' (object_at os k) = slab + object_at os (Suc k)"
    by (metis Suc_leI add_Suc add_Suc_right le_neq_implies_less)
  moreover have "\<forall>b. (\<forall>k. i \<le> k \<and> k < i + Suc n \<longrightarrow> b \<noteq> object_at os k) \<longrightarrow> words_of f s' b = words_of f s b"
    using s'(5) by auto
  moreover have "within f s s'"
    using within_put [of f "object_at os i" s] s'(3) Suc.prems(1) i by (auto simp: data_page_def intro: within_trans)
  ultimately show ?case
    using s' data_page_access(2) [OF Suc.prems(1) i] by (simp add: Let_def object_address [of slab "Suc i", simplified])
qed

lemma free_chain_objects:
  assumes "\<And>k. i \<le> k \<Longrightarrow> Suc k < n \<Longrightarrow> w (object_at os k) = slab + object_at os (Suc k)"
    and "w (object_at os (n - 1)) = 0" and "i < n"
  shows "free_chain slab w (slab + object_at os i) (map (object_at os) [i ..< n])"
  using assms
proof (induction "n - i" arbitrary: i)
  case (Suc d)
  show ?case
  proof (cases "Suc i < n")
    case True
    with Suc have "free_chain slab w (slab + object_at os (Suc i)) (map (object_at os) [Suc i ..< n])" by simp
    with True Suc.prems(1) [of i] show ?thesis by (simp add: upt_conv_Cons)
  next
    case False
    with Suc.prems have "n = Suc i" by simp
    with Suc.prems(2) show ?thesis by simp
  qed
qed simp


lemma slab_capacity_eq: "unat (slab_data_size div os) = slab_capacity os"
  by (simp add: slab_capacity_def slab_data_size_def PMM_BLOCK_SIZE_def unat_div)

lemma init_slab_holds:
  assumes "data_page s slab f" and "0 < slab_capacity os"
  shows "\<exists>s'. init_slab slab os s = Inr s' \<and> slab_holds s' slab f (map (object_at os) [0 ..< slab_capacity os]) \<and> within f s s'"
proof -
  let ?n = "slab_capacity os" and ?obj = "object_at os"
  define s1 where "s1 = put_word f 4 (slab + ?obj 0) (put_word f 12 (slab_data_size div os) s)"
  have d: "data_page (put_word f 12 (slab_data_size div os) s) slab f" "data_page s1 slab f"
    using assms(1) by (simp_all add: s1_def)
  have first: "slab_data slab = slab + ?obj 0" by (simp add: slab_fields object_at_def)
  obtain s2 where s2: "init_free_list slab os (Suc 0) (?n - 1) (slab + ?obj 0) s1 = Inr (slab + ?obj (?n - 1), s2)"
      "data_page s2 slab f" "within f s1 s2" "\<forall>k. k < ?n - 1 \<longrightarrow> words_of f s2 (?obj k) = slab + ?obj (Suc k)"
      "\<forall>b. (\<forall>k < ?n - 1. b \<noteq> ?obj k) \<longrightarrow> words_of f s2 b = words_of f s1 b"
    using init_free_list_links [OF d(2), of 0 "?n - 1" os] assms(2) by auto
  have w: "words_of f s1 4 = slab + ?obj 0" by (simp add: s1_def)
  have "os \<noteq> 0" using assms(2) by (auto simp: slab_capacity_def)
  moreover have "?obj (?n - 1) < 4096" using assms(2) by (intro object_offset) simp
  ultimately have run: "init_slab slab os s = Inr (put_word f (?obj (?n - 1)) 0 s2)"
    using s2(1) first
    by (simp add: init_slab_def Let_def slab_header [OF assms(1)] slab_header [OF d(1)] slab_header [OF d(2)] slab_capacity_eq
        s1_def [symmetric] w data_page_access [OF s2(2)])
  have hd: "b \<noteq> ?obj k" if "b < 20" "k < ?n" for b k using object_offset(2) [OF that(2)] that(1) by auto
  then have head: "words_of f s2 4 = slab + ?obj 0" "unat (words_of f s2 12) = ?n"
    using s2(5) first slab_capacity_eq [of os] by (simp_all add: s1_def)
  let ?s = "put_word f (?obj (?n - 1)) 0 s2"
  have inj: "?obj k \<noteq> ?obj (?n - 1)" if "k < ?n - 1" for k using object_inject [of k os "?n - 1"] that by auto
  have "free_chain slab (words_of f ?s) (slab + ?obj 0) (map ?obj [0 ..< ?n])"
    using s2(4) inj assms(2) by (intro free_chain_objects) auto
  moreover have "words_of f ?s 4 = slab + ?obj 0" "unat (words_of f ?s 12) = ?n"
    using head hd [of 4 "?n - 1"] hd [of 12 "?n - 1"] assms(2) by simp_all
  moreover have "distinct (map ?obj [0 ..< ?n])" by (auto simp: distinct_map inj_on_def object_inject)
  moreover have "data_page ?s slab f" using s2(2) \<open>?obj (?n - 1) < 4096\<close> by simp
  ultimately have "slab_holds ?s slab f (map ?obj [0 ..< ?n])"
    using object_offset by (auto simp: slab_holds_def)
  moreover have "within f s ?s"
  proof -
    have "aligned f" using assms(1) by (simp add: data_page_def)
    then have "within f s s1" "within f s2 ?s"
      unfolding s1_def using \<open>?obj (?n - 1) < 4096\<close> by (auto intro: within_trans [OF within_put within_put] within_put)
    with s2(3) show ?thesis by (blast intro: within_trans)
  qed
  ultimately show ?thesis using run by blast
qed

lemma alloc_many_slab:
  assumes "slab_holds s slab f bs" and "n \<le> length bs"
  shows "\<exists>s'. alloc_many (alloc_from_slab slab) n s = Inr (map (\<lambda>b. slab + b) (take n bs), s') \<and> slab_holds s' slab f (drop n bs)"
  using assms
proof (induction n arbitrary: s bs)
  case (Suc n)
  then obtain b bs' where bs: "bs = b # bs'" by (cases bs) auto
  with Suc.prems alloc_from_slab_pops [of s slab f b bs'] obtain s1 where
    "alloc_from_slab slab s = Inr (slab + b, s1)" "slab_holds s1 slab f bs'" by auto
  with Suc.IH [of s1 bs'] Suc.prems(2) bs show ?case by auto
qed simp

text \<open>The two searches for an object size, from index \<open>i\<close>.\<close>

lemma find_size_spec:
  assumes "i + length cs < 256"
  shows "case find_size cs sz i of
      Some j \<Rightarrow> j < i + length cs \<and> i \<le> j \<and> sz \<le> cs ! (j - i) \<and> (\<forall>k < j - i. cs ! k < sz) \<and> slab_index_loop cs sz (of_nat i) = of_nat j
    | None \<Rightarrow> (\<forall>c \<in> set cs. c < sz) \<and> slab_index_loop cs sz (of_nat i) = -1"
  using assms
proof (induction cs arbitrary: i)
  case (Cons c cs)
  have u: "ucast (of_nat i :: u32) = (of_nat i :: u8)"
    using Cons.prems by (simp add: unsigned_of_nat take_bit_nat_eq_self)
  show ?case
  proof (cases "sz \<le> c")
    case True
    with u show ?thesis by simp
  next
    case False
    with Cons.IH [of "Suc i"] Cons.prems show ?thesis
      by (auto simp: nth_Cons' Suc_diff_le add.commute not_le split: option.splits)
  qed
qed simp

section \<open>Properties\<close>

text \<open>
  C12. Life of a slab whose page is mapped, for every object size of the caches: \<open>init_slab\<close> succeeds; successive
  \<open>alloc_from_slab\<close> hand out, in order, the objects that fill the page behind the header without overlap, then
  NULL; and an object given back with \<open>slab_free\<close> is the next one handed out.
\<close>

theorem slab_life:
  assumes "data_page s slab f" and "os \<in> set cache_sizes" and "n = 4076 div unat os"
  shows "\<exists>s1 s2 s3. init_slab slab os s = Inr s1
     \<and> alloc_many (alloc_from_slab slab) n s1 = Inr (map (\<lambda>k. slab + 20 + of_nat k * os) [0 ..< n], s2)
     \<and> alloc_from_slab slab s2 = Inr (0, s2)
     \<and> (\<forall>k < n. 20 + k * unat os + unat os \<le> 4096)
     \<and> (\<forall>k < n. slab_free slab (slab + 20 + of_nat k * os) s2 = Inr (s3 k)
          \<and> (\<exists>s4. alloc_from_slab slab (s3 k) = Inr (slab + 20 + of_nat k * os, s4)))"
proof -
  have n: "n = slab_capacity os" "0 < slab_capacity os" using assms(2,3) by (auto simp: slab_capacity_def cache_sizes_def)
  obtain s1 where s1: "init_slab slab os s = Inr s1" "slab_holds s1 slab f (map (object_at os) [0 ..< n])"
    using init_slab_holds [OF assms(1) n(2)] n(1) by auto
  obtain s2 where s2: "alloc_many (alloc_from_slab slab) n s1 = Inr (map (\<lambda>k. slab + 20 + of_nat k * os) [0 ..< n], s2)"
      "slab_holds s2 slab f []"
    using alloc_many_slab [OF s1(2), of n] by (auto simp: object_at_def add.assoc comp_def)
  have "\<exists>s3. slab_free slab (slab + 20 + of_nat k * os) s2 = Inr s3
      \<and> (\<exists>s4. alloc_from_slab slab s3 = Inr (slab + 20 + of_nat k * os, s4))" if "k < n" for k
  proof -
    have k: "20 \<le> object_at os k" "object_at os k < 4096" using object_offset [of k os] that n(1) by auto
    obtain s3 where "slab_free slab (slab + object_at os k) s2 = Inr s3" "slab_holds s3 slab f [object_at os k]"
      using slab_free_pushes [OF s2(2) k] by auto
    with alloc_from_slab_pops [of s3 slab f "object_at os k" "[]"] show ?thesis
      by (auto simp: object_at_def add.assoc)
  qed
  then obtain s3 where s3: "\<forall>k < n. slab_free slab (slab + 20 + of_nat k * os) s2 = Inr (s3 k)
      \<and> (\<exists>s4. alloc_from_slab slab (s3 k) = Inr (slab + 20 + of_nat k * os, s4))" by metis
  have "\<forall>k < n. 20 + k * unat os + unat os \<le> 4096" using object_in_page(2) n(1) by blast
  with s1(1) s2(1) alloc_from_slab_empty [OF s2(2)] s3 show ?thesis by blast
qed

text \<open>A frame that holds neither the directory nor the page table of \<open>v\<close> is a data page.\<close>

lemma data_page_mapped:
  assumes "paging_enabled s" and "aligned (cr3 s)" and "aligned v" and "translate s v = Some f" and "aligned f"
    and "f \<noteq> cr3 s" and "f \<noteq> get_frame_addr (pde s (get_directory_index v))"
  shows "data_page s v f"
proof -
  have "translate (s\<lparr>mem := m\<rparr>) (v + b) = Some (f + b)" if m: "\<forall>p. get_frame_addr p \<noteq> f \<longrightarrow> m p = mem s p" and b: "b < 4096" for m b
  proof -
    have off: "get_frame_addr (entry_addr a i) = a" if "aligned a" "i < 1024" for a i
      using frame_of_sum [OF that(1) quad_less [OF that(2)]] by (simp add: entry_addr_def)
    let ?s = "s\<lparr>mem := m\<rparr>" and ?d = "get_directory_index v" and ?t = "get_table_index v"
    have pde: "pde ?s ?d = pde s ?d" using m off [OF assms(2), of ?d] assms(6) by (simp add: pde_def)
    have pte: "m (entry_addr (get_frame_addr (pde s ?d)) ?t) = mem s (entry_addr (get_frame_addr (pde s ?d)) ?t)"
      using m off [of "get_frame_addr (pde s ?d)" ?t] assms(7) by simp
    have "get_frame_addr (v + b) = get_frame_addr v" using frame_of_sum [OF assms(3) b] assms(3) get_frame_aligned by simp
    then have idx: "get_directory_index (v + b) = ?d" "get_table_index (v + b) = ?t" by (simp_all add: same_page_iff)
    have vb: "get_frame_offset v = 0" using assms(3) by (simp add: get_frame_offset_def aligned_def)
    have bb: "get_frame_offset (v + b) = b"
    proof (rule bit_word_eqI)
      fix n assume "n < LENGTH(32)"
      have "n < 12" if "bit b n" using less_pow_bits [of b 12 n] b that by force
      then show "bit (get_frame_offset (v + b)) n = bit b n"
        using assms(3) by (auto simp: frame_plus_offset [OF assms(3) b] bit_frame_offset bit_simps aligned_bits)
    qed
    show ?thesis
      using assms(1,2,4) pde pte vb bb idx
      by (auto simp: translate_eq Let_def pde_def [of "s\<lparr>mem := m\<rparr>"] split: if_splits)
  qed
  with assms(3,5) show ?thesis by (simp add: data_page_def)
qed

lemma space_with_page_data: "data_page space_with_page 0x5000 0x9000"
proof -
  have ok: "vm_ok space_with_page" "is_page_present (pde space_with_page (get_directory_index 0x5000))"
    using space_with_page_ok(1) by (simp_all add: mappable_def)
  have sel: "cr3 space_with_page = 0x1000" by (simp add: space_with_page_def small_space_def)
  have "pde space_with_page (get_directory_index 0x5000) = 0x2003"
    using small_space_mappable small_space_pde [of 0] by (simp add: space_with_page_def get_directory_index_def)
  then show ?thesis
    using ok space_with_page_ok(3) sel translate_eq [of space_with_page "0x5000"]
    by (intro data_page_mapped)
       (auto simp: vm_ok_def aligned_def pte_addr_def get_frame_addr_def get_frame_offset_def is_page_present_def PRESENT_def)
qed

theorem slab_life_witness:
  "\<exists>s1 s2. init_slab 0x5000 2048 space_with_page = Inr s1
     \<and> alloc_many (alloc_from_slab 0x5000) 1 s1 = Inr ([0x5014], s2) \<and> alloc_from_slab 0x5000 s2 = Inr (0, s2)"
  using slab_life [OF space_with_page_data, of 2048 1] by (auto simp: cache_sizes_def)

text \<open>
  For every size a cache can serve, the cache \<open>get_cache\<close> picks has the smallest objects that fit, and the
  table lookup \<open>get_slab_index\<close> gives the same index; above 2048 bytes there is no cache and the index is -1.
\<close>

theorem get_cache_smallest:
  "(case get_cache sz of
      Some i \<Rightarrow> i < 8 \<and> sz \<le> cache_sizes ! i \<and> (\<forall>j < i. cache_sizes ! j < sz) \<and> get_slab_index sz = of_nat i
    | None \<Rightarrow> 2048 < sz \<and> get_slab_index sz = -1)"
proof (cases "get_cache sz")
  case None
  then show ?thesis
    using find_size_spec [of 0 cache_sizes sz] by (simp add: get_cache_def get_slab_index_def cache_sizes_def)
next
  case (Some i)
  then show ?thesis
    using find_size_spec [of 0 cache_sizes sz] by (simp add: get_cache_def get_slab_index_def cache_sizes_def)
qed


theorem get_cache_smallest_witness: "get_cache 100 = Some 3 \<and> 100 \<le> cache_sizes ! 3 \<and> cache_sizes ! 2 < 100 \<and> get_slab_index 100 = 3"
proof -
  have "get_cache 100 = Some 3" by (simp add: get_cache_def cache_sizes_def)
  then show ?thesis using get_cache_smallest [of 100] by simp
qed



text \<open>A machine before paging is on, whose directory entries are all present with frame 0, as \<open>vmm_init\<close> makes them.\<close>

definition heap_machine :: kvm where
  "heap_machine = \<lparr>mem = (\<lambda>_. KERNEL_PAGE_FLAGS), cr3 = 0, paging_enabled = False, current_directory = 0x1000,
     fifo_nodes = Map.empty, fifo_head = 0, fifo_tail = 0, fifo_count = 0, pmm = pmm_static, slots = slots_static,
     heap_base = 0x4000000, heap = kheap_static\<lparr>current_heap_addr := 0x4000000\<rparr>\<rparr>"


end
