(* ===== verification/Process.thy ===== *)
theory Process
  imports Scheduler Kmalloc_Properties
begin

text \<open>
  processes/process.c, pcb.c and pid.c: process descriptors, their saved contexts and address spaces, the
  initial stack of a new process, and the end of the context switch (processes/context_switch.asm) that
  starts it. Descriptors live in typed stores indexed by their address; page tables and stacks are words
  of the memory manager's memory.
\<close>

section \<open>Data\<close>

datatype priority_t = HIGH | MEDIUM | LOW
datatype process_state_t = READY | RUNNING | BLOCKED | TERMINATED

record context_t =
  c_edi :: u32
  c_esi :: u32
  c_ebp :: u32
  c_esp :: u32
  c_ebx :: u32
  c_edx :: u32
  c_ecx :: u32
  c_eax :: u32
  c_eip :: u32
  c_eflags :: u32

record pcb_t =
  pcb_context :: u32
  pcb_vm_context :: u32
  pcb_state :: process_state_t

record process_t =
  pr_pcb :: u32
  pr_pid :: u32
  pr_name :: buffer
  pr_priority :: priority_t

record 'h process_world =
  vm :: "'h vmm"
  rq :: sched
  processes :: "u32 \<rightharpoonup> process_t"
  pcbs :: "u32 \<rightharpoonup> pcb_t"
  contexts :: "u32 \<rightharpoonup> context_t"
  next_pid :: u32

definition PROCESS_NAME_MAX_LENGTH :: nat where "PROCESS_NAME_MAX_LENGTH = 32"
definition DEFAULT_EFLAGS :: u32 where "DEFAULT_EFLAGS = 0x202"
definition sizeof_process :: u32 where "sizeof_process = 44"
definition sizeof_pcb :: u32 where "sizeof_pcb = 12"
definition sizeof_context :: u32 where "sizeof_context = 40"
definition sizeof_vm_context :: u32 where "sizeof_vm_context = 8"

text \<open>Reading through a pointer to no live object is undefined.\<close>

definition deref :: "(u32 \<rightharpoonup> 'a) \<Rightarrow> u32 \<Rightarrow> 'a run" where
  "deref m p = (case m p of Some x \<Rightarrow> Inr x | None \<Rightarrow> Inl (Use_after_free p))"

definition proc_kmalloc :: "'h services \<Rightarrow> u32 \<Rightarrow> 'h process_world \<Rightarrow> (u32 \<times> 'h process_world) run" where
  "proc_kmalloc sv n s = bind_run (sv_kmalloc sv n (vm s)) (\<lambda>(p, v). Inr (p, s\<lparr>vm := v\<rparr>))"

definition in_vm :: "('h vmm \<Rightarrow> 'h vmm run) \<Rightarrow> 'h process_world \<Rightarrow> 'h process_world run" where
  "in_vm f s = bind_run (f (vm s)) (\<lambda>v. Inr (s\<lparr>vm := v\<rparr>))"

section \<open>pid.c and pcb.c\<close>

definition pid_alloc :: "'h process_world \<Rightarrow> u32 \<times> 'h process_world" where
  "pid_alloc s = (next_pid s, s\<lparr>next_pid := next_pid s + 1\<rparr>)"

definition pid_free :: "u32 \<Rightarrow> 'h process_world \<Rightarrow> 'h process_world" where
  "pid_free pid s = s"

definition context_create :: "'h services \<Rightarrow> u32 \<Rightarrow> u32 \<Rightarrow> 'h process_world \<Rightarrow> (u32 \<times> 'h process_world) run" where
  "context_create sv eip esp s =
     bind_run (proc_kmalloc sv sizeof_context s) (\<lambda>(context, s).
       if context = 0 then Inr (0, s)
       else Inr (context, s\<lparr>contexts := (contexts s)(context \<mapsto>
         \<lparr>c_edi = 0, c_esi = 0, c_ebp = 0, c_esp = esp, c_ebx = 0, c_edx = 0, c_ecx = 0, c_eax = 0, c_eip = eip,
          c_eflags = DEFAULT_EFLAGS\<rparr>)\<rparr>))"

definition context_destroy :: "'h services \<Rightarrow> u32 \<Rightarrow> 'h process_world \<Rightarrow> 'h process_world run" where
  "context_destroy sv context s =
     bind_run (in_vm (sv_kfree sv context) s) (\<lambda>s. Inr (s\<lparr>contexts := (contexts s)(context := None)\<rparr>))"

definition pcb_create :: "'h services \<Rightarrow> u32 \<Rightarrow> u32 \<Rightarrow> u32 \<Rightarrow> 'h process_world \<Rightarrow> (u32 \<times> 'h process_world) run" where
  "pcb_create sv eip esp vm_context_parent s =
     (if vm_context_parent = 0 then Inr (0, s)
      else
        bind_run (proc_kmalloc sv sizeof_pcb s) (\<lambda>(pcb, s).
          if pcb = 0 then Inr (0, s)
          else
            bind_run (context_create sv eip esp s) (\<lambda>(context, s).
            bind_run (load vm_context_parent (vm s)) (\<lambda>page_dir.
            bind_run (vmm_create_vm_context sv page_dir (vm s)) (\<lambda>(vm_context, v).
            Inr (pcb, s\<lparr>vm := v, pcbs := (pcbs s)(pcb \<mapsto>
              \<lparr>pcb_context = context, pcb_vm_context = vm_context, pcb_state = READY\<rparr>)\<rparr>))))))"

definition pcb_destroy :: "'h services \<Rightarrow> u32 \<Rightarrow> 'h process_world \<Rightarrow> 'h process_world run" where
  "pcb_destroy sv pcb s =
     (if pcb = 0 then Inr s
      else
        bind_run (deref (pcbs s) pcb) (\<lambda>b.
        bind_run (context_destroy sv (pcb_context b) s) (\<lambda>s.
        bind_run (in_vm (vmm_destroy_vm_context sv (pcb_vm_context b)) s) (\<lambda>s.
        bind_run (in_vm (sv_kfree sv pcb) s) (\<lambda>s.
        Inr (s\<lparr>pcbs := (pcbs s)(pcb := None)\<rparr>))))))"

section \<open>process.c\<close>

definition line :: "string \<Rightarrow> buffer \<Rightarrow> u32 \<Rightarrow> screen \<Rightarrow> screen run" where
  "line text str arg scr = printf (\<lambda>_. str) (chars text @ [10, 0]) (word_bytes arg) scr"

fun state_code :: "process_state_t \<Rightarrow> u32" where
  "state_code READY = 0" | "state_code RUNNING = 1" | "state_code BLOCKED = 2" | "state_code TERMINATED = 3"

fun priority_code :: "priority_t \<Rightarrow> u32" where
  "priority_code HIGH = 0" | "priority_code MEDIUM = 1" | "priority_code LOW = 2"

definition pcb_print :: "u32 \<Rightarrow> 'h process_world \<Rightarrow> screen \<Rightarrow> screen run" where
  "pcb_print pcb s scr =
     (if pcb = 0 then
        Inl (Panic (''Trying to print a NULL pcb, what the hell are you doing?'' @ [CHR 0x0A] @ '' Closing the computer as punishment''))
      else
        bind_run (deref (pcbs s) pcb) (\<lambda>b.
        bind_run (line ''PCB context: %p'' [] (pcb_context b) scr) (\<lambda>scr.
        bind_run (line ''PCB vm_context: %p'' [] (pcb_vm_context b) scr) (\<lambda>scr.
        line ''PCB state: %d'' [] (state_code (pcb_state b)) scr))))"

definition process_print :: "u32 \<Rightarrow> 'h process_world \<Rightarrow> screen \<Rightarrow> screen run" where
  "process_print process s scr =
     (if process = 0 then Inl (Panic ''Trying to print a NULL process, what the hell are you doing?'')
      else
        bind_run (deref (processes s) process) (\<lambda>p.
        bind_run (line ''Process name: %s'' (pr_name p) 0 scr) (\<lambda>scr.
        bind_run (line ''Process PID: %d'' [] (pr_pid p) scr) (\<lambda>scr.
        bind_run (line ''Process priority: %d'' [] (priority_code (pr_priority p)) scr) (\<lambda>scr.
        bind_run (pcb_print (pr_pcb p) s scr) (\<lambda>scr.
        bind_run (deref (pcbs s) (pr_pcb p)) (\<lambda>b.
        line ''Process VM Context at %p'' [] (pcb_vm_context b) scr)))))))"

definition process_destroy :: "'h services \<Rightarrow> u32 \<Rightarrow> 'h process_world \<Rightarrow> 'h process_world run" where
  "process_destroy sv process s =
     (if process = 0 then Inr s
      else
        bind_run (deref (processes s) process) (\<lambda>p.
        bind_run (pcb_destroy sv (pr_pcb p) s) (\<lambda>s.
        bind_run (in_vm (sv_kfree sv process) (pid_free (pr_pid p) s)) (\<lambda>s.
        Inr (s\<lparr>processes := (processes s)(process := None)\<rparr>)))))"

text \<open>The loop of \<open>process_create_stack\<close> from page \<open>i\<close>, with \<open>n\<close> pages left.\<close>

fun stack_pages :: "'h services \<Rightarrow> u32 \<Rightarrow> u32 \<Rightarrow> nat \<Rightarrow> 'h vmm \<Rightarrow> 'h vmm run" where
  "stack_pages sv esp_top i 0 v = Inr v"
| "stack_pages sv esp_top i (Suc n) v =
     (let (pa, v) = vmm_alloc_frame v in
      if pa = PMM_NO_FRAME_AVAILABLE then Inl (Panic ''pmm_alloc_frame() failed while building stack'')
      else
        let vir_addr = esp_top - (i + 1) * PAGE_SIZE in
        bind_run (vmm_map_page_to_curr_dir sv vir_addr pa EMPTY_USER_PAGE_DIR_FLAGS v) (\<lambda>v.
        bind_run (zero_words vir_addr 1024 v) (\<lambda>v.
        stack_pages sv esp_top (i + 1) n v)))"

text \<open>The initial trap frame of eleven words below \<open>esp_top\<close>.\<close>

definition build_frame :: "u32 \<Rightarrow> u32 \<Rightarrow> 'h vmm \<Rightarrow> 'h vmm run" where
  "build_frame esp_frame eip v =
     bind_run (zero_words esp_frame 11 v) (\<lambda>v.
     bind_run (store (esp_frame + 4 * 3) 0 v) (\<lambda>v.
     bind_run (store (esp_frame + 4 * 8) DEFAULT_EFLAGS v) (\<lambda>v.
     store (esp_frame + 4 * 10) eip v)))"

definition process_create_stack :: "'h services \<Rightarrow> u32 \<Rightarrow> u32 \<Rightarrow> 'h process_world \<Rightarrow> 'h process_world run" where
  "process_create_stack sv process stack_size s =
     (if process = 0 then Inr s
      else
        bind_run (deref (processes s) (scheduler_get_current_process (rq s))) (\<lambda>cur.
        bind_run (deref (pcbs s) (pr_pcb cur)) (\<lambda>cur_pcb.
        bind_run (deref (processes s) process) (\<lambda>p.
        bind_run (deref (pcbs s) (pr_pcb p)) (\<lambda>b.
        bind_run (deref (contexts s) (pcb_context b)) (\<lambda>c.
        let pages = unat (((stack_size + PAGE_SIZE - 1) AND NOT (PAGE_SIZE - 1)) div PAGE_SIZE);
            esp_top = c_esp c; esp_frame = esp_top - 44 in
        bind_run (in_vm (vmm_switch_vm_context (pcb_vm_context b)) s) (\<lambda>s.
        bind_run (in_vm (stack_pages sv esp_top 0 pages) s) (\<lambda>s.
        bind_run (in_vm (build_frame esp_frame (c_eip c)) s) (\<lambda>s.
        bind_run (in_vm (vmm_switch_vm_context (pcb_vm_context cur_pcb)) s) (\<lambda>s.
        Inr (s\<lparr>contexts := (contexts s)(pcb_context b \<mapsto> c\<lparr>c_esp := esp_frame\<rparr>)\<rparr>)))))))))))"

text \<open>Copy a name of at most 31 characters into the 32-byte array, always terminated.\<close>

definition set_name :: "buffer \<Rightarrow> buffer run" where
  "set_name name =
     bind_run (strncpy (replicate 32 0) name (int (PROCESS_NAME_MAX_LENGTH - 1))) (\<lambda>b.
     wr (PROCESS_NAME_MAX_LENGTH - 1) 0 b)"

definition process_create ::
  "'h services \<Rightarrow> u32 \<Rightarrow> buffer \<Rightarrow> priority_t \<Rightarrow> u32 \<Rightarrow> 'h process_world \<Rightarrow> (u32 \<times> 'h process_world) run" where
  "process_create sv entry_point name priority parent s =
     (if parent = 0 then Inr (0, s)
      else
        bind_run (proc_kmalloc sv sizeof_process s) (\<lambda>(process, s).
          if process = 0 then Inr (0, s)
          else
            bind_run (deref (processes s) parent) (\<lambda>pp.
            bind_run (deref (pcbs s) (pr_pcb pp)) (\<lambda>pb.
            bind_run (pcb_create sv entry_point 100000000 (pcb_vm_context pb) s) (\<lambda>(pcb, s).
              if pcb = 0 then bind_run (in_vm (sv_kfree sv process) s) (\<lambda>s. Inr (0, s))
              else
                let s = s\<lparr>processes := (processes s)(process \<mapsto>
                      \<lparr>pr_pcb = pcb, pr_pid = 0, pr_name = replicate 32 0, pr_priority = priority\<rparr>)\<rparr> in
                bind_run (process_create_stack sv process (0x1000 * 5) s) (\<lambda>s.
                let (pid, s) = pid_alloc s in
                bind_run (set_name name) (\<lambda>nm.
                Inr (process, s\<lparr>processes := (processes s)(process \<mapsto>
                  \<lparr>pr_pcb = pcb, pr_pid = pid, pr_name = nm, pr_priority = priority\<rparr>)\<rparr>))))))))"

text \<open>\<open>kernel_directory\<close> is the address \<open>vmm_get_kernel_page_directory\<close> returns.\<close>

definition processes_init :: "'h services \<Rightarrow> u32 \<Rightarrow> 'h process_world \<Rightarrow> 'h process_world run" where
  "processes_init sv kernel_directory s =
     bind_run (proc_kmalloc sv sizeof_process s) (\<lambda>(proc, s).
       if proc = 0 then Inl (Panic ''Failed to allocate memory for the current process'')
       else
         bind_run (proc_kmalloc sv sizeof_vm_context s) (\<lambda>(vm_context, s).
           if vm_context = 0 then Inl (Panic ''Failed to allocate memory for the current process vm_context'')
           else
             bind_run (in_vm (store vm_context kernel_directory) s) (\<lambda>s.
             bind_run (in_vm (store (vm_context + 4) kernel_directory) s) (\<lambda>s.
             bind_run (pcb_create sv 0 0 vm_context s) (\<lambda>(pcb, s).
             let (pid, s) = pid_alloc s in
             bind_run (set_name (ascii ''kernel_init'')) (\<lambda>nm.
             let s = s\<lparr>processes := (processes s)(proc \<mapsto>
                   \<lparr>pr_pcb = pcb, pr_pid = pid, pr_name = nm, pr_priority = HIGH\<rparr>)\<rparr> in
             bind_run (deref (pcbs s) pcb) (\<lambda>b.
             bind_run (deref (contexts s) (pcb_context b)) (\<lambda>c.
             let s = s\<lparr>contexts := (contexts s)(pcb_context b \<mapsto> c\<lparr>c_edi := 0\<rparr>)\<rparr> in
             bind_run (scheduler_init (sv_kmalloc sv) proc (rq s) (vm s)) (\<lambda>(q, v).
             Inr (s\<lparr>rq := q, vm := v\<rparr>))))))))))"

section \<open>process_switch\<close>

text \<open>
  processes/context_switch.asm. \<open>r\<close> holds the registers at the call, with \<open>c_esp r\<close> the address of the return
  address: \<open>push ebp; mov ebp, esp; pushfd; pushad\<close>.
\<close>

fun push_words :: "u32 list \<Rightarrow> u32 \<Rightarrow> 'h vmm \<Rightarrow> (u32 \<times> 'h vmm) run" where
  "push_words [] esp v = Inr (esp, v)"
| "push_words (x # xs) esp v = bind_run (store (esp - 4) x v) (push_words xs (esp - 4))"

definition switch_save :: "context_t \<Rightarrow> 'h vmm \<Rightarrow> (u32 \<times> 'h vmm) run" where
  "switch_save r v =
     push_words [c_ebp r, c_eflags r, c_eax r, c_ecx r, c_edx r, c_ebx r, c_esp r - 8, c_esp r - 4, c_esi r, c_edi r] (c_esp r) v"

text \<open>The values copied into the descriptor of the process that is left.\<close>

definition saved_context :: "u32 \<Rightarrow> 'h vmm \<Rightarrow> context_t run" where
  "saved_context esp v =
     bind_run (load esp v) (\<lambda>edi.
     bind_run (load (esp + 4) v) (\<lambda>esi.
     bind_run (load (esp + 8) v) (\<lambda>ebp.
     bind_run (load (esp + 16) v) (\<lambda>ebx.
     bind_run (load (esp + 20) v) (\<lambda>edx.
     bind_run (load (esp + 24) v) (\<lambda>ecx.
     bind_run (load (esp + 28) v) (\<lambda>eax.
     bind_run (load (esp + 36) v) (\<lambda>eflags.
     bind_run (load (esp + 40) v) (\<lambda>eip.
     Inr \<lparr>c_edi = edi, c_esi = esi, c_ebp = ebp, c_esp = esp, c_ebx = ebx, c_edx = edx, c_ecx = ecx, c_eax = eax,
          c_eip = eip, c_eflags = eflags\<rparr>)))))))))"

text \<open>\<open>popad; popfd; pop ebp; ret\<close> with the new stack pointer: the registers the process runs with.\<close>

definition switch_restore :: "u32 \<Rightarrow> 'h vmm \<Rightarrow> context_t run" where
  "switch_restore esp v =
     bind_run (load esp v) (\<lambda>edi.
     bind_run (load (esp + 4) v) (\<lambda>esi.
     bind_run (load (esp + 8) v) (\<lambda>_.
     bind_run (load (esp + 16) v) (\<lambda>ebx.
     bind_run (load (esp + 20) v) (\<lambda>edx.
     bind_run (load (esp + 24) v) (\<lambda>ecx.
     bind_run (load (esp + 28) v) (\<lambda>eax.
     bind_run (load (esp + 32) v) (\<lambda>eflags.
     bind_run (load (esp + 36) v) (\<lambda>ebp.
     bind_run (load (esp + 40) v) (\<lambda>eip.
     Inr \<lparr>c_edi = edi, c_esi = esi, c_ebp = ebp, c_esp = esp + 44, c_ebx = ebx, c_edx = edx, c_ecx = ecx, c_eax = eax,
          c_eip = eip, c_eflags = eflags\<rparr>))))))))))"


text \<open>
  The whole switch. The two words the call of \<open>vmm_switch_vm_context\<close> pushes below the saved frame are
  dead when it returns and are left out.
\<close>

definition process_switch :: "u32 \<Rightarrow> context_t \<Rightarrow> 'h process_world \<Rightarrow> (context_t \<times> 'h process_world) run" where
  "process_switch next r s =
     bind_run (switch_save r (vm s)) (\<lambda>(esp, v).
     let s = s\<lparr>vm := v\<rparr> in
     bind_run (deref (processes s) (current_process (rq s))) (\<lambda>p.
     bind_run (deref (pcbs s) (pr_pcb p)) (\<lambda>b.
     bind_run (deref (contexts s) (pcb_context b)) (\<lambda>_.
     bind_run (saved_context esp v) (\<lambda>c.
     let s = s\<lparr>contexts := (contexts s)(pcb_context b \<mapsto> c), rq := (rq s)\<lparr>current_process := next\<rparr>\<rparr> in
     bind_run (deref (processes s) next) (\<lambda>p.
     bind_run (deref (pcbs s) (pr_pcb p)) (\<lambda>b.
     bind_run (in_vm (vmm_switch_vm_context (pcb_vm_context b)) s) (\<lambda>s.
     bind_run (deref (contexts s) (pcb_context b)) (\<lambda>c.
     bind_run (switch_restore (c_esp c) (vm s)) (\<lambda>r.
     Inr (r, s)))))))))))"


section \<open>Starting a process\<close>

text \<open>Zeroing words of a data page.\<close>

lemma word_offset:
  assumes "unat off + 4 * k < 2 ^ 32"
  shows "unat (off + 4 * of_nat k :: u32) = unat off + 4 * k"
proof -
  have "unat (4 * of_nat k :: u32) = 4 * k"
    using assms unat_of_nat_exact [of "4 * k", where 'a = 32] by simp
  then show ?thesis using assms by (subst unat_add_exact) auto
qed

lemma zero_words_page:
  assumes "data_page v page f" and "unat off + 4 * n \<le> 4096"
  shows "\<exists>v'. zero_words (page + off) n v = Inr v' \<and> data_page v' page f
     \<and> (\<forall>k < n. words_of f v' (off + 4 * of_nat k) = 0)
     \<and> (\<forall>b. (\<forall>k < n. b \<noteq> off + 4 * of_nat k) \<longrightarrow> words_of f v' b = words_of f v b)"
  using assms
proof (induction n arbitrary: off v)
  case 0
  then show ?case by auto
next
  case (Suc n)
  have off: "off < 4096" using Suc.prems(2) by (simp add: word_less_nat_alt)
  have u: "unat (off + 4) = unat off + 4" using Suc.prems(2) by (subst unat_add_exact) auto
  have shift: "off + 4 + 4 * of_nat k = off + 4 * of_nat (Suc k)" for k by (simp add: algebra_simps)
  let ?v = "put_word f off 0 v"
  obtain v' where v': "zero_words (page + (off + 4)) n ?v = Inr v'" "data_page v' page f"
      "\<forall>k < n. words_of f v' (off + 4 * of_nat (Suc k)) = 0"
      "\<forall>b. (\<forall>k < n. b \<noteq> off + 4 * of_nat (Suc k)) \<longrightarrow> words_of f v' b = words_of f ?v b"
    using Suc.IH [of ?v "off + 4"] Suc.prems off u unfolding shift by auto
  have "off \<noteq> off + 4 * of_nat (Suc k)" if "k < n" for k
  proof
    assume eq: "off = off + 4 * of_nat (Suc k)"
    have "unat (off + 4 * of_nat (Suc k)) = unat off + 4 * Suc k" using Suc.prems(2) that by (intro word_offset) simp
    then show False unfolding eq [symmetric] by simp
  qed
  then have "words_of f v' off = 0" using v'(4) by simp
  then have "\<forall>k < Suc n. words_of f v' (off + 4 * of_nat k) = 0"
    using v'(3) by (auto simp: less_Suc_eq_0_disj)
  moreover have "\<forall>b. (\<forall>k < Suc n. b \<noteq> off + 4 * of_nat k) \<longrightarrow> words_of f v' b = words_of f v b"
  proof (intro allI impI)
    fix b assume b: "\<forall>k < Suc n. b \<noteq> off + 4 * of_nat k"
    have "b \<noteq> off" using b [rule_format, of 0] by simp
    moreover have "\<forall>k < n. b \<noteq> off + 4 * of_nat (Suc k)" using b by blast
    ultimately show "words_of f v' b = words_of f v b" using v'(4) [rule_format, of b] by simp
  qed
  ultimately show ?case
    using v'(1,2) data_page_access(2) [OF Suc.prems(1) off] by (simp add: add.assoc)
qed




text \<open>Pushing onto a data page.\<close>

lemma push_words_page:
  assumes "data_page v page f" and "unat off \<le> 4096" and "4 * length xs \<le> unat off"
  shows "\<exists>v'. push_words xs (page + off) v = Inr (page + off - of_nat (4 * length xs), v') \<and> data_page v' page f
     \<and> (\<forall>k < length xs. words_of f v' (off - of_nat (4 * Suc k)) = xs ! k)
     \<and> (\<forall>b. off \<le> b \<longrightarrow> words_of f v' b = words_of f v b)"
  using assms
proof (induction xs arbitrary: off v)
  case (Cons x xs)
  have u: "unat (off - 4) = unat off - 4" using Cons.prems(3) by (simp add: unat_sub word_le_nat_alt)
  have off: "off - 4 < 4096" using Cons.prems(2,3) by (simp add: word_less_nat_alt u)
  let ?v = "put_word f (off - 4) x v"
  obtain v' where v': "push_words xs (page + (off - 4)) ?v = Inr (page + (off - 4) - of_nat (4 * length xs), v')"
      "data_page v' page f" "\<forall>k < length xs. words_of f v' (off - 4 - of_nat (4 * Suc k)) = xs ! k"
      "\<forall>b. off - 4 \<le> b \<longrightarrow> words_of f v' b = words_of f ?v b"
  proof -
    have "data_page ?v page f" "unat (off - 4) \<le> 4096" "4 * length xs \<le> unat (off - 4)"
      using Cons.prems off u by simp_all
    then show thesis using Cons.IH [of ?v "off - 4"] that by blast
  qed
  have "words_of f v' (off - of_nat (4 * Suc k)) = (x # xs) ! k" if "k < length (x # xs)" for k
  proof (cases k)
    case (Suc j)
    have "off - of_nat (4 * Suc k) = off - 4 - of_nat (4 * Suc j)" by (simp add: Suc algebra_simps)
    moreover have "words_of f v' (off - 4 - of_nat (4 * Suc j)) = xs ! j" using v'(3) that Suc by simp
    ultimately show ?thesis by (simp only: Suc nth_Cons_Suc)
  qed (use v'(4) in simp)
  moreover have "words_of f v' b = words_of f v b" if "off \<le> b" for b
  proof -
    have "off - 4 \<le> b" "b \<noteq> off - 4" using that Cons.prems(3) by (auto simp: word_le_nat_alt u)
    then show ?thesis using v'(4) by simp
  qed
  moreover have "page + (off - 4) = page + off - 4"
    "page + off - 4 - of_nat (4 * length xs) = page + off - of_nat (4 * length (x # xs))" by (simp_all add: algebra_simps)
  ultimately show ?case
    using v'(1,2) data_page_access(2) [OF Cons.prems(1) off, of x] by (auto simp: algebra_simps)
qed simp



end
