(* ===== verification/Keyboard.thy ===== *)
theory Keyboard
  imports Ports
begin

text \<open>
  drivers/keyboard.c: the scancode state machine and the ring buffer between the interrupt handler and
  the shell. The ring's abstraction is the list of unread characters; a full ring of 256 characters is
  indistinguishable from an empty one.
\<close>

section \<open>State\<close>

record keyboard =
  keyboard_buffer :: buffer
  buffer_head :: u8
  buffer_tail :: u8
  shift_pressed :: bool
  put_on_screen :: bool
  caps_lock :: bool

definition BUFFER_SIZE :: int where "BUFFER_SIZE = 256"
definition KEYBOARD_DATA_PORT :: u16 where "KEYBOARD_DATA_PORT = 0x60"
definition KEYRELEASE_MASK :: u8 where "KEYRELEASE_MASK = 0x80"
definition SHIFT_KEY :: u8 where "SHIFT_KEY = 0x2A"
definition CAPS_LOCK :: u8 where "CAPS_LOCK = 0x3A"
definition BACKSPACE :: u8 where "BACKSPACE = 0x0E"

lemmas key_consts = KEYRELEASE_MASK_def SHIFT_KEY_def CAPS_LOCK_def BACKSPACE_def

text \<open>The static initialisers.\<close>

definition keyboard_boot :: keyboard where
  "keyboard_boot = \<lparr>keyboard_buffer = replicate 256 0, buffer_head = 0, buffer_tail = 0,
     shift_pressed = False, put_on_screen = True, caps_lock = False\<rparr>"

section \<open>The ring buffer\<close>

text \<open>The indices are computed as \<open>int\<close> and truncated to \<open>uint8_t\<close>.\<close>

definition is_keyboard_buffer_Empty :: "keyboard \<Rightarrow> bool" where
  "is_keyboard_buffer_Empty k \<longleftrightarrow> buffer_head k = buffer_tail k"

definition rm_last_char_buffer :: "keyboard \<Rightarrow> keyboard" where
  "rm_last_char_buffer k =
     (if buffer_head k = buffer_tail k then k
      else k\<lparr>buffer_head := word_of_int ((uint (buffer_head k) - 1) smod BUFFER_SIZE)\<rparr>)"

definition keyboard_buffer_put :: "u8 \<Rightarrow> keyboard \<Rightarrow> keyboard run" where
  "keyboard_buffer_put c k =
     bind_run (wr (unat (buffer_head k)) c (keyboard_buffer k)) (\<lambda>b.
     Inr (k\<lparr>keyboard_buffer := b,
            buffer_head := word_of_int ((uint (buffer_head k) + 1) smod BUFFER_SIZE)\<rparr>))"

text \<open>
  \<open>keyboard_buffer_get\<close> spins while the ring is empty, until an interrupt puts a character: \<open>None\<close> is the
  spinning call, which has changed nothing yet.
\<close>

definition keyboard_buffer_get :: "keyboard \<Rightarrow> (u8 \<times> keyboard) option run" where
  "keyboard_buffer_get k =
     (if is_keyboard_buffer_Empty k then Inr None
      else bind_run (rd (keyboard_buffer k) (unat (buffer_tail k))) (\<lambda>c.
        Inr (Some (c, k\<lparr>buffer_tail := word_of_int ((uint (buffer_tail k) + 1) smod BUFFER_SIZE)\<rparr>))))"

definition set_put_on_screen :: "bool \<Rightarrow> keyboard \<Rightarrow> keyboard" where
  "set_put_on_screen value k = k\<lparr>put_on_screen := value\<rparr>"

section \<open>Scancodes\<close>

definition kbd_us :: buffer where
  "kbd_us =
     (let table = [0, 27] @ chars ''1234567890-='' @ [8, 9]
        @ chars ''qwertyuiop[]'' @ [10, 0]
        @ chars ''asdfghjkl;'' @ [39, 96, 0, 92]
        @ chars ''zxcvbnm,./'' @ [0] @ chars ''*'' @ [0, 32, 0]
      in table @ replicate (128 - length table) 0)"

definition is_key_released :: "u8 \<Rightarrow> bool" where
  "is_key_released scancode \<longleftrightarrow> scancode AND KEYRELEASE_MASK \<noteq> 0"

definition scancode_to_ascii :: "u8 \<Rightarrow> u8 run" where
  "scancode_to_ascii scancode = (if scancode > 128 then Inr 0 else rd kbd_us (unat scancode))"

definition shift_table :: "(u8 \<times> u8) list" where
  "shift_table = zip (chars ''1234567890-=[]'' @ [92] @ chars '';'' @ [39] @ chars '',./'' @ [96])
                     (chars ''!@#$%^&*()_+{}|:'' @ [34] @ chars ''<>?'' @ [126])"

definition shift_ascii :: "u8 \<Rightarrow> u8" where
  "shift_ascii c =
     (if c \<ge> of_char CHR ''a'' \<and> c \<le> of_char CHR ''z'' then c - 32
      else case map_of shift_table c of Some d \<Rightarrow> d | None \<Rightarrow> c)"

section \<open>The state machine\<close>

definition handle_scancode :: "u8 \<Rightarrow> keyboard \<Rightarrow> screen \<Rightarrow> (keyboard \<times> screen) run" where
  "handle_scancode scancode k s =
     (if is_key_released scancode then
        let scancode = scancode - KEYRELEASE_MASK in
        Inr (if scancode = SHIFT_KEY then k\<lparr>shift_pressed := False\<rparr> else k, s)
      else if scancode = SHIFT_KEY then Inr (k\<lparr>shift_pressed := True\<rparr>, s)
      else if scancode = CAPS_LOCK then Inr (k\<lparr>caps_lock := \<not> caps_lock k\<rparr>, s)
      else if scancode = BACKSPACE then
        if \<not> is_keyboard_buffer_Empty k then
          let k = rm_last_char_buffer k in
          bind_run (if put_on_screen k then move_cursor_back s else Inr s) (\<lambda>s. Inr (k, s))
        else Inr (k, s)
      else
        bind_run (scancode_to_ascii scancode) (\<lambda>c.
          let c = (if shift_pressed k \<or> caps_lock k then shift_ascii c else c) in
          bind_run (keyboard_buffer_put c k) (\<lambda>k.
          bind_run (if put_on_screen k then put_char c s else Inr s) (\<lambda>s.
          Inr (k, s)))))"

definition keyboard_handler :: "device \<Rightarrow> keyboard \<Rightarrow> screen \<Rightarrow> io \<Rightarrow> (keyboard \<times> screen \<times> io) run" where
  "keyboard_handler dev k s io =
     (let (scancode, io) = inb dev KEYBOARD_DATA_PORT io in
      bind_run (handle_scancode scancode k s) (\<lambda>(k, s). Inr (k, s, pic_send_ack io)))"

section \<open>The ring as a queue\<close>

text \<open>The unread characters, oldest first.\<close>

definition unread :: "keyboard \<Rightarrow> u8 list" where
  "unread k = map (\<lambda>i. keyboard_buffer k ! unat (buffer_tail k + of_nat i))
                [0..<unat (buffer_head k - buffer_tail k)]"

definition keyboard_inv :: "keyboard \<Rightarrow> bool" where
  "keyboard_inv k \<longleftrightarrow> length (keyboard_buffer k) = 256"

lemma word_of_int_smod_256: "(word_of_int (x smod 256) :: u8) = word_of_int x"
proof -
  have "x = x sdiv 256 * 256 + x smod 256" by (simp only: sdiv_mult_smod_eq)
  then have "(word_of_int x :: u8) = word_of_int (x sdiv 256) * word_of_int 256 + word_of_int (x smod 256)"
    by (metis of_int_add of_int_mult)
  moreover have "word_of_int 256 = (0 :: u8)" by simp
  ultimately show ?thesis by (metis add_0 mult_zero_right)
qed

lemma ring_index [simp]:
  "word_of_int ((uint (h :: u8) + 1) smod BUFFER_SIZE) = h + 1"
  "word_of_int ((uint (h :: u8) - 1) smod BUFFER_SIZE) = h - 1"
  by (simp_all add: BUFFER_SIZE_def word_of_int_smod_256)

lemma ring_pos_inject:
  assumes "i < 256" and "j < 256"
  shows "(t :: u8) + of_nat i = t + of_nat j \<longleftrightarrow> i = j"
proof
  assume "t + of_nat i = t + of_nat j"
  then have "unat (of_nat i :: u8) = unat (of_nat j :: u8)" by simp
  then show "i = j" using assms by (simp add: unat_of_nat)
qed simp

lemma unread_length: "length (unread k) = unat (buffer_head k - buffer_tail k)"
  by (simp add: unread_def)

lemma unread_bound: "length (unread k) < 256"
  using unat_u8_less by (simp add: unread_length)

lemma unread_empty: "unread k = [] \<longleftrightarrow> is_keyboard_buffer_Empty k"
proof -
  have "unread k = [] \<longleftrightarrow> unat (buffer_head k - buffer_tail k) = 0"
    using unread_length [of k] by auto
  then show ?thesis by (simp add: is_keyboard_buffer_Empty_def unat_eq_0)
qed

lemma unread_put:
  assumes "keyboard_inv k"
  shows "\<exists>k'. keyboard_buffer_put c k = Inr k' \<and> keyboard_inv k'
           \<and> unread k' = (if length (unread k) < 255 then unread k @ [c] else [])"
proof -
  let ?n = "unat (buffer_head k - buffer_tail k)"
  define k' where "k' = k\<lparr>keyboard_buffer := (keyboard_buffer k)[unat (buffer_head k) := c],
    buffer_head := buffer_head k + 1\<rparr>"
  have put: "keyboard_buffer_put c k = Inr k'"
    using assms unat_u8_less [of "buffer_head k"]
    by (simp add: keyboard_buffer_put_def k'_def keyboard_inv_def)
  have head: "buffer_tail k + of_nat ?n = buffer_head k" by simp
  have n: "?n < 256" by (rule unat_u8_less)
  show ?thesis
  proof (cases "?n < 255")
    case True
    have "unat (buffer_head k + 1 - buffer_tail k) = unat (buffer_head k - buffer_tail k + 1)"
      by (simp add: algebra_simps)
    also have "\<dots> = Suc ?n" using True by (subst unat_add_exact) auto
    finally have n': "unat (buffer_head k + 1 - buffer_tail k) = Suc ?n" .
    have old: "(keyboard_buffer k)[unat (buffer_head k) := c] ! unat (buffer_tail k + of_nat i)
        = keyboard_buffer k ! unat (buffer_tail k + of_nat i)" if "i < ?n" for i
    proof -
      have "buffer_tail k + of_nat i \<noteq> buffer_tail k + of_nat ?n"
        using that n ring_pos_inject [of i ?n "buffer_tail k"] by simp
      then have "unat (buffer_head k) \<noteq> unat (buffer_tail k + of_nat i)"
        unfolding head by (metis word_unat_eq_iff)
      then show ?thesis by simp
    qed
    have new: "(keyboard_buffer k)[unat (buffer_head k) := c] ! unat (buffer_tail k + of_nat ?n) = c"
      using assms unat_u8_less [of "buffer_head k"] by (simp add: head keyboard_inv_def del: of_nat_unat)
    have "unread k' = unread k @ [c]"
      unfolding unread_def k'_def using old new by (simp add: n' del: of_nat_unat)
    with True put assms show ?thesis by (simp add: unread_length k'_def keyboard_inv_def)
  next
    case False
    with n have "?n = 255" by simp
    then have "buffer_head k - buffer_tail k = - 1" by (metis unat_minus_1(2) word_unat_eq_iff)
    then have "buffer_head k + 1 = buffer_tail k" by (simp add: algebra_simps)
    then have "unread k' = []" by (simp add: unread_empty is_keyboard_buffer_Empty_def k'_def)
    with False put assms show ?thesis by (simp add: unread_length k'_def keyboard_inv_def)
  qed
qed

lemma unread_get:
  assumes "keyboard_inv k" and "unread k = c # cs"
  shows "\<exists>k'. keyboard_buffer_get k = Inr (Some (c, k')) \<and> keyboard_inv k' \<and> unread k' = cs"
proof -
  define k' where "k' = k\<lparr>buffer_tail := buffer_tail k + 1\<rparr>"
  have len: "unat (buffer_head k - buffer_tail k) = Suc (length cs)"
    using assms(2) unread_length [of k] by simp
  then have len': "unat (buffer_head k - (buffer_tail k + 1)) = length cs"
    using unat_pred(2) [OF len] by (simp add: diff_diff_eq)
  have "\<not> is_keyboard_buffer_Empty k" using assms(2) unread_empty [of k] by simp
  moreover have "unread k = keyboard_buffer k ! unat (buffer_tail k) # unread k'"
    unfolding unread_def len k'_def
    by (simp add: len' upt_conv_Cons map_Suc_upt [symmetric] del: upt_Suc) (simp add: algebra_simps)
  moreover have "unat (buffer_tail k) < length (keyboard_buffer k)"
    using assms(1) unat_u8_less [of "buffer_tail k"] by (simp add: keyboard_inv_def)
  ultimately show ?thesis
    using assms by (simp add: keyboard_buffer_get_def k'_def keyboard_inv_def)
qed

lemma unread_rm:
  assumes "unread k = cs @ [c]"
  shows "unread (rm_last_char_buffer k) = cs"
proof -
  have len: "unat (buffer_head k - buffer_tail k) = Suc (length cs)"
    using assms unread_length [of k] by simp
  have "buffer_head k - 1 - buffer_tail k = buffer_head k - buffer_tail k - 1" by (simp add: algebra_simps)
  then have len': "unat (buffer_head k - 1 - buffer_tail k) = length cs"
    using unat_pred(2) [OF len] by metis
  have "buffer_head k \<noteq> buffer_tail k" using assms unread_empty [of k] by (auto simp: is_keyboard_buffer_Empty_def)
  then have "unread k = unread (rm_last_char_buffer k) @ [keyboard_buffer k ! unat (buffer_tail k + of_nat (length cs))]"
    unfolding unread_def len by (simp add: rm_last_char_buffer_def len')
  with assms show ?thesis by simp
qed

interpretation kbd: fifo keyboard_buffer_put keyboard_buffer_get unread 255 keyboard_inv
proof unfold_locales
  show "\<exists>k'. keyboard_buffer_put c k = Inr k' \<and> unread k' = unread k @ [c] \<and> keyboard_inv k'"
    if "keyboard_inv k" "length (unread k) < 255" for k c
    using unread_put [OF that(1), of c] that(2) by auto
  show "keyboard_buffer_get k = Inr None" if "keyboard_inv k" "unread k = []" for k
    using that unread_empty [of k] by (simp add: keyboard_buffer_get_def)
  show "\<exists>k'. keyboard_buffer_get k = Inr (Some (c, k')) \<and> unread k' = cs \<and> keyboard_inv k'"
    if "keyboard_inv k" "unread k = c # cs" for k c cs
    using unread_get [OF that] by auto
qed

section \<open>The state machine keeps the invariants\<close>

lemma unread_flags [simp]:
  "unread (k\<lparr>shift_pressed := b\<rparr>) = unread k" "unread (k\<lparr>caps_lock := b\<rparr>) = unread k"
  "keyboard_inv (k\<lparr>shift_pressed := b\<rparr>) = keyboard_inv k" "keyboard_inv (k\<lparr>caps_lock := b\<rparr>) = keyboard_inv k"
  by (simp_all add: unread_def keyboard_inv_def)

lemma rm_last_char_buffer_simps [simp]:
  "keyboard_inv (rm_last_char_buffer k) = keyboard_inv k"
  "shift_pressed (rm_last_char_buffer k) = shift_pressed k"
  "caps_lock (rm_last_char_buffer k) = caps_lock k"
  "put_on_screen (rm_last_char_buffer k) = put_on_screen k"
  by (simp_all add: rm_last_char_buffer_def keyboard_inv_def)

lemma unread_rm_butlast:
  assumes "\<not> is_keyboard_buffer_Empty k"
  shows "unread (rm_last_char_buffer k) = butlast (unread k)"
proof -
  have "unread k = butlast (unread k) @ [last (unread k)]" using assms unread_empty [of k] by simp
  then show ?thesis by (rule unread_rm)
qed

lemma keyboard_buffer_put_flags:
  "keyboard_buffer_put c k = Inr k' \<Longrightarrow> shift_pressed k' = shift_pressed k \<and> caps_lock k' = caps_lock k
     \<and> put_on_screen k' = put_on_screen k"
  by (auto simp: keyboard_buffer_put_def)

lemma is_key_released_iff: "is_key_released sc \<longleftrightarrow> 128 \<le> sc"
proof -
  have "sc AND 0x80 = 0 \<longleftrightarrow> \<not> bit sc 7"
    using and_one_shl_eq_0_iff [of sc 7] by (simp add: one_shl_def)
  moreover have "bit sc 7 \<longleftrightarrow> 128 \<le> unat sc"
  proof -
    have "unat sc div 128 < 2" using unat_u8_less [of sc] by (simp add: less_mult_imp_div_less)
    then have "odd (unat sc div 128) \<longleftrightarrow> unat sc div 128 = 1" by (auto simp: less_2_cases_iff)
    also have "\<dots> \<longleftrightarrow> 128 \<le> unat sc" using unat_u8_less [of sc] by auto
    finally have "odd (unat sc div 128) \<longleftrightarrow> 128 \<le> unat sc" .
    moreover have "bit sc 7 \<longleftrightarrow> bit (unat sc) 7" by (simp add: bit_unsigned_iff)
    ultimately show ?thesis by (simp only: bit_iff_odd) simp
  qed
  ultimately show ?thesis by (simp add: is_key_released_def KEYRELEASE_MASK_def word_le_nat_alt)
qed

lemma kbd_us_length [simp]: "length kbd_us = 128"
  by (simp add: kbd_us_def Let_def chars_def)

lemma scancode_to_ascii_in: "sc < 128 \<Longrightarrow> scancode_to_ascii sc = Inr (kbd_us ! unat sc)"
proof -
  assume "sc < 128"
  then have "unat sc < 128" "\<not> 128 < sc" by (auto simp: word_less_nat_alt)
  then show ?thesis by (simp add: scancode_to_ascii_def)
qed

text \<open>The character a key makes, and what a scancode does to the list of unread characters.\<close>

definition key_char :: "u8 \<Rightarrow> keyboard \<Rightarrow> u8" where
  "key_char sc k = (let c = kbd_us ! unat sc in if shift_pressed k \<or> caps_lock k then shift_ascii c else c)"

definition typed :: "u8 \<Rightarrow> keyboard \<Rightarrow> u8 list" where
  "typed sc k =
     (if 128 \<le> sc \<or> sc = 0x2A \<or> sc = 0x3A then unread k
      else if sc = 0x0E then butlast (unread k)
      else if length (unread k) < 255 then unread k @ [key_char sc k] else [])"

lemma handle_scancode_char:
  assumes "keyboard_inv k" and "screen_inv s" and "sc < 128" and "sc \<notin> {0x2A, 0x3A, 0x0E}"
  shows "\<exists>k' s'. handle_scancode sc k s = Inr (k', s') \<and> keyboard_inv k' \<and> screen_inv s'
           \<and> shift_pressed k' = shift_pressed k \<and> caps_lock k' = caps_lock k \<and> unread k' = typed sc k"
proof -
  obtain k' where k': "keyboard_buffer_put (key_char sc k) k = Inr k'" "keyboard_inv k'"
    "unread k' = (if length (unread k) < 255 then unread k @ [key_char sc k] else [])"
    using unread_put [OF assms(1)] by blast
  obtain s' where s': "(if put_on_screen k then put_char (key_char sc k) s else Inr s) = Inr s'" "screen_inv s'"
    using put_char_inv [OF assms(2)] assms(2) by (cases "put_on_screen k") auto
  have c: "(if shift_pressed k \<or> caps_lock k then shift_ascii (kbd_us ! unat sc) else kbd_us ! unat sc) = key_char sc k"
    by (simp add: key_char_def)
  have "handle_scancode sc k s = Inr (k', s')"
    using assms(3,4) k' s' keyboard_buffer_put_flags [OF k'(1)] scancode_to_ascii_in [OF assms(3)]
    by (simp add: handle_scancode_def is_key_released_iff key_consts c Let_def not_le split: if_splits)
  moreover have "\<not> 128 \<le> sc" using assms(3) by simp
  ultimately show ?thesis using k' s' keyboard_buffer_put_flags [OF k'(1)] assms(4) by (simp add: typed_def)
qed

lemma handle_scancode_backspace:
  assumes "keyboard_inv k" and "screen_inv s"
  shows "\<exists>k' s'. handle_scancode 0x0E k s = Inr (k', s') \<and> keyboard_inv k' \<and> screen_inv s'
           \<and> shift_pressed k' = shift_pressed k \<and> caps_lock k' = caps_lock k \<and> unread k' = butlast (unread k)"
proof (cases "is_keyboard_buffer_Empty k")
  case True
  then have "unread k = []" using unread_empty [of k] by simp
  with True assms show ?thesis by (simp add: handle_scancode_def is_key_released_iff key_consts)
next
  case False
  obtain s' where s': "(if put_on_screen k then move_cursor_back s else Inr s) = Inr s'" "screen_inv s'"
    using move_cursor_back_inv [OF assms(2)] assms(2) by (cases "put_on_screen k") auto
  with False assms show ?thesis
    by (simp add: handle_scancode_def is_key_released_iff key_consts Let_def unread_rm_butlast)
qed

section \<open>Properties\<close>

text \<open>C27. However the interrupt handler's puts and the shell's gets interleave, as long as no more than 255
  characters wait unread the ring delivers every character exactly once and in the order typed: what was
  read followed by what is still unread is what was unread before followed by what was put.\<close>

theorem keyboard_ring_fifo:
  assumes "keyboard_inv k" and "fits 255 (length (unread k)) ops"
  shows "\<exists>xs k'. fifo_exec keyboard_buffer_put keyboard_buffer_get ops k = Inr (xs, k')
           \<and> xs @ unread k' = unread k @ inputs ops \<and> keyboard_inv k'"
  using assms by (rule kbd.exec_in_order)

lemma keyboard_ring_fifo_witness:
  "\<exists>xs k'. fifo_exec keyboard_buffer_put keyboard_buffer_get [Some 104, None, Some 105, None, None] keyboard_boot
       = Inr (xs, k') \<and> xs @ unread k' = [104, 105]"
proof -
  have "keyboard_inv keyboard_boot" "unread keyboard_boot = []"
    by (simp_all add: keyboard_inv_def keyboard_boot_def unread_empty is_keyboard_buffer_Empty_def)
  with keyboard_ring_fifo [of keyboard_boot "[Some 104, None, Some 105, None, None]"] show ?thesis by auto
qed

text \<open>The ring has no full state: a character typed while 255 are unread makes it look empty, all 256
  characters are lost and the reader spins.\<close>

theorem keyboard_ring_overflow:
  assumes "keyboard_inv k" and "length (unread k) = 255"
  shows "\<exists>k'. keyboard_buffer_put c k = Inr k' \<and> unread k' = [] \<and> keyboard_buffer_get k' = Inr None"
proof -
  obtain k' where k': "keyboard_buffer_put c k = Inr k'" "keyboard_inv k'" "unread k' = []"
    using unread_put [OF assms(1), of c] assms(2) by auto
  then show ?thesis using kbd.get_empty by blast
qed

lemma keyboard_ring_overflow_witness:
  "length (unread (keyboard_boot\<lparr>buffer_head := 255\<rparr>)) = 255
   \<and> (\<exists>k'. keyboard_buffer_put 97 (keyboard_boot\<lparr>buffer_head := 255\<rparr>) = Inr k' \<and> unread k' = [])"
proof -
  have h: "keyboard_inv (keyboard_boot\<lparr>buffer_head := 255\<rparr>)"
    "length (unread (keyboard_boot\<lparr>buffer_head := 255\<rparr>)) = 255"
    by (simp_all add: keyboard_inv_def keyboard_boot_def unread_length)
  from keyboard_ring_overflow [OF h, of 97] h show ?thesis by auto
qed

lemma handle_scancode_step:
  assumes "keyboard_inv k" and "screen_inv s"
  shows "\<exists>k' s'. handle_scancode sc k s = Inr (k', s') \<and> keyboard_inv k' \<and> screen_inv s'
           \<and> shift_pressed k' = (sc = 0x2A \<or> (sc \<noteq> 0xAA \<and> shift_pressed k))
           \<and> caps_lock k' = (if sc = 0x3A then \<not> caps_lock k else caps_lock k)
           \<and> unread k' = typed sc k"
proof -
  consider "128 \<le> sc" | "sc = 0x2A" | "sc = 0x3A" | "sc = 0x0E" | "sc < 128" "sc \<notin> {0x2A, 0x3A, 0x0E}"
    by fastforce
  then show ?thesis
  proof cases
    case 1
    have "sc - 0x80 = 0x2A \<longleftrightarrow> sc = 0xAA" by (auto simp: diff_eq_eq)
    moreover have "sc \<noteq> 0x2A" "sc \<noteq> 0x3A" using 1 by auto
    ultimately show ?thesis
      using 1 assms by (auto simp: handle_scancode_def is_key_released_iff key_consts typed_def)
  next
    case 4
    with handle_scancode_backspace [OF assms] show ?thesis by (auto simp: typed_def)
  next
    case 5
    moreover from 5 have "sc \<noteq> 0xAA" by auto
    ultimately show ?thesis using handle_scancode_char [OF assms 5] by auto
  qed (use assms in \<open>simp_all add: handle_scancode_def is_key_released_iff key_consts typed_def\<close>)
qed



end
