(* ===== verification/Shell.thy ===== *)
theory Shell
  imports Keyboard
begin

text \<open>
  shell.c: the command interpreter on top of the keyboard's ring and the screen. The endless loops are
  cut at their iterations: \<open>shell_read\<close> consumes the characters that are there and reports that it waits
  when the ring is empty, \<open>shell_iteration\<close> is one round of the outer loop.
\<close>

section \<open>Commands\<close>

definition MAX_INPUT_LENGTH :: nat where "MAX_INPUT_LENGTH = 128"

text \<open>After \<open>exit\<close> the interpreter spins and never reads again.\<close>

datatype shell_result = Continue screen | Exited screen

definition shell_welcome_message :: "screen \<Rightarrow> screen run" where
  "shell_welcome_message s =
     bind_run (clear_screen s) (\<lambda>s.
     bind_run (put_string (chars ''Welcome to Enhanced Shell!'' @ [10, 0]) s) (\<lambda>s.
     put_string (chars ''Type '' @ [39] @ chars ''help'' @ [39] @ chars '' to see available commands.'' @ [10, 10, 0]) s))"

definition shell_prompt :: "screen \<Rightarrow> screen run" where
  "shell_prompt s = put_string (ascii ''EnhancedShell> '') s"

definition help_text :: "u8 list list" where
  "help_text =
     [10 # chars ''Available commands:'' @ [10],
      chars ''  clear         - Clears the screen'' @ [10],
      chars ''  echo [text]   - Echoes the input text'' @ [10],
      chars ''  color [num]   - Changes the text color'' @ [10],
      chars ''  scroll        - Scrolls the screen'' @ [10],
      chars ''  clearrow [n]  - Clears a specific row (0-24)'' @ [10],
      chars ''  exit          - Exits the shell'' @ [10]]"

fun put_strings :: "buffer list \<Rightarrow> screen \<Rightarrow> screen run" where
  "put_strings [] s = Inr s"
| "put_strings (b # bs) s = bind_run (put_string b s) (put_strings bs)"

definition cont :: "screen run \<Rightarrow> shell_result run" where
  "cont m = bind_run m (\<lambda>s. Inr (Continue s))"

definition execute_command :: "buffer \<Rightarrow> screen \<Rightarrow> shell_result run" where
  "execute_command input s =
     bind_run (strcmp input (ascii ''help'')) (\<lambda>d. if d = 0 then
       cont (put_strings (map (\<lambda>t. t @ [0]) help_text) s)
     else bind_run (strcmp input (ascii ''clear'')) (\<lambda>d. if d = 0 then
       cont (clear_screen s)
     else bind_run (strncmp input (ascii ''echo '') 5) (\<lambda>d. if d = 0 then
       cont (put_strings [[10, 0], drop 5 input, [10, 0]] s)
     else bind_run (strncmp input (ascii ''color '') 6) (\<lambda>d. if d = 0 then
       bind_run (atoi (drop 6 input)) (\<lambda>color_code.
         if sint color_code \<ge> 0 \<and> sint color_code \<le> 255 then
           cont (put_string (10 # chars ''Text color changed.'' @ [10, 0]) (set_color (ucast color_code) s))
         else
           cont (put_string (10 # chars ''Invalid color code! Use a value between 0 and 255.'' @ [10, 0]) s))
     else bind_run (strcmp input (ascii ''scroll'')) (\<lambda>d. if d = 0 then
       cont (bind_run (put_string (10 # chars ''Scrolling the screen...'' @ [10, 0]) s) scroll_screen)
     else bind_run (strncmp input (ascii ''clearrow '') 9) (\<lambda>d. if d = 0 then
       bind_run (atoi (drop 9 input)) (\<lambda>row.
         if sint row \<ge> 0 \<and> sint row < int VGA_HEIGHT then
           cont (bind_run (clear_row (sint row) s) (put_string (10 # chars ''Row cleared.'' @ [10, 0])))
         else
           cont (bind_run (put_string (10 # ascii ''Invalid row number! Use a value between 0 and '') s) (\<lambda>s.
             bind_run (put_int (of_nat (VGA_HEIGHT - 1)) s) (put_string (chars ''.'' @ [10, 0])))))
     else bind_run (strcmp input (ascii ''exit'')) (\<lambda>d. if d = 0 then
       bind_run (put_string (10 # chars ''Exiting Enhanced Shell. Goodbye!'' @ [10, 0]) s) (\<lambda>s. Inr (Exited s))
     else
       cont (put_strings [10 # ascii ''Unknown command: '', input,
         10 # chars ''Type '' @ [39] @ chars ''help'' @ [39] @ chars '' for a list of commands.'' @ [10, 0]] s))))))))"

section \<open>Reading a line\<close>

datatype read_result = Waiting nat buffer keyboard screen | Line buffer keyboard screen

lemma keyboard_buffer_get_shrinks:
  assumes "keyboard_buffer_get k = Inr (Some (c, k'))"
  shows "length (unread k') < length (unread k)"
proof -
  have "buffer_head k \<noteq> buffer_tail k" and k': "k' = k\<lparr>buffer_tail := buffer_tail k + 1\<rparr>"
    using assms by (auto simp: keyboard_buffer_get_def is_keyboard_buffer_Empty_def split: if_splits)
  then have "buffer_head k - buffer_tail k \<noteq> 0" by simp
  then have "unat (buffer_head k - buffer_tail k - 1) < unat (buffer_head k - buffer_tail k)"
    by (rule measure_unat)
  then show ?thesis by (simp add: unread_length k' diff_diff_eq)
qed

function shell_read :: "keyboard \<Rightarrow> screen \<Rightarrow> nat \<Rightarrow> buffer \<Rightarrow> read_result run" where
  "shell_read k s index input =
     bind_run (keyboard_buffer_get k) (\<lambda>r. case r of
       None \<Rightarrow> Inr (Waiting index input k s)
     | Some (c, k) \<Rightarrow>
         if c = 10 then bind_run (wr index 0 input) (\<lambda>input. Inr (Line input k s))
         else if c = 8 then
           if index > 0 then
             bind_run (put_string [8, 32, 8, 0] s) (\<lambda>s. shell_read k s (index - 1) input)
           else shell_read k s index input
         else if index < MAX_INPUT_LENGTH - 1 then
           bind_run (wr index c input) (\<lambda>input. shell_read k s (Suc index) input)
         else shell_read k s index input)"
  by pat_completeness auto
termination
  by (relation "measure (\<lambda>(k, s, index, input). length (unread k))")
     (auto dest: keyboard_buffer_get_shrinks)

declare shell_read.simps [simp del]

text \<open>One round of the loop of \<open>shell\<close>: \<open>Inl\<close> when it waits for more input.\<close>

definition shell_iteration :: "keyboard \<Rightarrow> screen \<Rightarrow> buffer \<Rightarrow> (read_result + shell_result \<times> keyboard \<times> buffer) run" where
  "shell_iteration k s input =
     bind_run (shell_prompt s) (\<lambda>s.
     bind_run (shell_read k s 0 input) (\<lambda>r. case r of
       Waiting index input k s \<Rightarrow> Inr (Inl r)
     | Line input k s \<Rightarrow> bind_run (execute_command input s) (\<lambda>res. Inr (Inr (res, k, input)))))"

section \<open>Reference interpreter\<close>

datatype command =
    Help | Clear | Echo "u8 list" | Color "u8 list" | Scroll | Clearrow "u8 list" | Exit | Unknown "u8 list"

definition parse_command :: "u8 list \<Rightarrow> command" where
  "parse_command t =
     (if t = chars ''help'' then Help
      else if t = chars ''clear'' then Clear
      else if take 5 t = chars ''echo '' then Echo (drop 5 t)
      else if take 6 t = chars ''color '' then Color (drop 6 t)
      else if t = chars ''scroll'' then Scroll
      else if take 9 t = chars ''clearrow '' then Clearrow (drop 9 t)
      else if t = chars ''exit'' then Exit
      else Unknown t)"

fun put_chars :: "u8 list \<Rightarrow> screen \<Rightarrow> screen run" where
  "put_chars [] s = Inr s"
| "put_chars (c # cs) s = bind_run (put_char c s) (put_chars cs)"

definition atoi_text :: "u8 list \<Rightarrow> u32" where
  "atoi_text t = (case t of [] \<Rightarrow> 0
     | c # cs \<Rightarrow> if c = 45 then - fold atoi_step cs 0 else fold atoi_step t 0)"

fun run_command :: "command \<Rightarrow> screen \<Rightarrow> shell_result run" where
  "run_command Help s = cont (put_chars (concat help_text) s)"
| "run_command Clear s = cont (clear_screen s)"
| "run_command (Echo t) s = cont (put_chars (10 # t @ [10]) s)"
| "run_command (Color t) s =
     (if sint (atoi_text t) \<in> {0..255}
      then cont (put_chars (10 # chars ''Text color changed.'' @ [10]) (s\<lparr>color := ucast (atoi_text t)\<rparr>))
      else cont (put_chars (10 # chars ''Invalid color code! Use a value between 0 and 255.'' @ [10]) s))"
| "run_command Scroll s =
     cont (bind_run (put_chars (10 # chars ''Scrolling the screen...'' @ [10]) s) scroll_screen)"
| "run_command (Clearrow t) s =
     (if sint (atoi_text t) \<in> {0..24}
      then cont (bind_run (clear_row (sint (atoi_text t)) s) (put_chars (10 # chars ''Row cleared.'' @ [10])))
      else cont (put_chars (10 # chars ''Invalid row number! Use a value between 0 and 24.'' @ [10]) s))"
| "run_command Exit s =
     bind_run (put_chars (10 # chars ''Exiting Enhanced Shell. Goodbye!'' @ [10]) s) (\<lambda>s. Inr (Exited s))"
| "run_command (Unknown t) s =
     cont (put_chars (10 # chars ''Unknown command: '' @ t @ 10 # chars ''Type '' @ [39] @ chars ''help'' @ [39]
       @ chars '' for a list of commands.'' @ [10]) s)"

section \<open>The interpreter meets the reference\<close>

lemma put_string_loop_chars: "holds_str (drop i b) t \<Longrightarrow> put_string_loop b i s = put_chars t s"
proof (induction t arbitrary: i s)
  case Nil
  then show ?case by (subst put_string_loop.simps) (auto simp: holds_str_at)
next
  case (Cons c t)
  then have "put_string_loop b (Suc i) s' = put_chars t s'" for s' by (simp add: holds_str_at)
  with Cons.prems show ?case
    by (subst put_string_loop.simps) (auto simp: holds_str_at intro!: bind_run_cong)
qed

lemma put_string_chars: "holds_str b t \<Longrightarrow> put_string b s = put_chars t s"
  using put_string_loop_chars [of 0 b t s] by (simp add: put_string_def)

lemma put_string_literal: "0 \<notin> set t \<Longrightarrow> put_string (t @ [0]) s = put_chars t s"
  by (rule put_string_chars [OF holds_str_append])

lemma put_chars_append: "put_chars (t @ u) s = bind_run (put_chars t s) (put_chars u)"
proof (induction t arbitrary: s)
  case (Cons c t)
  then show ?case by (cases "put_char c s") auto
qed simp

lemma put_chars_fun:
  "put_chars [] = Inr" "put_chars (t @ u) = (\<lambda>s. bind_run (put_chars t s) (put_chars u))" "put_strings [] = Inr"
  by (rule ext, simp add: put_chars_append)+

lemma put_strings_literals:
  "list_all (\<lambda>t. 0 \<notin> set t) ts \<Longrightarrow> put_strings (map (\<lambda>t. t @ [0]) ts) s = put_chars (concat ts) s"
  by (induction ts arbitrary: s)
     (auto simp: put_string_literal put_chars_append intro!: bind_run_cong)

lemma put_int_24: "put_int 24 s = put_chars (chars ''24'') s"
proof -
  have "dec_int (sint (24 :: u32)) = chars ''24''" by (simp add: dec_int_def dec.simps chars_def)
  then obtain b where "int_to_string 24 (replicate 12 0) = Inr b" "holds_str b (chars ''24'')"
    using int_to_string_holds [of 24 "replicate 12 0"] by auto
  then show ?thesis by (simp add: put_int_def put_string_chars)
qed

lemma atoi_text: 
  assumes "holds_str b t"
  shows "atoi b = Inr (atoi_text t)"
proof (cases t)
  case Nil
  with assms have "atoi_loop b 0 0 = Inr 0" "rd b 0 = Inr 0"
    using atoi_loop_str [of 0 b t 0] holds_str_at_Nil [of 0 b] by auto
  with Nil show ?thesis by (simp add: atoi_def atoi_text_def)
next
  case (Cons c cs)
  with assms have "rd b 0 = Inr c" "holds_str (drop 1 b) cs"
    using holds_str_at_Cons [of 0 b c cs] by auto
  moreover from this have "atoi_loop b 1 0 = Inr (fold atoi_step cs 0)" by (intro atoi_loop_str)
  moreover have "atoi_loop b 0 0 = Inr (fold atoi_step t 0)" using assms atoi_loop_str [of 0 b t] by simp
  ultimately show ?thesis using Cons by (simp add: atoi_def atoi_text_def)
qed

lemma strcmp_branch:
  assumes "holds_str input t" and "holds_str lit u"
  shows "bind_run (strcmp input lit) (\<lambda>d. if d = 0 then A else B) = (if t = u then A else B)"
proof -
  have "0 \<notin> set t" "0 \<notin> set u" using assms by (simp_all add: holds_str_def)
  then show ?thesis using strcmp_str [OF assms] str_diff_eq_0 by simp
qed

lemma strncmp_branch:
  assumes "holds_str input t" and "holds_str lit u" and "length u = nat n" and "0 \<le> n"
  shows "bind_run (strncmp input lit n) (\<lambda>d. if d = 0 then A else B) = (if take (nat n) t = u then A else B)"
proof -
  have "0 \<notin> set (take (nat n) t)" "0 \<notin> set u"
    using assms(1,2) by (auto simp: holds_str_def dest: in_set_takeD)
  then show ?thesis using strncmp_str [OF assms(1,2,4)] str_diff_eq_0 assms(3) by simp
qed

lemma holds_commands:
  "holds_str (ascii ''help'') (chars ''help'')" "holds_str (ascii ''clear'') (chars ''clear'')"
  "holds_str (ascii ''echo '') (chars ''echo '')" "holds_str (ascii ''color '') (chars ''color '')"
  "holds_str (ascii ''scroll'') (chars ''scroll'')" "holds_str (ascii ''clearrow '') (chars ''clearrow '')"
  "holds_str (ascii ''exit'') (chars ''exit'')"
  by (simp_all add: holds_str_def ascii_def chars_def)

lemma holds_str_suffix: "holds_str b t \<Longrightarrow> take n t = u \<Longrightarrow> length u = n \<Longrightarrow> holds_str (drop n b) (drop n t)"
  by (intro holds_str_drop) auto

lemma execute_command_branches:
  assumes h: "holds_str input t"
  shows "execute_command input s =
     (if t = chars ''help'' then cont (put_strings (map (\<lambda>t. t @ [0]) help_text) s)
      else if t = chars ''clear'' then cont (clear_screen s)
      else if take 5 t = chars ''echo '' then cont (put_strings [[10, 0], drop 5 input, [10, 0]] s)
      else if take 6 t = chars ''color '' then
        bind_run (atoi (drop 6 input)) (\<lambda>color_code.
         if sint color_code \<ge> 0 \<and> sint color_code \<le> 255 then
           cont (put_string (10 # chars ''Text color changed.'' @ [10, 0]) (set_color (ucast color_code) s))
         else
           cont (put_string (10 # chars ''Invalid color code! Use a value between 0 and 255.'' @ [10, 0]) s))
      else if t = chars ''scroll'' then
        cont (bind_run (put_string (10 # chars ''Scrolling the screen...'' @ [10, 0]) s) scroll_screen)
      else if take 9 t = chars ''clearrow '' then
        bind_run (atoi (drop 9 input)) (\<lambda>row.
         if sint row \<ge> 0 \<and> sint row < int VGA_HEIGHT then
           cont (bind_run (clear_row (sint row) s) (put_string (10 # chars ''Row cleared.'' @ [10, 0])))
         else
           cont (bind_run (put_string (10 # ascii ''Invalid row number! Use a value between 0 and '') s) (\<lambda>s.
             bind_run (put_int (of_nat (VGA_HEIGHT - 1)) s) (put_string (chars ''.'' @ [10, 0])))))
      else if t = chars ''exit'' then
        bind_run (put_string (10 # chars ''Exiting Enhanced Shell. Goodbye!'' @ [10, 0]) s) (\<lambda>s. Inr (Exited s))
      else cont (put_strings [10 # ascii ''Unknown command: '', input,
         10 # chars ''Type '' @ [39] @ chars ''help'' @ [39] @ chars '' for a list of commands.'' @ [10, 0]] s))"
proof -
  have "length (chars ''echo '') = nat 5" "length (chars ''color '') = nat 6" "length (chars ''clearrow '') = nat 9"
    by (simp_all add: chars_def)
  note n = strncmp_branch [OF h holds_commands(3) this(1)] strncmp_branch [OF h holds_commands(4) this(2)]
    strncmp_branch [OF h holds_commands(6) this(3)]
  have n': "nat 5 = 5" "nat 6 = 6" "nat 9 = 9" "(0 :: int) \<le> 5" "(0 :: int) \<le> 6" "(0 :: int) \<le> 9" by simp_all
  show ?thesis
    unfolding execute_command_def
      strcmp_branch [OF h holds_commands(1)] strcmp_branch [OF h holds_commands(2)]
      strcmp_branch [OF h holds_commands(5)] strcmp_branch [OF h holds_commands(7)]
    by (simp only: n n')
qed

text \<open>Literal messages, cut out of the command texts so that they stay folded.\<close>

lemma put_string_Cons_literal:
  "0 \<notin> set t \<Longrightarrow> put_string (10 # t @ [10, 0]) s = put_chars (10 # t @ [10]) s"
  "0 \<notin> set t \<Longrightarrow> put_string (10 # t @ [0]) s = put_chars (10 # t) s"
  "0 \<notin> set t \<Longrightarrow> put_string (t @ [10, 0]) s = put_chars (t @ [10]) s"
  "put_string [10, 0] s = put_chars [10] s"
  using put_string_literal [of "10 # t @ [10]" s] put_string_literal [of "10 # t" s]
    put_string_literal [of "t @ [10]" s] put_string_literal [of "[10]" s] by simp_all

lemma literals_nz:
  "0 \<notin> set (chars ''Text color changed.'')"
  "0 \<notin> set (chars ''Invalid color code! Use a value between 0 and 255.'')"
  "0 \<notin> set (chars ''Scrolling the screen...'')" "0 \<notin> set (chars ''Row cleared.'')" "0 \<notin> set (chars ''.'')"
  "0 \<notin> set (chars ''Invalid row number! Use a value between 0 and '')"
  "0 \<notin> set (chars ''Exiting Enhanced Shell. Goodbye!'')" "0 \<notin> set (chars ''Unknown command: '')"
  "0 \<notin> set (chars ''Type '' @ [39] @ chars ''help'' @ [39] @ chars '' for a list of commands.'')"
  "list_all (\<lambda>t. 0 \<notin> set t) help_text"
  by (simp_all add: chars_def help_text_def)

lemma row_message:
  "put_chars (10 # chars ''Invalid row number! Use a value between 0 and 24.'' @ [10]) s =
     bind_run (put_chars (10 # chars ''Invalid row number! Use a value between 0 and '') s) (\<lambda>s.
       bind_run (put_chars (chars ''24'') s) (put_chars (chars ''.'' @ [10])))"
proof -
  have "10 # chars ''Invalid row number! Use a value between 0 and 24.'' @ [10]
      = (10 # chars ''Invalid row number! Use a value between 0 and '') @ chars ''24'' @ chars ''.'' @ [10]"
    by (simp add: chars_def)
  then show ?thesis by (simp only: put_chars_fun)
qed

lemma execute_command_run:
  assumes h: "holds_str input t"
  shows "execute_command input s = run_command (parse_command t) s"
proof -
  have echo: "put_strings [[10, 0], drop 5 input, [10, 0]] s = put_chars (10 # drop 5 t @ [10]) s"
    if "take 5 t = chars ''echo ''"
  proof -
    have "holds_str (drop 5 input) (drop 5 t)"
      using h that by (rule holds_str_suffix) (simp add: chars_def)
    then have "put_string (drop 5 input) s' = put_chars (drop 5 t) s'" for s' by (rule put_string_chars)
    then show ?thesis
      by (cases "put_char 10 s") (auto simp: put_string_Cons_literal put_chars_append put_chars_fun(1,3) intro!: bind_run_cong)
  qed
  have unknown: "put_strings [10 # ascii ''Unknown command: '', input,
      10 # chars ''Type '' @ [39] @ chars ''help'' @ [39] @ chars '' for a list of commands.'' @ [10, 0]] s
      = put_chars (10 # chars ''Unknown command: '' @ t @ 10 # chars ''Type '' @ [39] @ chars ''help'' @ [39]
       @ chars '' for a list of commands.'' @ [10]) s" (is "put_strings [?a, input, 10 # ?b] s = put_chars (10 # ?c @ t @ ?d) s")
  proof -
    have "put_string ?a s = put_chars (10 # ?c) s"
      using put_string_Cons_literal(2) [OF literals_nz(8)] by (simp add: ascii_def)
    moreover have "put_string (10 # ?b) s' = put_chars ?d s'" for s'
      using put_string_Cons_literal(1) [OF literals_nz(9)] by simp
    moreover have "put_chars ((10 # ?c) @ t @ ?d) s = bind_run (put_chars (10 # ?c) s) (\<lambda>s. bind_run (put_chars t s) (put_chars ?d))"
      by (simp only: put_chars_append put_chars_fun(2))
    ultimately show ?thesis
      using put_string_chars [OF h] unfolding append_Cons
      by (auto simp: put_chars_fun(3) intro!: bind_run_cong simp del: put_chars.simps)
  qed
  have color: "atoi (drop 6 input) = Inr (atoi_text (drop 6 t))" if "take 6 t = chars ''color ''"
    by (rule atoi_text, rule holds_str_suffix [OF h that]) (simp add: chars_def)
  have row: "atoi (drop 9 input) = Inr (atoi_text (drop 9 t))" if "take 9 t = chars ''clearrow ''"
    by (rule atoi_text, rule holds_str_suffix [OF h that]) (simp add: chars_def)
  have row_msg: "bind_run (put_string (10 # ascii ''Invalid row number! Use a value between 0 and '') s) (\<lambda>s.
      bind_run (put_int 24 s) (put_string (chars ''.'' @ [10, 0])))
      = put_chars (10 # chars ''Invalid row number! Use a value between 0 and 24.'' @ [10]) s"
    unfolding row_message
    using put_string_Cons_literal(2) [OF literals_nz(6)] put_string_Cons_literal(3) [OF literals_nz(5)]
    by (auto simp: ascii_def put_int_24 intro!: bind_run_cong simp del: put_chars.simps)
  have height: "of_nat (VGA_HEIGHT - 1) = (24 :: u32)" by (simp add: VGA_HEIGHT_def)
  have range: "x < int VGA_HEIGHT \<longleftrightarrow> x \<le> 24" for x by (auto simp: VGA_HEIGHT_def)
  have cleared: "put_string (10 # chars ''Row cleared.'' @ [10, 0]) = put_chars (10 # chars ''Row cleared.'' @ [10])"
    by (rule ext) (rule put_string_Cons_literal(1) [OF literals_nz(4)])
  have helps: "put_strings (map (\<lambda>t. t @ [0]) help_text) s = put_chars (concat help_text) s"
    by (rule put_strings_literals [OF literals_nz(10)])
  show ?thesis
    unfolding execute_command_branches [OF h] parse_command_def if_distrib [of "\<lambda>c. run_command c s"]
      run_command.simps helps cleared
    by (intro if_cong refl)
       (simp_all only: echo unknown color row row_msg put_string_Cons_literal(1) [OF literals_nz(1)]
         put_string_Cons_literal(1) [OF literals_nz(2)] put_string_Cons_literal(1) [OF literals_nz(3)]
         put_string_Cons_literal(1) [OF literals_nz(7)] bind_run_Inr set_color_def height atLeastAtMost_iff range)
qed

section \<open>The interpreter is safe\<close>

fun shell_screen :: "shell_result \<Rightarrow> screen" where
  "shell_screen (Continue s) = s"
| "shell_screen (Exited s) = s"

lemma put_chars_inv: "screen_inv s \<Longrightarrow> \<exists>s'. put_chars t s = Inr s' \<and> screen_inv s'"
proof (induction t arbitrary: s)
  case (Cons c t)
  from put_char_inv [OF Cons.prems, of c] Cons.IH show ?case by auto
qed simp

lemma screen_ops_inv:
  assumes "screen_inv s"
  shows "\<exists>s'. clear_screen s = Inr s' \<and> screen_inv s'"
    and "\<exists>s'. scroll_screen s = Inr s' \<and> screen_inv s'"
    and "\<exists>s'. clear_row row s = Inr s' \<and> screen_inv s'"
proof -
  have v: "length (video_memory s) = 2000" using assms by (simp add: screen_inv_def)
  show "\<exists>s'. clear_screen s = Inr s' \<and> screen_inv s'" "\<exists>s'. scroll_screen s = Inr s' \<and> screen_inv s'"
    using v by (simp_all add: clear_screen_spec scroll_screen_spec screen_inv_def)
  show "\<exists>s'. clear_row row s = Inr s' \<and> screen_inv s'"
  proof (cases "row < 0 \<or> 25 \<le> row")
    case False
    then have "nat row * 80 + 80 \<le> 2000" by (simp add: nat_le_iff)
    with False v assms show ?thesis by (simp add: clear_row_def vga_defs clear_cells_spec screen_inv_def)
  qed (use assms in \<open>auto simp: clear_row_def vga_defs\<close>)
qed

lemma run_command_inv:
  assumes "screen_inv s"
  shows "\<exists>r. run_command c s = Inr r \<and> screen_inv (shell_screen r)"
proof -
  have put: "\<exists>r. cont (put_chars t s') = Inr r \<and> screen_inv (shell_screen r)" if "screen_inv s'" for t s'
    using put_chars_inv [OF that, of t] by (auto simp: cont_def)
  have scroll: "\<exists>r. cont (bind_run (put_chars t s) scroll_screen) = Inr r \<and> screen_inv (shell_screen r)" for t
  proof -
    obtain s1 where s1: "put_chars t s = Inr s1" "screen_inv s1" using put_chars_inv [OF assms] by blast
    with screen_ops_inv(2) [OF s1(2)] show ?thesis by (auto simp: cont_def)
  qed
  have row: "\<exists>r. cont (bind_run (clear_row row s) (put_chars t)) = Inr r \<and> screen_inv (shell_screen r)" for row t
  proof -
    obtain s1 where s1: "clear_row row s = Inr s1" "screen_inv s1" using screen_ops_inv(3) [OF assms] by blast
    with put [OF s1(2)] show ?thesis by simp
  qed
  have "screen_inv (s\<lparr>color := col\<rparr>)" for col using assms by (simp add: screen_inv_def)
  moreover have "\<exists>r. run_command Exit s = Inr r \<and> screen_inv (shell_screen r)"
    using put_chars_inv [OF assms, of "10 # chars ''Exiting Enhanced Shell. Goodbye!'' @ [10]"]
    by (auto simp del: put_chars.simps)
  ultimately show ?thesis
    using assms put scroll row screen_ops_inv(1) [OF assms]
    by (cases c) (auto simp: cont_def [of "clear_screen s"] simp del: put_chars.simps)
qed

section \<open>Reading what was typed\<close>

lemma shell_read_line:
  "keyboard_inv k \<Longrightarrow> unread k = line @ 10 # rest \<Longrightarrow> 10 \<notin> set line \<Longrightarrow> 8 \<notin> set line \<Longrightarrow>
     index \<le> 127 \<Longrightarrow> length input = 128 \<Longrightarrow>
     \<exists>k' tail. shell_read k s index input = Inr (Line (take index input @ take (127 - index) line @ 0 # tail) k' s)
       \<and> unread k' = rest \<and> keyboard_inv k'"
proof (induction line arbitrary: k index input)
  case Nil
  then obtain k' where k': "keyboard_buffer_get k = Inr (Some (10, k'))" "unread k' = rest" "keyboard_inv k'"
    using kbd.get_law [of k 10 rest] by auto
  have "input[index := 0] = take index input @ 0 # drop (Suc index) input"
    using Nil by (simp add: upd_conv_take_nth_drop)
  with k' Nil show ?case by (subst shell_read.simps) auto
next
  case (Cons c line)
  then obtain k1 where k1: "keyboard_buffer_get k = Inr (Some (c, k1))" "unread k1 = line @ 10 # rest" "keyboard_inv k1"
    using kbd.get_law [of k c "line @ 10 # rest"] by auto
  have c: "c \<noteq> 10" "c \<noteq> 8" "10 \<notin> set line" "8 \<notin> set line" using Cons.prems by auto
  show ?case
  proof (cases "index < 127")
    case True
    then obtain n where n: "127 - index = Suc n" "127 - Suc index = n" by (cases "127 - index") auto
    from Cons.IH [OF k1(3,2) c(3,4), of "Suc index" "input[index := c]"] True Cons.prems obtain k' tail where
      "shell_read k1 s (Suc index) (input[index := c])
         = Inr (Line (take (Suc index) (input[index := c]) @ take n line @ 0 # tail) k' s)"
      "unread k' = rest" "keyboard_inv k'" unfolding n by auto
    with k1 c True Cons.prems n show ?thesis
      by (subst shell_read.simps) (auto simp: MAX_INPUT_LENGTH_def)
  next
    case False
    with Cons.prems have i: "index = 127" by simp
    from Cons.IH [OF k1(3,2) c(3,4), of 127 input] Cons.prems k1 c i show ?thesis
      by (subst shell_read.simps) (auto simp: MAX_INPUT_LENGTH_def)
  qed
qed

section \<open>Properties\<close>

text \<open>C30. When the unread characters hold a complete line (no backspace or zero characters), one round of
  the shell's loop takes exactly that line from the keyboard, cuts it to 127 characters, and executes
  it as the reference interpreter does: exact match for help, clear, scroll and exit, prefix match with
  the rest of the line as argument for echo, color and clearrow, anything else is unknown. No command
  reads or writes outside the input buffer or the screen.\<close>

theorem shell_executes_line:
  assumes "keyboard_inv k" and "screen_inv s" and "length input = 128"
    and "unread k = line @ 10 # rest" and "10 \<notin> set line" and "8 \<notin> set line" and "0 \<notin> set line"
  shows "\<exists>s1 res k' input'. shell_prompt s = Inr s1
           \<and> shell_iteration k s input = Inr (Inr (res, k', input'))
           \<and> run_command (parse_command (take 127 line)) s1 = Inr res
           \<and> unread k' = rest \<and> keyboard_inv k' \<and> screen_inv (shell_screen res)"
proof -
  have "holds_str (ascii ''EnhancedShell> '') (chars ''EnhancedShell> '')"
    by (simp add: holds_str_def ascii_def chars_def)
  from put_string_chars [OF this, of s] put_chars_inv [OF assms(2), of "chars ''EnhancedShell> ''"]
  obtain s1 where s1: "shell_prompt s = Inr s1" "screen_inv s1" unfolding shell_prompt_def by auto
  obtain k' tail where read: "shell_read k s1 0 input = Inr (Line (take 127 line @ 0 # tail) k' s1)"
    "unread k' = rest" "keyboard_inv k'"
    using shell_read_line [OF assms(1,4,5,6), of 0 input s1] assms(3) by auto
  have "holds_str (take 127 line @ 0 # tail) (take 127 line)"
    using assms(7) by (intro holds_str_append) (auto dest: in_set_takeD)
  then have "execute_command (take 127 line @ 0 # tail) s1 = run_command (parse_command (take 127 line)) s1"
    by (rule execute_command_run)
  moreover obtain res where "run_command (parse_command (take 127 line)) s1 = Inr res" "screen_inv (shell_screen res)"
    using run_command_inv [OF s1(2)] by blast
  ultimately show ?thesis using s1 read by (simp add: shell_iteration_def)
qed

lemma shell_executes_line_witness:
  "\<exists>s1 res k' input'. shell_prompt (screen_boot (replicate 2000 EMPTY_LETTER)) = Inr s1
     \<and> shell_iteration (keyboard_boot\<lparr>keyboard_buffer := chars ''clear'' @ 10 # replicate 250 0, buffer_head := 6\<rparr>)
         (screen_boot (replicate 2000 EMPTY_LETTER)) (replicate 128 0) = Inr (Inr (res, k', input'))
     \<and> run_command Clear s1 = Inr res"
proof -
  let ?k = "keyboard_boot\<lparr>keyboard_buffer := chars ''clear'' @ 10 # replicate 250 0, buffer_head := 6\<rparr>"
  let ?s = "screen_boot (replicate 2000 EMPTY_LETTER)"
  have k: "keyboard_inv ?k" by (simp add: keyboard_inv_def chars_def)
  have s: "screen_inv ?s" by (simp add: screen_inv_def screen_boot_def)
  have "unread ?k = chars ''clear'' @ 10 # []"
    by (simp add: unread_def keyboard_boot_def chars_def upt_rec)
  from shell_executes_line [OF k s _ this, of "replicate 128 0"] show ?thesis
    by (auto simp: chars_def parse_command_def)
qed

end
