(* ===== verification/Descriptors.thy ===== *)
theory Descriptors
  imports Kernel_Prelude
begin

text \<open>
  gdt.c and interupts/idt.c: the descriptor tables. A descriptor scatters its fields over eight bytes; the
  decoding functions put them together the way the processor does, and the properties state what the
  processor sees after the tables are set up and loaded.
\<close>

section \<open>gdt.c\<close>

record gdt_entry =
  limit_low :: u16
  base_low :: u16
  base_mid :: u8
  gdt_access :: u8
  granularity :: u8
  base_high :: u8

record gdt_ptr =
  gdt_limit :: u16
  gdt_base :: u32

definition GDT_ENTRIES :: nat where "GDT_ENTRIES = 6"
definition NULL_ENTRY :: int where "NULL_ENTRY = 0"
definition KERNEL_CODE_ENTRY :: int where "KERNEL_CODE_ENTRY = 2"
definition KERNEL_DATA_ENTRY :: int where "KERNEL_DATA_ENTRY = 3"
definition USER_CODE_ENTRY :: int where "USER_CODE_ENTRY = 4"
definition USER_DATA_ENTRY :: int where "USER_DATA_ENTRY = 5"
definition KERNEL_CODE_SELECTOR :: u16 where "KERNEL_CODE_SELECTOR = 0x10"
definition KERNEL_DATA_SELECTOR :: u16 where "KERNEL_DATA_SELECTOR = 0x18"
definition USER_CODE_SELECTOR :: u16 where "USER_CODE_SELECTOR = 0x20"
definition USER_DATA_SELECTOR :: u16 where "USER_DATA_SELECTOR = 0x28"
definition GDT_CODE_ACCESS :: u8 where "GDT_CODE_ACCESS = 0x9A"
definition GDT_CODE_FLAGS :: u8 where "GDT_CODE_FLAGS = 0xC"
definition GDT_DATA_ACCESS :: u8 where "GDT_DATA_ACCESS = 0x92"
definition GDT_DATA_FLAGS :: u8 where "GDT_DATA_FLAGS = 0xC"
definition GDT_USER_CODE_ACCESS :: u8 where "GDT_USER_CODE_ACCESS = 0xFA"
definition GDT_USER_DATA_ACCESS :: u8 where "GDT_USER_DATA_ACCESS = 0xF2"
definition MAX_LIMIT :: u32 where "MAX_LIMIT = 0xFFFFFFFF"

lemmas gdt_consts = GDT_ENTRIES_def NULL_ENTRY_def KERNEL_CODE_ENTRY_def KERNEL_DATA_ENTRY_def
  USER_CODE_ENTRY_def USER_DATA_ENTRY_def KERNEL_CODE_SELECTOR_def KERNEL_DATA_SELECTOR_def
  USER_CODE_SELECTOR_def USER_DATA_SELECTOR_def GDT_CODE_ACCESS_def GDT_CODE_FLAGS_def
  GDT_DATA_ACCESS_def GDT_DATA_FLAGS_def GDT_USER_CODE_ACCESS_def GDT_USER_DATA_ACCESS_def MAX_LIMIT_def

definition GDT_LIMIT_LOW :: "u32 \<Rightarrow> u32" where "GDT_LIMIT_LOW limit = limit AND 0xFFFF"
definition GDT_LIMIT_HIGH :: "u32 \<Rightarrow> u32" where "GDT_LIMIT_HIGH limit = drop_bit 16 limit AND 0x0F"
definition GDT_BASE_LOW :: "u32 \<Rightarrow> u32" where "GDT_BASE_LOW base = base AND 0xFFFF"
definition GDT_BASE_MID :: "u32 \<Rightarrow> u32" where "GDT_BASE_MID base = drop_bit 16 base AND 0xFF"
definition GDT_BASE_HIGH :: "u32 \<Rightarrow> u32" where "GDT_BASE_HIGH base = drop_bit 24 base AND 0xFF"

definition GDT_COMBINE_HIGH_LIMIT_AND_FLAGS :: "u32 \<Rightarrow> u8 \<Rightarrow> u32" where
  "GDT_COMBINE_HIGH_LIMIT_AND_FLAGS high_limit flags = high_limit OR push_bit 4 (ucast flags)"

lemmas gdt_macros = GDT_LIMIT_LOW_def GDT_LIMIT_HIGH_def GDT_BASE_LOW_def GDT_BASE_MID_def
  GDT_BASE_HIGH_def GDT_COMBINE_HIGH_LIMIT_AND_FLAGS_def

definition gdt_encode :: "u32 \<Rightarrow> u32 \<Rightarrow> u8 \<Rightarrow> u8 \<Rightarrow> gdt_entry" where
  "gdt_encode base limit access flags =
     \<lparr>limit_low = ucast (GDT_LIMIT_LOW limit),
      base_low = ucast (GDT_BASE_LOW base),
      base_mid = ucast (GDT_BASE_MID base),
      gdt_access = access,
      granularity = ucast (GDT_COMBINE_HIGH_LIMIT_AND_FLAGS (GDT_LIMIT_HIGH limit) flags),
      base_high = ucast (GDT_BASE_HIGH base)\<rparr>"

definition set_gdt_entry :: "int \<Rightarrow> u32 \<Rightarrow> u32 \<Rightarrow> u8 \<Rightarrow> u8 \<Rightarrow> gdt_entry list \<Rightarrow> gdt_entry list run" where
  "set_gdt_entry num base limit access flags gdt =
     assert_run (num < int GDT_ENTRIES) ''num < GDT_ENTRIES''
       (if num < 0 then Inl Out_of_bounds
        else Inr (gdt[nat num := gdt_encode base limit access flags]))"

definition setup_gdt_entries :: "gdt_entry list \<Rightarrow> gdt_entry list run" where
  "setup_gdt_entries gdt =
     bind_run (set_gdt_entry NULL_ENTRY 0 0 0 0 gdt) (\<lambda>gdt.
     bind_run (set_gdt_entry KERNEL_CODE_ENTRY 0 MAX_LIMIT GDT_CODE_ACCESS GDT_CODE_FLAGS gdt) (\<lambda>gdt.
     bind_run (set_gdt_entry KERNEL_DATA_ENTRY 0 MAX_LIMIT GDT_DATA_ACCESS GDT_DATA_FLAGS gdt) (\<lambda>gdt.
     bind_run (set_gdt_entry USER_CODE_ENTRY 0 MAX_LIMIT GDT_USER_CODE_ACCESS GDT_CODE_FLAGS gdt) (\<lambda>gdt.
     set_gdt_entry USER_DATA_ENTRY 0 MAX_LIMIT GDT_USER_DATA_ACCESS GDT_DATA_FLAGS gdt))))"

text \<open>\<open>gdt_addr\<close> is the address the linker gives the table; an entry has eight bytes.\<close>

definition init_gdt_ptr :: "u32 \<Rightarrow> gdt_ptr" where
  "init_gdt_ptr gdt_addr = \<lparr>gdt_limit = of_nat (GDT_ENTRIES * 8 - 1), gdt_base = gdt_addr\<rparr>"

text \<open>The table register and the visible parts of the segment registers.\<close>

record segments =
  gdtr :: gdt_ptr
  seg_cs :: u16
  seg_ds :: u16
  seg_es :: u16
  seg_fs :: u16
  seg_gs :: u16
  seg_ss :: u16

text \<open>\<open>lgdt\<close>, the five moves of the data selector and the far jump.\<close>

definition load_gdt :: "gdt_ptr \<Rightarrow> segments" where
  "load_gdt gdtPtr =
     (let ax = KERNEL_DATA_SELECTOR in
      \<lparr>gdtr = gdtPtr, seg_cs = KERNEL_CODE_SELECTOR, seg_ds = ax, seg_es = ax, seg_fs = ax, seg_gs = ax, seg_ss = ax\<rparr>)"

definition init_gdt :: "u32 \<Rightarrow> gdt_entry list \<Rightarrow> (gdt_entry list \<times> segments) run" where
  "init_gdt gdt_addr gdt = bind_run (setup_gdt_entries gdt) (\<lambda>gdt. Inr (gdt, load_gdt (init_gdt_ptr gdt_addr)))"

section \<open>interupts/idt.c\<close>

record idt_entry =
  offset_low :: u16
  selector :: u16
  idt_zero :: u8
  type_attr :: u8
  offset_high :: u16

record idt_ptr =
  idt_limit :: u16
  idt_base :: u32

definition IDT_ENTRIES :: nat where "IDT_ENTRIES = 256"
definition IDT_PRESENT :: u8 where "IDT_PRESENT = 0x80"
definition IDT_DPL0 :: u8 where "IDT_DPL0 = 0x00"
definition IDT_INTERRUPT_GATE :: u8 where "IDT_INTERRUPT_GATE = 0x0E"
definition IDT_ATTR_KERNEL :: u8 where "IDT_ATTR_KERNEL = IDT_PRESENT OR IDT_DPL0 OR IDT_INTERRUPT_GATE"

lemmas idt_consts = IDT_ENTRIES_def IDT_PRESENT_def IDT_DPL0_def IDT_INTERRUPT_GATE_def IDT_ATTR_KERNEL_def

definition IDT_OFFSET_LOW :: "u32 \<Rightarrow> u32" where "IDT_OFFSET_LOW offset = offset AND 0xFFFF"
definition IDT_OFFSET_HIGH :: "u32 \<Rightarrow> u32" where "IDT_OFFSET_HIGH offset = drop_bit 16 offset"

definition idt_encode :: "u32 \<Rightarrow> u16 \<Rightarrow> u8 \<Rightarrow> idt_entry" where
  "idt_encode base sel attr =
     \<lparr>offset_low = ucast (IDT_OFFSET_LOW base), selector = sel, idt_zero = 0, type_attr = attr,
      offset_high = ucast (IDT_OFFSET_HIGH base)\<rparr>"

text \<open>The table has 256 entries and the index is a byte, so every index is inside it.\<close>

definition idt_set_gate :: "u8 \<Rightarrow> u32 \<Rightarrow> u16 \<Rightarrow> u8 \<Rightarrow> idt_entry list \<Rightarrow> idt_entry list" where
  "idt_set_gate num base sel attr idt = idt[unat num := idt_encode base sel attr]"

text \<open>The 34 calls of \<open>init_idt_entries\<close>, in order; \<open>isr n\<close> is the address of the stub \<open>isrn\<close>.\<close>

definition init_idt_entries :: "(nat \<Rightarrow> u32) \<Rightarrow> idt_entry list \<Rightarrow> idt_entry list" where
  "init_idt_entries isr idt =
     fold (\<lambda>n. idt_set_gate (of_nat n) (isr n) KERNEL_CODE_SELECTOR IDT_ATTR_KERNEL) [0..<34] idt"

definition init_idt_ptr :: "u32 \<Rightarrow> idt_ptr" where
  "init_idt_ptr idt_addr = \<lparr>idt_limit = of_nat (IDT_ENTRIES * 8 - 1), idt_base = idt_addr\<rparr>"

text \<open>\<open>lidt\<close>: the register holds what the pointer holds.\<close>

definition load_idt :: "idt_ptr \<Rightarrow> idt_ptr" where
  "load_idt idtPtr = \<lparr>idt_limit = idt_limit idtPtr, idt_base = idt_base idtPtr\<rparr>"

definition init_idt :: "u32 \<Rightarrow> (nat \<Rightarrow> u32) \<Rightarrow> idt_entry list \<Rightarrow> idt_entry list \<times> idt_ptr" where
  "init_idt idt_addr isr idt = (init_idt_entries isr idt, load_idt (init_idt_ptr idt_addr))"

definition idt_irq_install_handler :: "u32 \<Rightarrow> u32 \<Rightarrow> idt_entry list \<Rightarrow> idt_entry list" where
  "idt_irq_install_handler irq handler idt =
     idt_set_gate (ucast irq) handler KERNEL_CODE_SELECTOR IDT_ATTR_KERNEL idt"

section \<open>What the processor reads\<close>

definition descriptor_base :: "gdt_entry \<Rightarrow> u32" where
  "descriptor_base e = ucast (base_low e) OR push_bit 16 (ucast (base_mid e)) OR push_bit 24 (ucast (base_high e))"

definition descriptor_limit :: "gdt_entry \<Rightarrow> u32" where
  "descriptor_limit e = ucast (limit_low e) OR push_bit 16 (ucast (granularity e AND 0x0F))"

definition descriptor_flags :: "gdt_entry \<Rightarrow> u8" where
  "descriptor_flags e = drop_bit 4 (granularity e)"

text \<open>The last byte of the segment: the limit counts pages when flag bit 3 (granularity) is set.\<close>

definition segment_last :: "gdt_entry \<Rightarrow> nat" where
  "segment_last e = (if bit (descriptor_flags e) 3 then unat (descriptor_limit e) * 4096 + 4095
                     else unat (descriptor_limit e))"

definition descriptor_present :: "gdt_entry \<Rightarrow> bool" where "descriptor_present e = bit (gdt_access e) 7"
definition descriptor_dpl :: "gdt_entry \<Rightarrow> u8" where "descriptor_dpl e = drop_bit 5 (gdt_access e) AND 3"
definition descriptor_code :: "gdt_entry \<Rightarrow> bool" where
  "descriptor_code e = (bit (gdt_access e) 4 \<and> bit (gdt_access e) 3)"

definition gate_offset :: "idt_entry \<Rightarrow> u32" where
  "gate_offset e = ucast (offset_low e) OR push_bit 16 (ucast (offset_high e))"

text \<open>The table index of a selector.\<close>

definition selector_index :: "u16 \<Rightarrow> nat" where
  "selector_index s = unat (drop_bit 3 s)"

section \<open>Encoding and decoding\<close>

lemma gdt_base_roundtrip: "descriptor_base (gdt_encode base limit access flags) = base"
proof (rule bit_word_eqI)
  fix n assume "n < LENGTH(32)"
  then consider "n < 16" | "16 \<le> n" "n - 16 < 8" | "24 \<le> n" "n - 24 < 8" by force
  then show "bit (descriptor_base (gdt_encode base limit access flags)) n = bit base n"
    by cases (auto simp: descriptor_base_def gdt_encode_def gdt_macros and_mask_const bit_simps)
qed

lemma gdt_limit_roundtrip: "descriptor_limit (gdt_encode base limit access flags) = take_bit 20 limit"
proof (rule bit_word_eqI)
  fix n assume "n < LENGTH(32)"
  then consider "n < 16" | "16 \<le> n" "n - 16 < 4" | "20 \<le> n" by force
  then show "bit (descriptor_limit (gdt_encode base limit access flags)) n = bit (take_bit 20 limit) n"
    by cases (auto simp: descriptor_limit_def gdt_encode_def gdt_macros and_mask_const bit_simps)
qed

lemma gdt_flags_roundtrip: "descriptor_flags (gdt_encode base limit access flags) = take_bit 4 flags"
  by (rule bit_word_eqI)
     (auto simp: descriptor_flags_def gdt_encode_def gdt_macros and_mask_const bit_simps)

lemma gate_offset_roundtrip: "gate_offset (idt_encode base sel attr) = base"
proof (rule bit_word_eqI)
  fix n assume "n < LENGTH(32)"
  then consider "n < 16" | "16 \<le> n" "n - 16 < 16" by force
  then show "bit (gate_offset (idt_encode base sel attr)) n = bit base n"
    by cases (auto simp: gate_offset_def idt_encode_def IDT_OFFSET_LOW_def IDT_OFFSET_HIGH_def and_mask_const bit_simps)
qed

lemma setup_gdt_entries_spec:
  assumes "length gdt = 6"
  shows "setup_gdt_entries gdt = Inr [gdt_encode 0 0 0 0, gdt ! 1, gdt_encode 0 MAX_LIMIT 0x9A 0xC,
           gdt_encode 0 MAX_LIMIT 0x92 0xC, gdt_encode 0 MAX_LIMIT 0xFA 0xC, gdt_encode 0 MAX_LIMIT 0xF2 0xC]"
proof -
  obtain a b c d e f where "gdt = [a, b, c, d, e, f]"
    using assms by (auto simp: numeral_eq_Suc length_Suc_conv)
  then show ?thesis by (simp add: setup_gdt_entries_def set_gdt_entry_def gdt_consts numeral_eq_Suc)
qed

lemma flat_segment: "segment_last (gdt_encode base MAX_LIMIT access 0xC) = 2 ^ 32 - 1"
proof -
  have "bit (take_bit 4 (0xC :: u8)) 3" by (simp add: bit_simps)
  moreover have "unat (take_bit 20 MAX_LIMIT) = 2 ^ 20 - 1" by (simp add: MAX_LIMIT_def)
  ultimately show ?thesis by (simp add: segment_last_def gdt_limit_roundtrip gdt_flags_roundtrip)
qed

lemma fold_set_gates:
  "n \<le> 34 \<Longrightarrow> length idt = 256 \<Longrightarrow>
     length (fold (\<lambda>n. idt_set_gate (of_nat n) (isr n) sel attr) [0..<n] idt) = 256 \<and>
     (\<forall>m < 256. fold (\<lambda>n. idt_set_gate (of_nat n) (isr n) sel attr) [0..<n] idt ! m
        = (if m < n then idt_encode (isr m) sel attr else idt ! m))"
proof (induction n)
  case 0
  then show ?case by simp
next
  case (Suc n)
  then have "unat (of_nat n :: u8) = n" by (intro unat_of_nat_exact) simp
  with Suc show ?case by (auto simp: idt_set_gate_def nth_list_update less_Suc_eq)
qed

section \<open>Properties\<close>

text \<open>set_gdt_entry accepts the six indices 0 to 5 and the processor reads back from the entry the base,
  the lower 20 bits of the limit, the access byte and the lower four flag bits it was given, with every
  other entry unchanged; an index of 6 or more fails its assertion and a negative index writes outside
  the table.\<close>

theorem set_gdt_entry_roundtrip:
  assumes "length gdt = 6"
  shows "(0 \<le> num \<and> num < 6 \<longrightarrow> (\<exists>gdt'. set_gdt_entry num base limit access flags gdt = Inr gdt'
            \<and> descriptor_base (gdt' ! nat num) = base
            \<and> descriptor_limit (gdt' ! nat num) = take_bit 20 limit
            \<and> gdt_access (gdt' ! nat num) = access
            \<and> descriptor_flags (gdt' ! nat num) = take_bit 4 flags
            \<and> (\<forall>m. m \<noteq> nat num \<longrightarrow> gdt' ! m = gdt ! m)))
       \<and> (6 \<le> num \<longrightarrow> set_gdt_entry num base limit access flags gdt = Inl (Assertion ''num < GDT_ENTRIES''))
       \<and> (num < 0 \<longrightarrow> set_gdt_entry num base limit access flags gdt = Inl Out_of_bounds)"
proof -
  have "gdt_access (gdt_encode base limit access flags) = access" by (simp add: gdt_encode_def)
  with assms show ?thesis
    by (auto simp: set_gdt_entry_def assert_run_def GDT_ENTRIES_def gdt_base_roundtrip gdt_limit_roundtrip
        gdt_flags_roundtrip)
qed

lemma set_gdt_entry_roundtrip_witness:
  "\<exists>gdt'. set_gdt_entry 2 0x12345678 0xABCDE 0x9A 0xC (replicate 6 (gdt_encode 0 0 0 0)) = Inr gdt'
     \<and> descriptor_base (gdt' ! 2) = 0x12345678"
  using set_gdt_entry_roundtrip [of "replicate 6 (gdt_encode 0 0 0 0)" 2 "0x12345678" "0xABCDE" "0x9A" "0xC"]
  by auto

text \<open>C39. After init_gdt and init_idt the table registers hold the bounds of the two tables, the code segment register
  holds the kernel code selector and the others the kernel data selector; the four segment selectors the kernel uses name present segments
  that cover the whole 4 GB from address 0, code or data and at privilege 0 or 3 as their names say, the
  null descriptor is empty, the 34 interrupt gates 0 to 33 are present privilege-0 interrupt gates that
  enter their stub through the kernel code segment, and all other gates are as before.\<close>

theorem descriptor_tables_setup:
  assumes "length gdt = 6" and "length idt = 256"
  shows "\<exists>gdt' r. init_gdt gdt_addr gdt = Inr (gdt', r) \<and> gdtr r = \<lparr>gdt_limit = 47, gdt_base = gdt_addr\<rparr>
     \<and> seg_cs r = KERNEL_CODE_SELECTOR \<and> {seg_ds r, seg_es r, seg_fs r, seg_gs r, seg_ss r} = {KERNEL_DATA_SELECTOR}
     \<and> snd (init_idt idt_addr isr idt) = \<lparr>idt_limit = 2047, idt_base = idt_addr\<rparr>
     \<and> gdt' ! 0 = gdt_encode 0 0 0 0
     \<and> list_all (\<lambda>(sel, dpl, code). let e = gdt' ! selector_index sel in descriptor_present e
          \<and> descriptor_base e = 0 \<and> segment_last e = 2 ^ 32 - 1 \<and> descriptor_dpl e = dpl \<and> descriptor_code e = code)
        [(KERNEL_CODE_SELECTOR, 0, True), (KERNEL_DATA_SELECTOR, 0, False),
         (USER_CODE_SELECTOR, 3, True), (USER_DATA_SELECTOR, 3, False)]
     \<and> (let idt' = fst (init_idt idt_addr isr idt) in
          (\<forall>n < 34. gate_offset (idt' ! n) = isr n \<and> selector (idt' ! n) = KERNEL_CODE_SELECTOR
             \<and> type_attr (idt' ! n) = 0x8E)
        \<and> (\<forall>n. 34 \<le> n \<and> n < 256 \<longrightarrow> idt' ! n = idt ! n))"
proof -
  have sel: "selector_index KERNEL_CODE_SELECTOR = 2" "selector_index KERNEL_DATA_SELECTOR = 3"
    "selector_index USER_CODE_SELECTOR = 4" "selector_index USER_DATA_SELECTOR = 5"
    by (simp_all add: selector_index_def gdt_consts)
  have access: "gdt_access (gdt_encode b l a f) = a" for b l a f by (simp add: gdt_encode_def)
  have idt: "(\<forall>n < 34. gate_offset (init_idt_entries isr idt ! n) = isr n
        \<and> selector (init_idt_entries isr idt ! n) = KERNEL_CODE_SELECTOR
        \<and> type_attr (init_idt_entries isr idt ! n) = 0x8E)
      \<and> (\<forall>n. 34 \<le> n \<and> n < 256 \<longrightarrow> init_idt_entries isr idt ! n = idt ! n)"
    using fold_set_gates [OF order_refl assms(2), of isr KERNEL_CODE_SELECTOR IDT_ATTR_KERNEL]
    by (auto simp: init_idt_entries_def gate_offset_roundtrip) (simp_all add: idt_encode_def idt_consts)
  show ?thesis
    using idt
    by (simp add: init_gdt_def setup_gdt_entries_spec [OF assms(1)] sel gdt_base_roundtrip flat_segment
        access load_gdt_def init_gdt_ptr_def GDT_ENTRIES_def load_idt_def init_idt_ptr_def IDT_ENTRIES_def descriptor_present_def descriptor_dpl_def
        descriptor_code_def init_idt_def bit_simps)
qed

lemma descriptor_tables_setup_witness:
  "\<exists>gdt' r. init_gdt 0x2000 (replicate 6 (gdt_encode 0 0 0 0)) = Inr (gdt', r) \<and> gdtr r = \<lparr>gdt_limit = 47, gdt_base = 0x2000\<rparr>
     \<and> gate_offset (fst (init_idt 0x3000 (\<lambda>n. 0x100000 + of_nat n) (replicate 256 (idt_encode 0 0 0))) ! 33) = 0x100021"
  using descriptor_tables_setup [of "replicate 6 (gdt_encode 0 0 0 0)" "replicate 256 (idt_encode 0 0 0)"
      "0x2000" "0x3000" "\<lambda>n. 0x100000 + of_nat n"]
  by (auto simp: Let_def)

end
