(* ===== verification/Ata.thy ===== *)
theory Ata
  imports Ports Disk_Slots
begin

text \<open>
  The ATA part of drivers/disk.c: identification of the four drives, transfers of sectors by polled port
  accesses, and the byte-granular \<open>disk_read\<close> and \<open>disk_write\<close> on top. The drives answer through the argument
  \<open>dev\<close>; buffers are lists of bytes, and an access past the end of one is an error. The heap that temporary
  buffers come from is an argument.
\<close>

section \<open>Data\<close>

definition ATA_REG_DATA :: u16 where "ATA_REG_DATA = 0x0"
definition ATA_REG_SECCOUNT :: u16 where "ATA_REG_SECCOUNT = 0x2"
definition ATA_REG_LBA_LOW :: u16 where "ATA_REG_LBA_LOW = 0x3"
definition ATA_REG_LBA_MID :: u16 where "ATA_REG_LBA_MID = 0x4"
definition ATA_REG_LBA_HIGH :: u16 where "ATA_REG_LBA_HIGH = 0x5"
definition ATA_REG_DRIVE_SELECT :: u16 where "ATA_REG_DRIVE_SELECT = 0x6"
definition ATA_REG_CMD_STATUS :: u16 where "ATA_REG_CMD_STATUS = 0x7"
definition ATA_REG_ALTSTATUS :: u16 where "ATA_REG_ALTSTATUS = 0x206"
definition PRIMARY_BASE_PORT :: u16 where "PRIMARY_BASE_PORT = 0x1F0"
definition SECONDARY_BASE_PORT :: u16 where "SECONDARY_BASE_PORT = 0x170"
definition ATA_CMD_READ :: u8 where "ATA_CMD_READ = 0x20"
definition ATA_CMD_WRITE :: u8 where "ATA_CMD_WRITE = 0x30"
definition ATA_CMD_FLUSH :: u8 where "ATA_CMD_FLUSH = 0xE7"
definition ATA_CMD_IDENTIFY :: u8 where "ATA_CMD_IDENTIFY = 0xEC"
definition ATA_STATUS_BSY :: u8 where "ATA_STATUS_BSY = 0x80"
definition ATA_STATUS_DRQ :: u8 where "ATA_STATUS_DRQ = 0x08"
definition ATA_STATUS_ERR :: u8 where "ATA_STATUS_ERR = 0x01"
definition MASTER_DRIVE :: u8 where "MASTER_DRIVE = 0xE0"
definition SLAVE_DRIVE :: u8 where "SLAVE_DRIVE = 0xF0"
definition MAX_SECTORS_PER_CALL_SIZE :: u32 where "MAX_SECTORS_PER_CALL_SIZE = 256"
definition ATA_PIO_MAX_SECTORS_PER_CMD :: u8 where "ATA_PIO_MAX_SECTORS_PER_CMD = 0"

lemmas ata_consts = ATA_REG_DATA_def ATA_REG_SECCOUNT_def ATA_REG_LBA_LOW_def ATA_REG_LBA_MID_def ATA_REG_LBA_HIGH_def
  ATA_REG_DRIVE_SELECT_def ATA_REG_CMD_STATUS_def ATA_REG_ALTSTATUS_def ATA_CMD_READ_def ATA_CMD_WRITE_def
  ATA_CMD_FLUSH_def ATA_CMD_IDENTIFY_def ATA_STATUS_BSY_def ATA_STATUS_DRQ_def ATA_STATUS_ERR_def MASTER_DRIVE_def
  SLAVE_DRIVE_def MAX_SECTORS_PER_CALL_SIZE_def ATA_PIO_MAX_SECTORS_PER_CMD_def

record identifyDeviceData =
  general_config :: u16
  cylinders :: u16
  heads :: u16
  sectors_per_track :: u16
  serial_number :: buffer
  firmware_revision :: buffer
  model_number :: buffer
  capabilities :: "u16 \<times> u16"
  total_sectors :: u32
  logical_sector_size :: u32
  physical_sector_size :: u16
  base_io_port :: u16
  slave :: bool
  valid :: bool

definition disk_static :: identifyDeviceData where
  "disk_static = \<lparr>general_config = 0, cylinders = 0, heads = 0, sectors_per_track = 0, serial_number = replicate 21 0,
     firmware_revision = replicate 9 0, model_number = replicate 41 0, capabilities = (0, 0), total_sectors = 0,
     logical_sector_size = 0, physical_sector_size = 0, base_io_port = 0, slave = False, valid = False\<rparr>"

text \<open>The four drives and \<open>curr_disk\<close>.\<close>

record ata =
  disks :: "identifyDeviceData list"
  curr_disk :: u8

definition ata_static :: ata where
  "ata_static = \<lparr>disks = replicate 4 disk_static, curr_disk = 0\<rparr>"

section \<open>Addresses and polling\<close>

definition get_lba_low :: "u32 \<Rightarrow> u8" where "get_lba_low lba = ucast lba"
definition get_lba_mid :: "u32 \<Rightarrow> u8" where "get_lba_mid lba = ucast (drop_bit 8 lba)"
definition get_lba_high :: "u32 \<Rightarrow> u8" where "get_lba_high lba = ucast (drop_bit 16 lba)"
definition get_lba_highest :: "u32 \<Rightarrow> u8" where "get_lba_highest lba = ucast (drop_bit 24 lba) AND 0x0F"

definition is_lba_supported :: "identifyDeviceData \<Rightarrow> bool" where
  "is_lba_supported disk \<longleftrightarrow> fst (capabilities disk) AND one_shl 9 \<noteq> 0"

fun bsy_loop :: "device \<Rightarrow> u16 \<Rightarrow> nat \<Rightarrow> io \<Rightarrow> bool \<times> io" where
  "bsy_loop dev base_port 0 io = (False, io)"
| "bsy_loop dev base_port (Suc n) io =
     (let (status, io) = inb dev (base_port + ATA_REG_CMD_STATUS) io in
      if status AND ATA_STATUS_BSY = 0 then (True, io) else bsy_loop dev base_port n io)"

definition ata_wait_for_bsy :: "device \<Rightarrow> u16 \<Rightarrow> io \<Rightarrow> bool \<times> io" where
  "ata_wait_for_bsy dev base_port io = bsy_loop dev base_port 1000000000 io"

fun drq_loop :: "device \<Rightarrow> u16 \<Rightarrow> nat \<Rightarrow> io \<Rightarrow> bool \<times> io" where
  "drq_loop dev base_port 0 io = (False, io)"
| "drq_loop dev base_port (Suc n) io =
     (let (status, io) = inb dev (base_port + ATA_REG_CMD_STATUS) io in
      if status AND ATA_STATUS_ERR \<noteq> 0 then (False, io)
      else if status AND ATA_STATUS_DRQ \<noteq> 0 then (True, io)
      else drq_loop dev base_port n io)"

definition ata_wait_for_drq :: "device \<Rightarrow> u16 \<Rightarrow> io \<Rightarrow> bool \<times> io" where
  "ata_wait_for_drq dev base_port io = drq_loop dev base_port 1000000 io"

text \<open>\<open>while (!ata_wait_for_bsy(base_port));\<close>\<close>

partial_function (option) wait_until_free :: "device \<Rightarrow> u16 \<Rightarrow> io \<Rightarrow> io option" where
  "wait_until_free dev base_port io =
     (case ata_wait_for_bsy dev base_port io of (ok, io) \<Rightarrow> if ok then Some io else wait_until_free dev base_port io)"

text \<open>\<open>n\<close> reads of the alternate status register whose values are dropped.\<close>

fun dummy_reads :: "device \<Rightarrow> u16 \<Rightarrow> nat \<Rightarrow> io \<Rightarrow> io" where
  "dummy_reads dev base_port 0 io = io"
| "dummy_reads dev base_port (Suc n) io =
     dummy_reads dev base_port n (snd (inb dev (base_port + ATA_REG_ALTSTATUS) io))"

definition delay400ns :: "device \<Rightarrow> u16 \<Rightarrow> io \<Rightarrow> io" where
  "delay400ns dev base_port io = dummy_reads dev base_port 14 io"

definition delayAfterCommand :: "device \<Rightarrow> u16 \<Rightarrow> io \<Rightarrow> io" where
  "delayAfterCommand dev base_port io = dummy_reads dev base_port 4 io"

definition flush_cache :: "device \<Rightarrow> ata \<Rightarrow> u8 \<Rightarrow> io \<Rightarrow> io" where
  "flush_cache dev st disk_num io =
     (if disk_num \<ge> 4 \<or> \<not> valid (disks st ! unat disk_num) then io
      else
        let base_port = base_io_port (disks st ! unat disk_num) in
        delayAfterCommand dev base_port (outb (base_port + ATA_REG_CMD_STATUS) ATA_CMD_FLUSH io))"

section \<open>Identification\<close>

text \<open>The two loops of \<open>ata_extract_string\<close>; \<open>source\<close> starts at the first word of the string.\<close>

fun extract_loop :: "u16 list \<Rightarrow> nat \<Rightarrow> nat \<Rightarrow> buffer \<Rightarrow> buffer run" where
  "extract_loop source i 0 dest = Inr dest"
| "extract_loop source i (Suc n) dest =
     (if i < length source then
        bind_run (wr (i * 2) (ucast (drop_bit 8 (source ! i))) dest) (\<lambda>dest.
        bind_run (wr (i * 2 + 1) (ucast (source ! i AND 0xFF)) dest) (\<lambda>dest.
        extract_loop source (Suc i) n dest))
      else Inl Out_of_bounds)"

fun trim_loop :: "nat \<Rightarrow> buffer \<Rightarrow> buffer run" where
  "trim_loop 0 dest = Inr dest"
| "trim_loop (Suc i) dest =
     bind_run (rd dest i) (\<lambda>c.
       if c = 32 \<or> c = 0 then bind_run (wr i 0 dest) (trim_loop i) else Inr dest)"

definition ata_extract_string :: "u16 list \<Rightarrow> buffer \<Rightarrow> nat \<Rightarrow> buffer run" where
  "ata_extract_string source dest len =
     bind_run (extract_loop source 0 (len div 2) dest) (\<lambda>dest.
     bind_run (wr len 0 dest) (\<lambda>dest.
     trim_loop len dest))"

definition parse_logical_sector_size :: "u16 list \<Rightarrow> u32" where
  "parse_logical_sector_size identify_data =
     (let word_106 = identify_data ! 106 in
      if word_106 AND one_shl 14 = 0 then 512
      else if word_106 AND one_shl 12 \<noteq> 0 then
        let word_117 = identify_data ! 117; word_118 = identify_data ! 118 in
        (push_bit 16 (ucast word_118) OR ucast word_117) * 2
      else 512)"

definition parse_physical_sector_size :: "u16 list \<Rightarrow> u32" where
  "parse_physical_sector_size identify_data =
     (let word_106 = identify_data ! 106 in
      if word_106 AND one_shl 3 \<noteq> 0 then
        push_bit (unat (word_106 AND 0x0F)) (parse_logical_sector_size identify_data)
      else parse_logical_sector_size identify_data)"

fun in_words :: "device \<Rightarrow> u16 \<Rightarrow> nat \<Rightarrow> io \<Rightarrow> u16 list \<times> io" where
  "in_words dev port 0 io = ([], io)"
| "in_words dev port (Suc n) io =
     (let (w, io) = in16 dev port io; (ws, io) = in_words dev port n io in (w # ws, io))"

definition say :: "string \<Rightarrow> screen \<Rightarrow> screen run" where
  "say text s = printf (\<lambda>_. []) (chars text @ [10, 0]) [] s"

text \<open>The structure \<open>identify_drive\<close> fills from the 256 words of the drive.\<close>

definition fill_identify_data :: "u16 list \<Rightarrow> u16 \<Rightarrow> u8 \<Rightarrow> identifyDeviceData \<Rightarrow> identifyDeviceData run" where
  "fill_identify_data w base_port drive data =
     bind_run (ata_extract_string (drop 10 w) (serial_number data) 20) (\<lambda>serial.
     bind_run (ata_extract_string (drop 23 w) (firmware_revision data) 8) (\<lambda>firmware.
     bind_run (ata_extract_string (drop 27 w) (model_number data) 40) (\<lambda>model.
     Inr (data\<lparr>general_config := w ! 0, cylinders := w ! 1, heads := w ! 3, sectors_per_track := w ! 6,
       serial_number := serial, firmware_revision := firmware, model_number := model,
       capabilities := (w ! 49, w ! 50), total_sectors := ucast (w ! 60) OR push_bit 16 (ucast (w ! 61)),
       logical_sector_size := parse_logical_sector_size w,
       physical_sector_size := ucast (parse_physical_sector_size w),
       base_io_port := base_port, slave := (drive = SLAVE_DRIVE), valid := True\<rparr>))))"

definition identify_drive ::
  "device \<Rightarrow> u16 \<Rightarrow> u8 \<Rightarrow> identifyDeviceData \<Rightarrow> screen \<Rightarrow> io \<Rightarrow> (bool \<times> identifyDeviceData \<times> screen \<times> io) run" where
  "identify_drive dev base_port drive data scr io =
     (let io = outb (base_port + ATA_REG_DRIVE_SELECT) drive io;
          io = delay400ns dev base_port io;
          io = outb (base_port + ATA_REG_SECCOUNT) 0 io;
          io = outb (base_port + ATA_REG_LBA_LOW) 0 io;
          io = outb (base_port + ATA_REG_LBA_MID) 0 io;
          io = outb (base_port + ATA_REG_LBA_HIGH) 0 io;
          io = outb (base_port + ATA_REG_CMD_STATUS) ATA_CMD_IDENTIFY io;
          io = delay400ns dev base_port io;
          (status, io) = inb dev (base_port + ATA_REG_CMD_STATUS) io in
      if status = 0 then bind_run (say ''Drive does not exist.'' scr) (\<lambda>scr. Inr (False, data, scr, io))
      else
        let (ok, io) = ata_wait_for_bsy dev base_port io in
        if \<not> ok then bind_run (say ''Timeout waiting for BSY=0.'' scr) (\<lambda>scr. Inr (False, data, scr, io))
        else
          let (mid, io) = inb dev (base_port + ATA_REG_LBA_MID) io;
              (other, io) = (if mid \<noteq> 0 then (True, io)
                             else let (high, io) = inb dev (base_port + ATA_REG_LBA_HIGH) io in (high \<noteq> 0, io)) in
          if other then bind_run (say ''Not an ATA drive.'' scr) (\<lambda>scr. Inr (False, data, scr, io))
          else
            let (ok, io) = ata_wait_for_drq dev base_port io in
            if \<not> ok then bind_run (say ''Timeout waiting for DRQ=1.'' scr) (\<lambda>scr. Inr (False, data, scr, io))
            else
              let (w, io) = in_words dev (base_port + ATA_REG_DATA) 256 io in
              bind_run (fill_identify_data w base_port drive data) (\<lambda>data. Inr (True, data, scr, io)))"

text \<open>Identify drive \<open>i\<close> into \<open>disks[i]\<close>.\<close>

definition identify_into ::
  "device \<Rightarrow> nat \<Rightarrow> u16 \<Rightarrow> u8 \<Rightarrow> ata \<times> screen \<times> io \<Rightarrow> (ata \<times> screen \<times> io) run" where
  "identify_into dev i base_port drive = (\<lambda>(st, scr, io).
     bind_run (identify_drive dev base_port drive (disks st ! i) scr io) (\<lambda>(ok, data, scr, io).
     Inr (st\<lparr>disks := (disks st)[i := data]\<rparr>, scr, io)))"

text \<open>One line of the report; \<open>str\<close> is the string a \<open>%s\<close> prints, whatever its address.\<close>

definition report :: "string \<Rightarrow> buffer \<Rightarrow> u32 list \<Rightarrow> screen \<Rightarrow> screen run" where
  "report text str args s = printf (\<lambda>_. str) (chars text @ [10, 0]) (concat (map word_bytes args)) s"

definition print_disk :: "nat \<Rightarrow> identifyDeviceData \<Rightarrow> screen \<Rightarrow> screen run" where
  "print_disk i disk s =
     bind_run (report ''Disk %d Model: %s'' (model_number disk) [of_nat i, 0] s) (\<lambda>s.
     bind_run (report ''Serial: %s'' (serial_number disk) [0] s) (\<lambda>s.
     bind_run (report ''Firmware: %s'' (firmware_revision disk) [0] s) (\<lambda>s.
     bind_run (report ''Total Sectors: %d'' [] [total_sectors disk] s) (\<lambda>s.
     bind_run (report ''logical sector size: %d'' [] [logical_sector_size disk] s) (\<lambda>s.
     bind_run (report ''physical sector size: %d'' [] [ucast (physical_sector_size disk)] s) (\<lambda>s.
     bind_run (report ''Base I/O Port: %d'' [] [ucast (base_io_port disk)] s) (\<lambda>s.
     printf (\<lambda>_. []) (chars ''Slave: %d'' @ [10, 10, 0]) (word_bytes (if slave disk then 1 else 0)) s)))))))"

fun print_disks :: "nat \<Rightarrow> identifyDeviceData list \<Rightarrow> screen \<Rightarrow> screen run" where
  "print_disks i [] s = Inr s"
| "print_disks i (d # ds) s =
     bind_run (if valid d then print_disk i d s else Inr s) (print_disks (Suc i) ds)"

definition init_disk_driver :: "device \<Rightarrow> ata \<Rightarrow> screen \<Rightarrow> io \<Rightarrow> (ata \<times> screen \<times> io) run" where
  "init_disk_driver dev st scr io =
     bind_run (identify_into dev 0 PRIMARY_BASE_PORT MASTER_DRIVE (st, scr, io)) (\<lambda>x.
     bind_run (identify_into dev 1 PRIMARY_BASE_PORT SLAVE_DRIVE x) (\<lambda>x.
     bind_run (identify_into dev 2 SECONDARY_BASE_PORT MASTER_DRIVE x) (\<lambda>x.
     bind_run (identify_into dev 3 SECONDARY_BASE_PORT SLAVE_DRIVE x) (\<lambda>(st, scr, io).
     bind_run (print_disks 0 (disks st) scr) (\<lambda>scr.
     Inr (st, scr, io))))))"


section \<open>Sector transfers\<close>

text \<open>Half-word \<open>j\<close> of a buffer, low byte first.\<close>

definition put16 :: "nat \<Rightarrow> u16 \<Rightarrow> buffer \<Rightarrow> buffer run" where
  "put16 j w b = bind_run (wr (2 * j) (ucast w) b) (wr (2 * j + 1) (ucast (drop_bit 8 w)))"

definition get16 :: "nat \<Rightarrow> buffer \<Rightarrow> u16 run" where
  "get16 j b = bind_run (rd b (2 * j)) (\<lambda>lo. bind_run (rd b (2 * j + 1)) (\<lambda>hi. Inr (ucast lo OR push_bit 8 (ucast hi))))"

fun read_words :: "device \<Rightarrow> u16 \<Rightarrow> nat \<Rightarrow> nat \<Rightarrow> buffer \<Rightarrow> io \<Rightarrow> (buffer \<times> io) run" where
  "read_words dev port j 0 b io = Inr (b, io)"
| "read_words dev port j (Suc n) b io =
     (let (w, io) = in16 dev port io in
      bind_run (put16 j w b) (\<lambda>b. read_words dev port (Suc j) n b io))"

fun write_words :: "u16 \<Rightarrow> nat \<Rightarrow> nat \<Rightarrow> buffer \<Rightarrow> io \<Rightarrow> io run" where
  "write_words port j 0 b io = Inr io"
| "write_words port j (Suc n) b io =
     bind_run (get16 j b) (\<lambda>w. write_words port (Suc j) n b (out16 port w io))"

text \<open>
  The loops over sectors, with \<open>half\<close> half-words in a sector, \<open>j\<close> the half-word \<open>buffer16\<close> points to and \<open>n\<close> sectors
  left; the flag is false when the drive timed out or reported an error.
\<close>

fun read_sector_loop :: "device \<Rightarrow> u16 \<Rightarrow> nat \<Rightarrow> nat \<Rightarrow> nat \<Rightarrow> buffer \<Rightarrow> io \<Rightarrow> (bool \<times> buffer \<times> io) run" where
  "read_sector_loop dev base_port half j 0 b io = Inr (True, b, io)"
| "read_sector_loop dev base_port half j (Suc n) b io =
     (let (ok, io) = ata_wait_for_bsy dev base_port io in
      if \<not> ok then Inr (False, b, io)
      else
        let (ok, io) = ata_wait_for_drq dev base_port io in
        if \<not> ok then Inr (False, b, io)
        else
          bind_run (read_words dev (base_port + ATA_REG_DATA) j half b io) (\<lambda>(b, io).
          read_sector_loop dev base_port half (j + half) n b (delay400ns dev base_port io)))"

fun write_sector_loop ::
  "device \<Rightarrow> ata \<Rightarrow> u8 \<Rightarrow> u16 \<Rightarrow> nat \<Rightarrow> nat \<Rightarrow> nat \<Rightarrow> buffer \<Rightarrow> io \<Rightarrow> (bool \<times> io) run" where
  "write_sector_loop dev st disk_num base_port half j 0 b io = Inr (True, io)"
| "write_sector_loop dev st disk_num base_port half j (Suc n) b io =
     (let (ok, io) = ata_wait_for_bsy dev base_port io in
      if \<not> ok then Inr (False, io)
      else
        let (ok, io) = ata_wait_for_drq dev base_port io in
        if \<not> ok then Inr (False, io)
        else
          bind_run (write_words (base_port + ATA_REG_DATA) j half b io) (\<lambda>io.
          write_sector_loop dev st disk_num base_port half (j + half) n b (flush_cache dev st disk_num io)))"

text \<open>The guards shared by both transfers, and the commands they send.\<close>

definition sector_total :: "u8 \<Rightarrow> u32" where
  "sector_total sector_count =
     (if sector_count = ATA_PIO_MAX_SECTORS_PER_CMD then MAX_SECTORS_PER_CALL_SIZE else ucast sector_count)"

definition transfer_allowed :: "ata \<Rightarrow> u8 \<Rightarrow> u32 \<Rightarrow> u8 \<Rightarrow> bool" where
  "transfer_allowed st disk_num lba_address sector_count \<longleftrightarrow>
     \<not> (disk_num \<ge> 4) \<and>
     (let disk = disks st ! unat disk_num in
      valid disk \<and> is_lba_supported disk \<and>
      \<not> (lba_address \<ge> total_sectors disk \<or> sector_total sector_count > total_sectors disk - lba_address))"

definition send_command :: "device \<Rightarrow> identifyDeviceData \<Rightarrow> u32 \<Rightarrow> u8 \<Rightarrow> u8 \<Rightarrow> io \<Rightarrow> io" where
  "send_command dev disk lba_address sector_count cmd io =
     (let base_port = base_io_port disk;
          drive = (if slave disk then SLAVE_DRIVE else MASTER_DRIVE);
          io = outb (base_port + ATA_REG_DRIVE_SELECT) (drive OR get_lba_highest lba_address) io;
          io = delay400ns dev base_port io;
          io = outb (base_port + ATA_REG_SECCOUNT) sector_count io;
          io = outb (base_port + ATA_REG_LBA_LOW) (get_lba_low lba_address) io;
          io = outb (base_port + ATA_REG_LBA_MID) (get_lba_mid lba_address) io;
          io = outb (base_port + ATA_REG_LBA_HIGH) (get_lba_high lba_address) io;
          io = outb (base_port + ATA_REG_CMD_STATUS) cmd io
      in delayAfterCommand dev base_port io)"

definition ata_read_sectors ::
  "device \<Rightarrow> ata \<Rightarrow> u8 \<Rightarrow> u32 \<Rightarrow> u8 \<Rightarrow> buffer \<Rightarrow> screen \<Rightarrow> io \<Rightarrow> (bool \<times> buffer \<times> screen \<times> io) run" where
  "ata_read_sectors dev st disk_num lba_address sector_count buf scr io =
     (if \<not> transfer_allowed st disk_num lba_address sector_count then Inr (False, buf, scr, io)
      else
        let disk = disks st ! unat disk_num; base_port = base_io_port disk;
            (ok, io) = ata_wait_for_bsy dev base_port io in
        if \<not> ok then bind_run (say ''Timeout: Drive stuck busy.'' scr) (\<lambda>scr. Inr (False, buf, scr, io))
        else
          bind_run (read_sector_loop dev base_port (unat (logical_sector_size disk div 2)) 0 (unat (sector_total sector_count)) buf
              (send_command dev disk lba_address sector_count ATA_CMD_READ io)) (\<lambda>(ok, buf, io).
          Inr (ok, buf, scr, io)))"

definition ata_write_sectors :: "device \<Rightarrow> ata \<Rightarrow> u8 \<Rightarrow> u32 \<Rightarrow> u8 \<Rightarrow> buffer \<Rightarrow> io \<Rightarrow> (bool \<times> io) run" where
  "ata_write_sectors dev st disk_num lba_address sector_count buf io =
     (if \<not> transfer_allowed st disk_num lba_address sector_count then Inr (False, io)
      else
        let disk = disks st ! unat disk_num; base_port = base_io_port disk in
        bind_run (returns (map_option Inr (wait_until_free dev base_port io))) (\<lambda>io.
        write_sector_loop dev st disk_num base_port (unat (logical_sector_size disk div 2)) 0 (unat (sector_total sector_count)) buf
          (send_command dev disk lba_address sector_count ATA_CMD_WRITE io)))"

section \<open>Bytes\<close>

definition switch_disk :: "u8 \<Rightarrow> ata \<Rightarrow> ata" where
  "switch_disk disk_num st = (if disk_num < 4 \<and> valid (disks st ! unat disk_num) then st\<lparr>curr_disk := disk_num\<rparr> else st)"

definition current_disk :: "ata \<Rightarrow> identifyDeviceData" where
  "current_disk st = disks st ! unat (curr_disk st)"

definition disk_get_current_disk_logical_sector_size :: "ata \<Rightarrow> u32" where
  "disk_get_current_disk_logical_sector_size st = logical_sector_size (current_disk st)"

text \<open>The heap: \<open>kmalloc\<close> returns an address, 0 on failure, and \<open>kfree\<close> takes it back.\<close>

record 'h heap_ops =
  hp_kmalloc :: "u32 \<Rightarrow> 'h \<Rightarrow> (u32 \<times> 'h) run"
  hp_kfree :: "u32 \<Rightarrow> 'h \<Rightarrow> 'h run"

text \<open>Sectors of one call: 256 at most, and the count byte for them.\<close>

definition call_sectors :: "u32 \<Rightarrow> u32" where
  "call_sectors sectors = (if sectors \<ge> MAX_SECTORS_PER_CALL_SIZE then MAX_SECTORS_PER_CALL_SIZE else sectors)"

definition call_count :: "u32 \<Rightarrow> u8" where
  "call_count sectors = (if sectors \<ge> MAX_SECTORS_PER_CALL_SIZE then ATA_PIO_MAX_SECTORS_PER_CMD else ucast sectors)"

lemma call_sectors_less: "sectors \<noteq> 0 \<Longrightarrow> unat (sectors - call_sectors sectors) < unat sectors"
proof -
  assume "sectors \<noteq> 0"
  then have "0 < unat (call_sectors sectors)" "call_sectors sectors \<le> sectors"
    by (auto simp: call_sectors_def MAX_SECTORS_PER_CALL_SIZE_def unat_gt_0)
  then show ?thesis by (simp add: unat_sub word_le_nat_alt)
qed

function read_chunks ::
  "device \<Rightarrow> 'h heap_ops \<Rightarrow> ata \<Rightarrow> u32 \<Rightarrow> u32 \<Rightarrow> u32 \<Rightarrow> u32 \<Rightarrow> buffer \<Rightarrow> screen \<Rightarrow> io \<Rightarrow> 'h \<Rightarrow> (u32 \<times> buffer \<times> screen \<times> io \<times> 'h) run" where
  "read_chunks dev hp st addr total_read sectors len buf scr io h =
     (if sectors = 0 then Inr (total_read, buf, scr, io, h)
      else
        let sector_size = logical_sector_size (current_disk st);
            bytes = call_sectors sectors * sector_size in
        bind_run (hp_kmalloc hp bytes h) (\<lambda>(temp, h).
          if temp = 0 then Inr (total_read, buf, scr, io, h)
          else
            bind_run (ata_read_sectors dev st (curr_disk st) addr (call_count sectors) (replicate (unat bytes) 0) scr io) (\<lambda>(ok, temp_buffer, scr, io).
              if \<not> ok then bind_run (hp_kfree hp temp h) (\<lambda>h. Inr (total_read, buf, scr, io, h))
              else
                let bytes = (if total_read + bytes > len then len - total_read else bytes) in
                bind_run (memcpy buf (unat total_read) temp_buffer bytes) (\<lambda>buf.
                bind_run (hp_kfree hp temp h) (\<lambda>h.
                read_chunks dev hp st (addr + call_sectors sectors) (total_read + bytes) (sectors - call_sectors sectors) len buf scr io h)))))"
  by pat_completeness auto
termination
  by (relation "measure (\<lambda>(dev, hp, st, addr, total_read, sectors, len, buf, scr, io, h). unat sectors)") (auto intro: call_sectors_less)

definition disk_read ::
  "device \<Rightarrow> 'h heap_ops \<Rightarrow> ata \<Rightarrow> u32 \<Rightarrow> buffer \<Rightarrow> u32 \<Rightarrow> screen \<Rightarrow> io \<Rightarrow> 'h \<Rightarrow> (u32 \<times> buffer \<times> screen \<times> io \<times> 'h) run" where
  "disk_read dev hp st addr buf len scr io h =
     (if \<not> valid (current_disk st) then Inr (0, buf, scr, io, h)
      else
        let sector_size = logical_sector_size (current_disk st) in
        if sector_size = 0 then Inl Divide_error
        else read_chunks dev hp st addr 0 ((len + sector_size - 1) div sector_size) len buf scr io h)"

text \<open>The loop over full sectors; the flag is false when it returned early.\<close>

function write_chunks ::
  "device \<Rightarrow> 'h heap_ops \<Rightarrow> ata \<Rightarrow> u32 \<Rightarrow> u32 \<Rightarrow> u32 \<Rightarrow> buffer \<Rightarrow> io \<Rightarrow> 'h \<Rightarrow> (bool \<times> u32 \<times> u32 \<times> io \<times> 'h) run" where
  "write_chunks dev hp st lba total_written sectors buf io h =
     (if sectors = 0 then Inr (True, lba, total_written, io, h)
      else
        let bytes = call_sectors sectors * logical_sector_size (current_disk st) in
        bind_run (hp_kmalloc hp bytes h) (\<lambda>(temp, h).
          if temp = 0 then Inr (False, lba, total_written, io, h)
          else
            bind_run (memcpy (replicate (unat bytes) 0) 0 (drop (unat total_written) buf) bytes) (\<lambda>temp_buffer.
            bind_run (ata_write_sectors dev st (curr_disk st) lba (call_count sectors) temp_buffer io) (\<lambda>(ok, io).
            bind_run (hp_kfree hp temp h) (\<lambda>h.
              if \<not> ok then Inr (False, lba, total_written, io, h)
              else
                write_chunks dev hp st (lba + call_sectors sectors) (total_written + bytes) (sectors - call_sectors sectors) buf io h)))))"
  by pat_completeness auto
termination
  by (relation "measure (\<lambda>(dev, hp, st, lba, total_written, sectors, buf, io, h). unat sectors)") (auto intro: call_sectors_less)

text \<open>The last, partial sector: read, patched and written back. An error returns without freeing \<open>temp\<close>.\<close>

definition write_tail ::
  "device \<Rightarrow> 'h heap_ops \<Rightarrow> ata \<Rightarrow> u32 \<Rightarrow> u32 \<Rightarrow> u32 \<Rightarrow> buffer \<Rightarrow> screen \<Rightarrow> io \<Rightarrow> 'h \<Rightarrow> (u32 \<times> screen \<times> io \<times> 'h) run" where
  "write_tail dev hp st last_sector total_written len buf scr io h =
     (let sector_size = logical_sector_size (current_disk st) in
      if len mod sector_size = 0 then Inr (len, scr, io, h)
      else
        bind_run (hp_kmalloc hp sector_size h) (\<lambda>(temp, h).
          if temp = 0 then Inr (total_written, scr, io, h)
          else
            bind_run (ata_read_sectors dev st (curr_disk st) last_sector 1 (replicate (unat sector_size) 0) scr io) (\<lambda>(ok, temp_buffer, scr, io).
              if \<not> ok then Inr (total_written, scr, io, h)
              else
                bind_run (memcpy temp_buffer 0 (drop (unat total_written) buf) (len mod sector_size)) (\<lambda>temp_buffer.
                bind_run (ata_write_sectors dev st (curr_disk st) last_sector 1 temp_buffer io) (\<lambda>(ok, io).
                  if \<not> ok then Inr (total_written, scr, io, h)
                  else
                    bind_run (hp_kfree hp temp h) (\<lambda>h.
                    Inr (len, scr, flush_cache dev st (curr_disk st) io, h)))))))"

definition disk_write ::
  "device \<Rightarrow> 'h heap_ops \<Rightarrow> ata \<Rightarrow> u32 \<Rightarrow> buffer \<Rightarrow> u32 \<Rightarrow> screen \<Rightarrow> io \<Rightarrow> 'h \<Rightarrow> (u32 \<times> screen \<times> io \<times> 'h) run" where
  "disk_write dev hp st lba buf len scr io h =
     (if \<not> valid (current_disk st) then Inr (0, scr, io, h)
      else if logical_sector_size (current_disk st) = 0 then Inl Divide_error
      else
        bind_run (write_chunks dev hp st lba 0 (len div logical_sector_size (current_disk st)) buf io h)
          (\<lambda>(ok, lba, total_written, io, h).
             if \<not> ok then Inr (total_written, scr, io, h)
             else write_tail dev hp st lba total_written len buf scr io h))"

declare read_chunks.simps [simp del] write_chunks.simps [simp del]

end
