(* ===== verification/Ata_Properties.thy ===== *)
theory Ata_Properties
  imports Ata
begin

text \<open>
  What the ATA driver guarantees with a drive that answers: the registers a transfer programs, the bytes a read
  delivers, the limits of a transfer, and that \<open>disk_read\<close> fills the buffer across chunks of 256 sectors.
\<close>

section \<open>Histories\<close>

text \<open>The byte writes and the half-words read in a history, oldest first.\<close>

fun out8s :: "io \<Rightarrow> (u16 \<times> u8) list" where
  "out8s [] = []"
| "out8s (Out8 p v # io) = out8s io @ [(p, v)]"
| "out8s (e # io) = out8s io"

fun in16s :: "io \<Rightarrow> u16 list" where
  "in16s [] = []"
| "in16s (In16 p v # io) = in16s io @ [v]"
| "in16s (e # io) = in16s io"

definition half_bytes :: "u16 \<Rightarrow> buffer" where
  "half_bytes w = [ucast w, ucast (drop_bit 8 w)]"

lemma length_half_bytes: "length (concat (map half_bytes ws)) = 2 * length ws"
  by (induction ws) (simp_all add: half_bytes_def)

text \<open>A drive that is never busy, reports no error and always has data.\<close>

definition ready :: "device \<Rightarrow> u16 \<Rightarrow> bool" where
  "ready dev base_port \<longleftrightarrow> (\<forall>io. let status = ucast (dev io (base_port + ATA_REG_CMD_STATUS)) :: u8 in
     status AND ATA_STATUS_BSY = 0 \<and> status AND ATA_STATUS_ERR = 0 \<and> status AND ATA_STATUS_DRQ \<noteq> 0)"

lemma wait_bsy_ready:
  assumes "ready dev base_port"
  shows "\<exists>v. ata_wait_for_bsy dev base_port io = (True, In8 (base_port + ATA_REG_CMD_STATUS) v # io)"
proof -
  have "\<exists>v. bsy_loop dev base_port n io = (True, In8 (base_port + ATA_REG_CMD_STATUS) v # io)" if "0 < n" for n
    using assms that by (cases n) (auto simp: ready_def inb_def Let_def)
  then show ?thesis by (simp add: ata_wait_for_bsy_def)
qed

lemma wait_drq_ready:
  assumes "ready dev base_port"
  shows "\<exists>v. ata_wait_for_drq dev base_port io = (True, In8 (base_port + ATA_REG_CMD_STATUS) v # io)"
proof -
  have "\<exists>v. drq_loop dev base_port n io = (True, In8 (base_port + ATA_REG_CMD_STATUS) v # io)" if "0 < n" for n
    using assms that by (cases n) (auto simp: ready_def inb_def Let_def)
  then show ?thesis by (simp add: ata_wait_for_drq_def)
qed

lemma dummy_reads_log [simp]:
  "out8s (dummy_reads dev base_port n io) = out8s io" "in16s (dummy_reads dev base_port n io) = in16s io"
  by (induction n arbitrary: io) (simp_all add: inb_def Let_def)

lemma delay_log [simp]:
  "out8s (delay400ns dev base_port io) = out8s io" "in16s (delay400ns dev base_port io) = in16s io"
  "out8s (delayAfterCommand dev base_port io) = out8s io" "in16s (delayAfterCommand dev base_port io) = in16s io"
  by (simp_all add: delay400ns_def delayAfterCommand_def)

section \<open>Reading sectors\<close>

lemma put16_in:
  assumes "2 * j + 1 < length b"
  shows "put16 j w b = Inr (take (2 * j) b @ half_bytes w @ drop (2 * j + 2) b)"
proof -
  have "b[2 * j := x, 2 * j + 1 := y] = take (2 * j) b @ [x, y] @ drop (2 * j + 2) b" for x y
    using assms by (auto intro!: nth_equalityI simp: nth_append nth_list_update nth_Cons' min_def)
       (rule arg_cong [of _ _ "nth b"], simp)
  then show ?thesis using assms by (simp add: put16_def half_bytes_def)
qed

lemma read_words_fills:
  assumes "2 * (j + n) \<le> length b"
  shows "\<exists>ws io'. read_words dev port j n b io = Inr (take (2 * j) b @ concat (map half_bytes ws) @ drop (2 * (j + n)) b, io')
     \<and> length ws = n \<and> in16s io' = in16s io @ ws \<and> out8s io' = out8s io"
  using assms
proof (induction n arbitrary: j b io)
  case 0
  then show ?case by (intro exI [of _ "[] :: u16 list"] exI [of _ io]) simp
next
  case (Suc n)
  define w :: u16 where "w = ucast (dev io port)"
  let ?b = "take (2 * j) b @ half_bytes w @ drop (2 * j + 2) b"
  have len: "length ?b = length b" using Suc.prems by (simp add: half_bytes_def)
  obtain ws io' where r: "read_words dev port (Suc j) n ?b (In16 port w # io)
        = Inr (take (2 * Suc j) ?b @ concat (map half_bytes ws) @ drop (2 * (Suc j + n)) ?b, io')"
      "length ws = n" "in16s io' = in16s (In16 port w # io) @ ws" "out8s io' = out8s (In16 port w # io)"
    using Suc.IH [of "Suc j" ?b "In16 port w # io"] Suc.prems len by auto
  have "take (2 * Suc j) ?b = take (2 * j) b @ half_bytes w" using Suc.prems by (simp add: half_bytes_def)
  moreover have "drop (2 * (Suc j + n)) ?b = drop (2 * (j + Suc n)) b"
    using Suc.prems by (simp add: half_bytes_def add.commute)
  ultimately show ?case
    using r Suc.prems put16_in [of j b w]
    by (intro exI [of _ "w # ws"] exI [of _ io']) (simp add: in16_def Let_def w_def [symmetric])
qed

lemma read_sectors_fill:
  assumes "ready dev base_port" and "2 * (j + half * n) \<le> length b"
  shows "\<exists>ws io'. read_sector_loop dev base_port half j n b io
        = Inr (True, take (2 * j) b @ concat (map half_bytes ws) @ drop (2 * (j + half * n)) b, io')
     \<and> length ws = half * n \<and> in16s io' = in16s io @ ws \<and> out8s io' = out8s io"
  using assms(2)
proof (induction n arbitrary: j b io)
  case 0
  then show ?case by (intro exI [of _ "[] :: u16 list"] exI [of _ io]) simp
next
  case (Suc n)
  obtain v where v: "ata_wait_for_bsy dev base_port io = (True, In8 (base_port + ATA_REG_CMD_STATUS) v # io)"
    using wait_bsy_ready [OF assms(1)] by blast
  obtain u where u: "ata_wait_for_drq dev base_port (In8 (base_port + ATA_REG_CMD_STATUS) v # io)
      = (True, In8 (base_port + ATA_REG_CMD_STATUS) u # In8 (base_port + ATA_REG_CMD_STATUS) v # io)" (is "_ = (True, ?io)")
    using wait_drq_ready [OF assms(1)] by blast
  obtain ws io1 where r: "read_words dev (base_port + ATA_REG_DATA) j half b ?io
        = Inr (take (2 * j) b @ concat (map half_bytes ws) @ drop (2 * (j + half)) b, io1)"
      "length ws = half" "in16s io1 = in16s io @ ws" "out8s io1 = out8s io"
    using read_words_fills [of j half b dev "base_port + ATA_REG_DATA" ?io] Suc.prems by auto
  let ?b = "take (2 * j) b @ concat (map half_bytes ws) @ drop (2 * (j + half)) b"
  have len: "length ?b = length b" using Suc.prems r(2) by (simp add: length_half_bytes)
  obtain ws' io' where r': "read_sector_loop dev base_port half (j + half) n ?b (delay400ns dev base_port io1)
        = Inr (True, take (2 * (j + half)) ?b @ concat (map half_bytes ws') @ drop (2 * (j + half + half * n)) ?b, io')"
      "length ws' = half * n" "in16s io' = in16s io1 @ ws'" "out8s io' = out8s io1"
    using Suc.IH [of "j + half" ?b "delay400ns dev base_port io1"] Suc.prems len by auto
  have "take (2 * (j + half)) ?b = take (2 * j) b @ concat (map half_bytes ws)"
    using Suc.prems r(2) by (simp add: length_half_bytes)
  moreover have "drop (2 * (j + half + half * n)) ?b = drop (2 * (j + half * Suc n)) b"
    using Suc.prems r(2) by (simp add: length_half_bytes algebra_simps)
  ultimately show ?case
    using v u r r' by (intro exI [of _ "ws @ ws'"] exI [of _ io']) simp
qed


section \<open>Commands\<close>

lemma send_command_log:
  "out8s (send_command dev disk lba n cmd io) = out8s io @
     [(base_io_port disk + 6, (if slave disk then 0xF0 else 0xE0) OR get_lba_highest lba), (base_io_port disk + 2, n),
      (base_io_port disk + 3, get_lba_low lba), (base_io_port disk + 4, get_lba_mid lba),
      (base_io_port disk + 5, get_lba_high lba), (base_io_port disk + 7, cmd)]"
  "in16s (send_command dev disk lba n cmd io) = in16s io"
  by (simp_all add: send_command_def Let_def outb_def ata_consts)

text \<open>The four address registers hold the low 28 bits of the sector number.\<close>

definition lba_of_registers :: "u8 \<Rightarrow> u8 \<Rightarrow> u8 \<Rightarrow> u8 \<Rightarrow> u32" where
  "lba_of_registers low mid high highest =
     ucast low OR push_bit 8 (ucast mid) OR push_bit 16 (ucast high) OR push_bit 24 (ucast highest)"

lemma lba28:
  "lba_of_registers (get_lba_low lba) (get_lba_mid lba) (get_lba_high lba) (get_lba_highest lba) = take_bit 28 lba"
proof (rule bit_word_eqI)
  fix n assume "n < LENGTH(32)"
  then have n: "n < 32" by simp
  have m: "(0x0F :: u8) = mask 4" by (simp add: mask_eq_exp_minus_1)
  show "bit (lba_of_registers (get_lba_low lba) (get_lba_mid lba) (get_lba_high lba) (get_lba_highest lba)) n = bit (take_bit 28 lba) n"
    using n by (auto simp: lba_of_registers_def get_lba_low_def get_lba_mid_def get_lba_high_def get_lba_highest_def m bit_simps)
qed

lemma sector_total_unat: "unat (sector_total n) = (if n = 0 then 256 else unat n)"
  by (simp add: sector_total_def ata_consts unat_ucast_up)

lemma read_transfers:
  assumes "transfer_allowed st d lba n" and "disk = disks st ! unat d" and "ready dev (base_io_port disk)"
    and "half = unat (logical_sector_size disk div 2)" and "k = (if n = 0 then 256 else unat n)" and "2 * (half * k) \<le> length buf"
  shows "\<exists>ws io'. ata_read_sectors dev st d lba n buf scr io = Inr (True, concat (map half_bytes ws) @ drop (2 * (half * k)) buf, scr, io')
     \<and> length ws = half * k \<and> in16s io' = in16s io @ ws
     \<and> (\<exists>low mid high highest. out8s io' = out8s io @
          [(base_io_port disk + 6, (if slave disk then 0xF0 else 0xE0) OR highest), (base_io_port disk + 2, n),
           (base_io_port disk + 3, low), (base_io_port disk + 4, mid), (base_io_port disk + 5, high), (base_io_port disk + 7, ATA_CMD_READ)]
          \<and> lba_of_registers low mid high highest = take_bit 28 lba)"
proof -
  obtain v where v: "ata_wait_for_bsy dev (base_io_port disk) io = (True, In8 (base_io_port disk + ATA_REG_CMD_STATUS) v # io)"
    using wait_bsy_ready [OF assms(3)] by blast
  let ?io = "send_command dev disk lba n ATA_CMD_READ (In8 (base_io_port disk + ATA_REG_CMD_STATUS) v # io)"
  obtain ws io' where r: "read_sector_loop dev (base_io_port disk) half 0 k buf ?io
        = Inr (True, concat (map half_bytes ws) @ drop (2 * (half * k)) buf, io')"
      "length ws = half * k" "in16s io' = in16s ?io @ ws" "out8s io' = out8s ?io"
    using read_sectors_fill [OF assms(3), of 0 half k buf ?io] assms(6) by auto
  then have "ata_read_sectors dev st d lba n buf scr io = Inr (True, concat (map half_bytes ws) @ drop (2 * (half * k)) buf, scr, io')"
    using assms(1,2,4,5) v by (simp add: ata_read_sectors_def sector_total_unat Let_def)
  with r(2-4) lba28 [of lba] show ?thesis by (auto simp: send_command_log)
qed

section \<open>Chunks\<close>

definition heap_never_fails :: "'h heap_ops \<Rightarrow> bool" where
  "heap_never_fails hp \<longleftrightarrow> (\<forall>n h. \<exists>p h'. hp_kmalloc hp n h = Inr (p, h') \<and> p \<noteq> 0) \<and> (\<forall>p h. \<exists>h'. hp_kfree hp p h = Inr h')"

text \<open>The current disk is valid, answers, and has sectors of an even number of bytes.\<close>

definition disk_ready :: "device \<Rightarrow> ata \<Rightarrow> bool" where
  "disk_ready dev st \<longleftrightarrow> curr_disk st < 4 \<and> valid (current_disk st) \<and> is_lba_supported (current_disk st)
     \<and> ready dev (base_io_port (current_disk st)) \<and> logical_sector_size (current_disk st) \<noteq> 0
     \<and> even (unat (logical_sector_size (current_disk st)))"

lemma transfer_allowed_iff:
  "transfer_allowed st disk_num lba n \<longleftrightarrow> disk_num < 4 \<and> valid (disks st ! unat disk_num)
     \<and> is_lba_supported (disks st ! unat disk_num)
     \<and> unat lba + (if n = 0 then 256 else unat n) \<le> unat (total_sectors (disks st ! unat disk_num))"
proof -
  let ?t = "total_sectors (disks st ! unat disk_num)" and ?n = "if n = 0 then 256 else unat n"
  have "0 < ?n" by (simp add: unat_gt_0)
  then have "\<not> (?t \<le> lba \<or> ?t - lba < sector_total n) \<longleftrightarrow> unat lba + ?n \<le> unat ?t"
    using sector_total_unat [of n]
    by (cases "?t \<le> lba") (auto simp: word_le_nat_alt word_less_nat_alt unat_sub not_le split: if_splits)
  then show ?thesis by (auto simp: transfer_allowed_def Let_def not_le)
qed

lemma call_unat:
  assumes "sectors \<noteq> 0"
  shows "unat (call_sectors sectors) = min 256 (unat sectors)"
    and "(if call_count sectors = 0 then 256 else unat (call_count sectors)) = min 256 (unat sectors)"
proof -
  have pos: "0 < unat sectors" using assms by (simp add: unat_gt_0)
  show "unat (call_sectors sectors) = min 256 (unat sectors)"
    by (auto simp: call_sectors_def ata_consts word_le_nat_alt)
  show "(if call_count sectors = 0 then 256 else unat (call_count sectors)) = min 256 (unat sectors)"
  proof (cases "256 \<le> unat sectors")
    case True
    then show ?thesis by (simp add: call_count_def ata_consts word_le_nat_alt)
  next
    case False
    then have "unat (ucast sectors :: u8) = unat sectors" by (intro unat_ucast_down) simp
    with False pos show ?thesis by (auto simp: call_count_def ata_consts word_le_nat_alt)
  qed
qed

text \<open>One call of \<open>ata_read_sectors\<close> from \<open>read_chunks\<close>.\<close>

lemma read_call:
  assumes "disk_ready dev st" and "sectors \<noteq> 0" and "k = min 256 (unat sectors)"
    and "unat addr + unat sectors \<le> unat (total_sectors (current_disk st))"
    and "size_n = k * unat (logical_sector_size (current_disk st))"
  shows "\<exists>ws io'. ata_read_sectors dev st (curr_disk st) addr (call_count sectors) (replicate size_n 0) scr io
        = Inr (True, concat (map half_bytes ws), scr, io')
     \<and> 2 * length ws = size_n \<and> in16s io' = in16s io @ ws"
proof -
  let ?ss = "logical_sector_size (current_disk st)" and ?half = "unat (logical_sector_size (current_disk st) div 2)"
  have half: "2 * ?half = unat ?ss" using assms(1) by (simp add: disk_ready_def unat_div)
  then have sz: "2 * (?half * k) = size_n" by (simp add: assms(5) mult.assoc [symmetric])
  have "transfer_allowed st (curr_disk st) addr (call_count sectors)"
    using assms(1,4) call_unat(2) [OF assms(2)] unfolding transfer_allowed_iff by (auto simp: disk_ready_def current_disk_def)
  then show ?thesis
    using read_transfers [of st "curr_disk st" addr "call_count sectors" "current_disk st" dev ?half k
        "replicate size_n 0" scr io] assms(1,3) call_unat(2) [OF assms(2)] sz
    by (auto simp: disk_ready_def current_disk_def)
qed

text \<open>One command of at most 256 sectors, in words: nothing wraps while the whole transfer fits.\<close>

lemma chunk_words:
  fixes sectors addr tot total S :: u32
  assumes "sectors \<noteq> 0" and "k = min 256 (unat sectors)" and "unat tot + unat sectors * unat S < 2 ^ 32"
    and "unat addr + unat sectors \<le> unat total"
  shows "unat (call_sectors sectors * S) = k * unat S" "unat (sectors - call_sectors sectors) = unat sectors - k"
    "unat (addr + call_sectors sectors) = unat addr + k" "unat (tot + call_sectors sectors * S) = unat tot + k * unat S"
proof -
  note c = call_unat(1) [OF assms(1), folded assms(2)]
  have k: "k \<le> unat sectors" "k * unat S \<le> unat sectors * unat S" by (simp_all only: assms(2) mult_le_mono1 min.cobounded2)
  then have le: "unat tot + k * unat S < 2 ^ 32" using assms(3) by linarith
  then show bytes: "unat (call_sectors sectors * S) = k * unat S" using c by (subst unat_mult_exact) simp_all
  show "unat (sectors - call_sectors sectors) = unat sectors - k" using c k(1) by (simp add: unat_sub word_le_nat_alt)
  show "unat (addr + call_sectors sectors) = unat addr + k"
    using c assms(4) k(1) unat_u32_less [of total] by (subst unat_add_exact) auto
  show "unat (tot + call_sectors sectors * S) = unat tot + k * unat S" using bytes le by (subst unat_add_exact) simp_all
qed

lemma splice:
  assumes "tr \<le> len" and "len \<le> length buf" and "b = (if tr + length T > len then len - tr else length T)"
    and "len - (tr + b) = 0 \<or> b = length T"
    and "buf1 = take tr buf @ take b T @ drop (tr + b) buf"
  shows "length buf1 = length buf" "take (tr + b) buf1 @ take (len - (tr + b)) W @ drop len buf1
     = take tr buf @ take (len - tr) (T @ W) @ drop len buf"
proof -
  have b: "b \<le> length T" "tr + b \<le> len" using assms(1,3) by auto
  then show "length buf1 = length buf" using assms by auto
  have "take (tr + b) buf1 = take tr buf @ take b T" using assms(2,5) b by simp
  moreover have "drop len buf1 = drop len buf" using assms(2,5) b by simp
  moreover have "take b T @ take (len - (tr + b)) W = take (len - tr) (T @ W)"
    using assms(4) b by (auto simp: take_all_iff)
  ultimately show "take (tr + b) buf1 @ take (len - (tr + b)) W @ drop len buf1 = take tr buf @ take (len - tr) (T @ W) @ drop len buf"
    by (metis append_assoc)
qed

text \<open>Arithmetic of one chunk of \<open>k\<close> out of \<open>sec\<close> sectors.\<close>

lemma chunk_arith:
  fixes tr len sec ss k :: nat
  assumes "k \<le> sec" and "0 < k" and "tr \<le> len" and "len \<le> tr + sec * ss" and "tr + (sec - 1) * ss < len"
    and "b = (if tr + k * ss > len then len - tr else k * ss)"
  shows "k * ss + (sec - k) * ss = sec * ss" "tr + b \<le> len" "len \<le> tr + b + (sec - k) * ss" "len - (tr + b) = 0 \<or> b = k * ss"
    "sec - k \<noteq> 0 \<longrightarrow> tr + b + (sec - k - 1) * ss < len"
proof -
  show 1: "k * ss + (sec - k) * ss = sec * ss" using assms(1) by (simp add: distrib_right [symmetric])
  show "tr + b \<le> len" "len \<le> tr + b + (sec - k) * ss" "len - (tr + b) = 0 \<or> b = k * ss" using 1 assms by auto
  show "sec - k \<noteq> 0 \<longrightarrow> tr + b + (sec - k - 1) * ss < len"
  proof
    assume "sec - k \<noteq> 0"
    then have "k * ss + (sec - k - 1) * ss = (sec - 1) * ss" by (simp add: distrib_right [symmetric])
    then show "tr + b + (sec - k - 1) * ss < len" using assms(5,6) by auto
  qed
qed

text \<open>
  What the byte interface relies on: under \<open>drive_ok\<close> one call of \<open>ata_read_sectors\<close> delivers its sectors, where
  \<open>delivers p dev st addr io T io'\<close> says what the bytes \<open>T\<close> read from sector \<open>addr\<close> on are; consecutive deliveries
  compose.
\<close>

locale sector_reads =
  fixes drive_ok :: "'p \<Rightarrow> device \<Rightarrow> ata \<Rightarrow> bool"
    and delivers :: "'p \<Rightarrow> device \<Rightarrow> ata \<Rightarrow> nat \<Rightarrow> io \<Rightarrow> buffer \<Rightarrow> io \<Rightarrow> bool"
  assumes ok_ready: "drive_ok p dev st \<Longrightarrow> disk_ready dev st"
    and call: "drive_ok p dev st \<Longrightarrow> sectors \<noteq> 0 \<Longrightarrow> k = min 256 (unat sectors) \<Longrightarrow>
      unat addr + unat sectors \<le> unat (total_sectors (current_disk st)) \<Longrightarrow>
      size_n = k * unat (logical_sector_size (current_disk st)) \<Longrightarrow>
      \<exists>T io'. ata_read_sectors dev st (curr_disk st) addr (call_count sectors) (replicate size_n 0) scr io = Inr (True, T, scr, io')
        \<and> length T = size_n \<and> delivers p dev st (unat addr) io T io'"
    and no_sectors: "delivers p dev st a io [] io"
    and consecutive: "delivers p dev st a io T io1 \<Longrightarrow> length T = k * unat (logical_sector_size (current_disk st)) \<Longrightarrow>
      delivers p dev st (a + k) io1 W io2 \<Longrightarrow> delivers p dev st a io (T @ W) io2"
begin

lemma read_chunks_fill:
  assumes "drive_ok p dev st" and "heap_never_fails hp" and "unat len \<le> length buf" and "unat tr \<le> unat len"
    and "unat addr + unat sectors \<le> unat (total_sectors (current_disk st))"
    and "ss = unat (logical_sector_size (current_disk st))"
    and "unat tr + unat sectors * ss < 2 ^ 32" and "unat len \<le> unat tr + unat sectors * ss"
    and "sectors \<noteq> 0 \<longrightarrow> unat tr + (unat sectors - 1) * ss < unat len"
  shows "\<exists>T io' h'. read_chunks dev hp st addr tr sectors len buf scr io h
        = Inr (len, take (unat tr) buf @ take (unat len - unat tr) T @ drop (unat len) buf, scr, io', h')
     \<and> length T = unat sectors * ss \<and> delivers p dev st (unat addr) io T io'"
  using assms(3-5,7-)
proof (induction "unat sectors" arbitrary: addr tr sectors buf io h rule: less_induct)
  case less
  show ?case
  proof (cases "sectors = 0")
    case True
    with less.prems have "tr = len" by (simp add: word_unat_eq_iff)
    with True show ?thesis
      by (intro exI [of _ "[] :: buffer"] exI [of _ io] exI [of _ h]) (simp add: read_chunks.simps no_sectors)
  next
    case False
    define k where "k = min 256 (unat sectors)"
    define n where "n = k * ss"
    let ?ss = "logical_sector_size (current_disk st)"
    have pos: "0 < unat sectors" "k \<le> unat sectors" "0 < k" using False by (auto simp: k_def unat_gt_0)
    note cw = chunk_words [OF False k_def less.prems(4) [unfolded assms(6)] less.prems(3), folded assms(6), folded n_def]
    obtain temp h1 where h1: "hp_kmalloc hp (call_sectors sectors * ?ss) h = Inr (temp, h1)" "temp \<noteq> 0"
      using assms(2) unfolding heap_never_fails_def by blast
    obtain h2 where h2: "hp_kfree hp temp h1 = Inr h2" using assms(2) unfolding heap_never_fails_def by blast
    obtain T io1 where r: "ata_read_sectors dev st (curr_disk st) addr (call_count sectors) (replicate n 0) scr io
          = Inr (True, T, scr, io1)" "length T = n" "delivers p dev st (unat addr) io T io1"
      using call [OF assms(1) False k_def less.prems(3), of n scr io] by (auto simp: n_def assms(6))
    define b where "b = (if unat tr + n > unat len then unat len - unat tr else n)"
    note ar = chunk_arith [OF pos(2,3) less.prems(2,5) less.prems(6) [rule_format, OF False] b_def [unfolded n_def], folded n_def]
    define bw where "bw = (if tr + call_sectors sectors * ?ss > len then len - tr else call_sectors sectors * ?ss)"
    have bw: "unat bw = b" using less.prems(2) cw(1,4) by (auto simp: bw_def b_def word_less_nat_alt unat_sub word_le_nat_alt)
    have tr': "unat (tr + bw) = unat tr + b" using ar(2) bw unat_u32_less [of len] by (subst unat_add_exact) auto
    define buf1 where "buf1 = take (unat tr) buf @ take b T @ drop (unat tr + b) buf"
    note T = r(2)
    have cp: "memcpy buf (unat tr) T bw = Inr buf1"
      using memcpy_spec [of bw T "unat tr" buf] T bw ar(2) less.prems(1) by (auto simp: buf1_def b_def split: if_splits)
    note sp = splice [OF less.prems(2,1) b_def [folded T] _ buf1_def, unfolded T, OF ar(4)]
    obtain W io' h' where w: "read_chunks dev hp st (addr + call_sectors sectors) (tr + bw) (sectors - call_sectors sectors) len buf1 scr io1 h2
        = Inr (len, take (unat (tr + bw)) buf1 @ take (unat len - unat (tr + bw)) W @ drop (unat len) buf1, scr, io', h')"
        "length W = unat (sectors - call_sectors sectors) * ss" "delivers p dev st (unat addr + k) io1 W io'"
      using less.hyps [of "sectors - call_sectors sectors" buf1 "tr + bw" "addr + call_sectors sectors" io1 h2]
        call_sectors_less [OF False] sp(1) less.prems ar pos tr' cw(2,3) by (auto simp: word_unat_eq_iff)
    have "read_chunks dev hp st addr tr sectors len buf scr io h
        = read_chunks dev hp st (addr + call_sectors sectors) (tr + bw) (sectors - call_sectors sectors) len buf1 scr io1 h2"
      using False h1 h2 r(1) cp by (subst read_chunks.simps) (simp add: Let_def cw(1) bw_def [symmetric])
    moreover have "delivers p dev st (unat addr) io (T @ W) io'"
      using consecutive [OF r(3) _ w(3)] r(2) by (simp add: n_def assms(6))
    ultimately show ?thesis
      using w r sp(2) [of W] tr' cw(2) ar(1)
      by (intro exI [of _ "T @ W"] exI [of _ io'] exI [of _ h']) (simp add: n_def)
  qed
qed

lemma disk_read_delivers:
  assumes "drive_ok p dev st" and "heap_never_fails hp" and "unat len \<le> length buf"
    and "ss = unat (logical_sector_size (current_disk st))" and "n = (unat len + ss - 1) div ss"
    and "unat addr + n \<le> unat (total_sectors (current_disk st))" and "unat len + ss \<le> 2 ^ 32"
  shows "\<exists>T io' h'. disk_read dev hp st addr buf len scr io h = Inr (len, take (unat len) T @ drop (unat len) buf, scr, io', h')
     \<and> length T = n * ss \<and> delivers p dev st (unat addr) io T io'"
proof -
  let ?ss = "logical_sector_size (current_disk st)" and ?n = "(len + logical_sector_size (current_disk st) - 1) div logical_sector_size (current_disk st)"
  have ss: "0 < ss" "?ss \<noteq> 0" "valid (current_disk st)" using ok_ready [OF assms(1)] assms(4) by (auto simp: disk_ready_def unat_gt_0)
  have "unat (?ss - 1) = ss - 1" using ss assms(4) by (subst unat_pred) auto
  then have "unat (len + (?ss - 1)) = unat len + ss - 1" using ss(1) assms(7) by (subst unat_add_exact) auto
  then have n: "unat ?n = n" by (simp add: unat_div assms(4,5) add_diff_eq)
  have "n * ss \<le> unat len + ss - 1" by (simp add: assms(5))
  moreover have "unat len + ss - 1 < n * ss + ss"
    using ss(1) assms(5) by (metis div_mult_mod_eq mod_less_divisor nat_add_left_cancel_less)
  moreover have "(n - 1) * ss = n * ss - ss" by (simp add: diff_mult_distrib)
  moreover have "ss \<le> n * ss" if "0 < n" using that by simp
  ultimately have "n * ss < 2 ^ 32" "unat len \<le> n * ss" "n \<noteq> 0 \<longrightarrow> (n - 1) * ss < unat len"
    using assms(7) ss(1) by linarith+
  then have pre: "unat (0 :: u32) \<le> unat len" "unat addr + unat ?n \<le> unat (total_sectors (current_disk st))"
      "unat (0 :: u32) + unat ?n * ss < 2 ^ 32" "unat len \<le> unat (0 :: u32) + unat ?n * ss"
      "?n \<noteq> 0 \<longrightarrow> unat (0 :: u32) + (unat ?n - 1) * ss < unat len"
    using assms(6) by (simp_all only: n) (simp_all add: n [symmetric] unat_eq_zero)
  have "disk_read dev hp st addr buf len scr io h = read_chunks dev hp st addr 0 ?n len buf scr io h"
    using ss by (simp add: disk_read_def Let_def)
  then show ?thesis using read_chunks_fill [OF assms(1-3) pre(1,2) assms(4) pre(3-5), of scr io h] by (simp only: n) simp
qed

end

text \<open>With a drive that only answers, the bytes delivered are the half-words in the history.\<close>

interpretation answering: sector_reads "\<lambda>_ :: unit. disk_ready"
  "\<lambda>_ dev st a io T io'. \<exists>ws. T = concat (map half_bytes ws) \<and> in16s io' = in16s io @ ws"
proof (unfold_locales, goal_cases)
  case (2 p dev st sectors k addr size_n scr io)
  then show ?case using read_call [of dev st sectors k addr size_n scr io] by (fastforce simp: length_half_bytes)
next
  case (4 p dev st a io T io1 k W io2)
  then obtain ws vs where "T = concat (map half_bytes ws)" "in16s io1 = in16s io @ ws"
    "W = concat (map half_bytes vs)" "in16s io2 = in16s io1 @ vs" by blast
  then show ?case by (intro exI [of _ "ws @ vs"]) simp
qed auto

section \<open>A drive for the witnesses\<close>

text \<open>One valid drive of ten 512-byte sectors, always ready, that delivers the same half-word, and a heap.\<close>

definition steady_drive :: device where
  "steady_drive io port = (if port = 0x1F7 then 0x08 else 0xABCD)"

definition one_disk :: ata where
  "one_disk = \<lparr>disks = replicate 4 (disk_static\<lparr>capabilities := (0x200, 0), total_sectors := 10, logical_sector_size := 512,
     base_io_port := 0x1F0, valid := True\<rparr>), curr_disk = 0\<rparr>"

definition steady_heap :: "unit heap_ops" where
  "steady_heap = \<lparr>hp_kmalloc = (\<lambda>n h. Inr (0x1000, h)), hp_kfree = (\<lambda>p h. Inr h)\<rparr>"

lemma steady_drive_ready: "ready steady_drive 0x1F0"
  by (simp add: ready_def steady_drive_def ata_consts)

lemma one_disk_ready: "disk_ready steady_drive one_disk"
  using steady_drive_ready
  by (simp add: disk_ready_def one_disk_def current_disk_def is_lba_supported_def one_shl_def)

definition blank :: screen where
  "blank = \<lparr>video_memory = [], pos_on_screen = 0, color = 7\<rparr>"

definition kilobyte :: buffer where
  "kilobyte = replicate 1024 0"

lemma length_kilobyte: "length kilobyte = 1024"
  by (simp only: kilobyte_def length_replicate)

lemma steady_heap_works: "heap_never_fails steady_heap"
  by (simp add: heap_never_fails_def steady_heap_def)

section \<open>Properties\<close>



text \<open>
  \<open>disk_read\<close> delivers every byte asked for, across as many calls of at most 256 sectors as it takes, from a
  disk that answers and a heap that does not fail, when the sectors lie on the disk and the rounded length
  fits 32 bits: it returns \<open>len\<close>, the first \<open>len\<close> bytes of the buffer are the bytes the drive delivered, in
  order, and the rest of the buffer is unchanged.
\<close>

theorem disk_read_complete:
  assumes "disk_ready dev st" and "heap_never_fails hp" and "unat len \<le> length buf"
    and "ss = unat (logical_sector_size (current_disk st))" and "n = (unat len + ss - 1) div ss"
    and "unat addr + n \<le> unat (total_sectors (current_disk st))" and "unat len + ss \<le> 2 ^ 32"
  shows "\<exists>ws io' h'. disk_read dev hp st addr buf len scr io h
        = Inr (len, take (unat len) (concat (map half_bytes ws)) @ drop (unat len) buf, scr, io', h')
     \<and> 2 * length ws = n * ss \<and> in16s io' = in16s io @ ws"
proof -
  obtain T io' h' where T: "disk_read dev hp st addr buf len scr io h = Inr (len, take (unat len) T @ drop (unat len) buf, scr, io', h')"
      "length T = n * ss" "\<exists>ws. T = concat (map half_bytes ws) \<and> in16s io' = in16s io @ ws"
    using answering.disk_read_delivers [OF assms, of scr io h] by blast
  then obtain ws where "T = concat (map half_bytes ws)" "in16s io' = in16s io @ ws" by blast
  with T show ?thesis by (intro exI [of _ ws] exI [of _ io'] exI [of _ h']) (simp add: length_half_bytes)
qed

theorem disk_read_complete_witness:
  "\<exists>ws io' h'. disk_read steady_drive steady_heap one_disk 3 kilobyte 700 blank [] ()
        = Inr (700, take 700 (concat (map half_bytes ws)) @ drop 700 kilobyte, blank, io', h')
     \<and> length ws = 512 \<and> in16s io' = ws"
proof -
  have d: "logical_sector_size (current_disk one_disk) = 512" "total_sectors (current_disk one_disk) = 10"
    by (simp_all add: one_disk_def current_disk_def)
  have pre: "unat (700 :: u32) \<le> length kilobyte" "512 = unat (logical_sector_size (current_disk one_disk))"
      "(2 :: nat) = (unat (700 :: u32) + 512 - 1) div 512" "unat (3 :: u32) + 2 \<le> unat (total_sectors (current_disk one_disk))"
      "unat (700 :: u32) + 512 \<le> 2 ^ 32"
    by (simp_all add: d length_kilobyte)
  have "unat (700 :: u32) = 700" by simp
  with disk_read_complete [OF one_disk_ready steady_heap_works pre, of blank "[]" "()"] show ?thesis by auto
qed




end
