(* ===== verification/Vmm_Init.thy ===== *)
theory Vmm_Init
  imports Vmm_Properties
begin

text \<open>
  What \<open>vmm_init\<close> leaves behind: the kernel's pages are identity-mapped and exactly the frames the physical
  memory manager reserved are mapped, but through one page table that every directory entry shares.
\<close>

section \<open>Pages by number\<close>

lemma unat_table_index: "unat (get_table_index v) = frame_no v mod 1024"
proof -
  have "get_table_index v = take_bit 10 (drop_bit 12 v)"
    by (rule bit_word_eqI) (auto simp: table_index_bits bit_simps)
  then show ?thesis
    by (simp add: frame_no_def take_bit_eq_mod drop_bit_eq_div unat_div unat_mod)
qed

lemma unat_directory_index: "unat (get_directory_index v) = frame_no v div 1024"
  by (simp add: get_directory_index_def frame_no_def drop_bit_eq_div unat_div div_mult2_eq [symmetric])

lemma frame_addr_iff_frame_no: "get_frame_addr v = get_frame_addr v' \<longleftrightarrow> frame_no v = frame_no v'"
proof -
  have "frame_no v = frame_no v' \<longleftrightarrow> frame_no v div 1024 = frame_no v' div 1024 \<and> frame_no v mod 1024 = frame_no v' mod 1024"
    by (metis div_mult_mod_eq)
  then show ?thesis
    by (simp add: same_page_iff word_unat_eq_iff [of "get_table_index v"] word_unat_eq_iff [of "get_directory_index v"]
        unat_table_index unat_directory_index)
qed

lemma frame_plus_own_offset: "get_frame_addr v + get_frame_offset v = v"
proof -
  have "get_frame_addr v AND get_frame_offset v = 0"
    by (rule bit_word_eqI) (auto simp: bit_simps bit_get_frame_addr bit_frame_offset)
  then have "get_frame_addr v + get_frame_offset v = get_frame_addr v OR get_frame_offset v" by (rule word_add_disjoint)
  also have "\<dots> = v" by (rule bit_word_eqI) (auto simp: bit_simps bit_get_frame_addr bit_frame_offset)
  finally show ?thesis .
qed

section \<open>The directory\<close>

text \<open>With paging off, memory is accessed directly.\<close>

lemma paging_off [simp]:
  assumes "\<not> paging_enabled s"
  shows "load v s = Inr (mem s v)" "store v x s = Inr (s\<lparr>mem := (mem s)(v := x)\<rparr>)"
    "update f v s = Inr (s\<lparr>mem := (mem s)(v := f (mem s v))\<rparr>)"
  using assms by (simp_all add: load_def store_def update_def translate_def)

definition entries :: "u32 \<Rightarrow> nat \<Rightarrow> nat \<Rightarrow> u32 set" where
  "entries dir i n = (\<lambda>k. entry_addr dir (of_nat k)) ` {i ..< i + n}"

lemma entry_in_entries:
  assumes "aligned dir" and "i + n \<le> 1024" and "k < 1024"
  shows "entry_addr dir (of_nat k) \<in> entries dir i n \<longleftrightarrow> i \<le> k \<and> k < i + n"
proof -
  have *: "(of_nat j :: u32) < 1024 \<and> unat (of_nat j :: u32) = j" if "j < 1024" for j
    using that by (simp add: word_less_nat_alt unat_of_nat_exact)
  have "entry_addr dir (of_nat k) = entry_addr dir (of_nat j) \<longleftrightarrow> k = j" if "j < 1024" for j
    using entry_addr_inject [OF assms(1,1), of "of_nat k" "of_nat j"] * [OF assms(3)] * [OF that] by metis
  with assms(2) show ?thesis unfolding entries_def by (auto simp: image_iff)
qed

lemma init_directory_eq:
  assumes "\<not> paging_enabled s" and "aligned dir" and "i + n \<le> 1024"
  shows "init_directory dir (of_nat i) n s =
     Inr (s\<lparr>mem := (\<lambda>p. if p \<in> entries dir i n then mem s p OR KERNEL_PAGE_FLAGS else mem s p)\<rparr>)"
  using assms(1,3)
proof (induction n arbitrary: i s)
  case 0
  then show ?case by (simp add: entries_def)
next
  case (Suc n)
  let ?s = "s\<lparr>mem := (mem s)(entry_addr dir (of_nat i) := mem s (entry_addr dir (of_nat i)) OR KERNEL_PAGE_FLAGS)\<rparr>"
  have "entries dir i (Suc n) = insert (entry_addr dir (of_nat i)) (entries dir (Suc i) n)"
    by (auto simp: entries_def image_iff le_Suc_eq) (metis Suc_leI Suc_le_eq atLeastLessThan_iff le_eq_less_or_eq)
  moreover have "entry_addr dir (of_nat i) \<notin> entries dir (Suc i) n"
    using entry_in_entries [OF assms(2), of "Suc i" n i] Suc.prems by simp
  moreover have "init_directory dir (of_nat (Suc i)) n ?s = Inr (?s\<lparr>mem := (\<lambda>p. if p \<in> entries dir (Suc i) n
      then mem ?s p OR KERNEL_PAGE_FLAGS else mem ?s p)\<rparr>)" using Suc by (intro Suc.IH) simp_all
  ultimately show ?case
    using Suc.prems(1)
    by (auto simp: page_entry_add_attrib_def entry_add_attrib_def add.commute fun_eq_iff)
qed

section \<open>Identity mapping through the shared table\<close>

text \<open>
  While \<open>vmm_init\<close> runs, every directory entry but possibly the last is present with frame 0, so the page
  table of every address is the one at physical address 0.
\<close>

definition shared_table :: "'h vmm \<Rightarrow> bool" where
  "shared_table s \<longleftrightarrow> \<not> paging_enabled s \<and> current_directory s \<noteq> 0 \<and> aligned (current_directory s)
     \<and> (\<forall>i < 1023. mem s (entry_addr (current_directory s) i) = KERNEL_PAGE_FLAGS)"

lemma kernel_page_flags: "get_frame_addr KERNEL_PAGE_FLAGS = 0" "is_page_present KERNEL_PAGE_FLAGS"
  "KERNEL_PAGE_FLAGS OR PRESENT = KERNEL_PAGE_FLAGS" "get_frame_addr (KERNEL_PAGE_FLAGS) = 0"
  by (simp_all add: page_flags get_frame_addr_def is_page_present_def)

lemma index_below_1023: "get_directory_index v \<noteq> 1023 \<Longrightarrow> get_directory_index v < 1023"
  using index_range(1) [of v] by (simp add: word_less_nat_alt word_unat_eq_iff)

definition map_entry :: "u32 \<Rightarrow> u32 \<Rightarrow> u32 \<Rightarrow> u32" where
  "map_entry flags a x = entry_add_attrib (flags OR PRESENT) (entry_set_frame a x)"

lemma map_entry_frame:
  assumes "flags AND 0xFFFFF000 = 0"
  shows "get_frame_addr (map_entry flags a x) = get_frame_addr a" "is_page_present (map_entry flags a x)"
    "a AND 0xFFF = 0xFFF \<Longrightarrow> map_entry flags a x AND 0xFFF = 0xFFF"
proof -
  have "get_frame_addr (flags OR PRESENT) = 0"
    using assms by (simp add: get_frame_addr_def PRESENT_def bit.conj_disj_distrib2)
  then show "get_frame_addr (map_entry flags a x) = get_frame_addr a"
    by (simp add: map_entry_def frame_add_attrib frame_set_frame)
  show "is_page_present (map_entry flags a x)"
    by (simp add: map_entry_def present_iff bit_entry_ops bit_or_iff PRESENT_def)
  show "map_entry flags a x AND 0xFFF = 0xFFF" if "a AND 0xFFF = 0xFFF"
  proof -
    have b: "bit (0xFFF :: u32) n \<longleftrightarrow> n < 12" for n using bit_frame_offset [of "-1" n]
      by (auto simp: get_frame_offset_def bit_minus_1_iff)
    have "bit a n" if "n < 12" for n
      using bit_frame_offset [of a n] b [of n] that \<open>a AND 0xFFF = 0xFFF\<close> by (simp add: get_frame_offset_def)
    then show ?thesis
      by (intro bit_word_eqI) (simp only: map_entry_def bit_and_iff b, auto simp: bit_entry_ops)
  qed
qed

lemma map_page_shared:
  assumes "shared_table s" and "get_directory_index a \<noteq> 1023"
  shows "vmm_map_page_to_curr_dir sv a a flags s =
     Inr (s\<lparr>mem := (mem s)(entry_addr 0 (get_table_index a) := map_entry flags a (mem s (entry_addr 0 (get_table_index a))))\<rparr>)"
  using assms index_below_1023 [OF assms(2)]
  by (simp add: vmm_map_page_to_curr_dir_def vmm_map_page_def vmm_page_table_for_def shared_table_def Let_def
      get_page_table_addr_def kernel_page_flags page_entry_set_frame_def page_entry_add_attrib_def map_entry_def)

lemma table_not_in_directory:
  assumes "shared_table s" and "i < 1024" and "j < 1024"
  shows "entry_addr (current_directory s) i \<noteq> entry_addr 0 j"
  using assms entry_addr_inject [of "current_directory s" 0 i j] by (simp add: shared_table_def aligned_def)

text \<open>
  Mapping a list of pages changes only words of the table at 0; an index some page of the list has holds
  that page's entry, provided pages of the list with the same index are the same page.
\<close>

definition mapped :: "u32 list \<Rightarrow> (u32 \<Rightarrow> u32) \<Rightarrow> (u32 \<Rightarrow> u32) \<Rightarrow> bool" where
  "mapped as m m' \<longleftrightarrow> (\<forall>p. (\<forall>j < 1024. p \<noteq> entry_addr 0 j) \<longrightarrow> m' p = m p)
     \<and> (\<forall>j < 1024. (\<forall>a \<in> set as. get_table_index a \<noteq> j) \<longrightarrow> m' (entry_addr 0 j) = m (entry_addr 0 j))
     \<and> (\<forall>a \<in> set as. \<exists>b \<in> set as. \<exists>flags x. get_table_index b = get_table_index a \<and> flags AND 0xFFFFF000 = 0
          \<and> m' (entry_addr 0 (get_table_index a)) = map_entry flags b x)"

lemma shared_table_step:
  assumes "shared_table s"
  shows "shared_table (s\<lparr>mem := (mem s)(entry_addr 0 (get_table_index a) := x)\<rparr>)"
proof -
  have "i < 1024" if "i < 1023" for i :: u32 using that by (simp add: word_less_nat_alt)
  then show ?thesis
    using assms table_not_in_directory [OF assms _ index_range(2)] by (simp add: shared_table_def)
qed

lemma table_entry_inject: "i < 1024 \<Longrightarrow> j < 1024 \<Longrightarrow> entry_addr 0 i = entry_addr 0 j \<longleftrightarrow> i = j"
  using entry_addr_inject [of 0 0 i j] by (simp add: aligned_def)

lemma mapped_single:
  "flags AND 0xFFFFF000 = 0 \<Longrightarrow> mapped [a] m (m(entry_addr 0 (get_table_index a) := map_entry flags a x))"
  by (auto simp: mapped_def table_entry_inject)

lemma mapped_append:
  assumes "mapped as m m1" and "mapped bs m1 m2"
  shows "mapped (as @ bs) m m2"
  unfolding mapped_def
proof (intro conjI)
  show "\<forall>a \<in> set (as @ bs). \<exists>b \<in> set (as @ bs). \<exists>flags x. get_table_index b = get_table_index a
      \<and> flags AND 0xFFFFF000 = 0 \<and> m2 (entry_addr 0 (get_table_index a)) = map_entry flags b x"
  proof
    fix a assume a: "a \<in> set (as @ bs)"
    show "\<exists>b \<in> set (as @ bs). \<exists>flags x. get_table_index b = get_table_index a
      \<and> flags AND 0xFFFFF000 = 0 \<and> m2 (entry_addr 0 (get_table_index a)) = map_entry flags b x"
    proof (cases "\<exists>b \<in> set bs. get_table_index b = get_table_index a")
      case True
      then obtain b where "b \<in> set bs" "get_table_index b = get_table_index a" by blast
      with assms(2) show ?thesis unfolding mapped_def by (metis UnCI set_append)
    next
      case False
      with assms(2) have "m2 (entry_addr 0 (get_table_index a)) = m1 (entry_addr 0 (get_table_index a))"
        by (simp add: mapped_def)
      moreover from a False have "a \<in> set as" by auto
      ultimately show ?thesis using assms(1) unfolding mapped_def by (metis UnCI set_append)
    qed
  qed
qed (use assms in \<open>auto simp: mapped_def\<close>)

lemma mapped_outside:
  assumes "mapped as m m'" and "\<And>j. j < 1024 \<Longrightarrow> q \<noteq> entry_addr 0 j"
  shows "mapped as (m(q := x)) (m'(q := x))"
  using assms(1) assms(2) [symmetric] unfolding mapped_def by (simp add: fun_upd_def)

lemma identity_map_mapped:
  assumes "shared_table s" and "\<forall>a \<in> set as. get_directory_index a \<noteq> 1023" and "flags AND 0xFFFFF000 = 0"
  shows "\<exists>m. identity_map sv flags as s = Inr (s\<lparr>mem := m\<rparr>) \<and> mapped as (mem s) m \<and> shared_table (s\<lparr>mem := m\<rparr>)"
  using assms(1,2)
proof (induction as arbitrary: s)
  case Nil
  then show ?case by (auto simp: mapped_def intro!: exI [of _ "mem s"])
next
  case (Cons a as)
  let ?m = "(mem s)(entry_addr 0 (get_table_index a) := map_entry flags a (mem s (entry_addr 0 (get_table_index a))))"
  obtain m where m: "identity_map sv flags as (s\<lparr>mem := ?m\<rparr>) = Inr (s\<lparr>mem := m\<rparr>)" "mapped as ?m m"
      "shared_table (s\<lparr>mem := m\<rparr>)"
    using Cons.IH [OF shared_table_step [OF Cons.prems(1)], of a] Cons.prems(2) by fastforce
  have "mapped (a # as) (mem s) m" using mapped_append [OF mapped_single [OF assms(3)] m(2)] by simp
  with m show ?case using map_page_shared [OF Cons.prems(1)] Cons.prems(2) by auto
qed

section \<open>The whole of vmm_init\<close>

definition vmm_init_pages :: "layout \<Rightarrow> u32 list" where
  "vmm_init_pages l = kernel_image l @ kernel_stack l @ kernel_heap (ALIGN_TO_PAGE (kernel_stack_top l)) @ [VGA_ADDRESS]"

text \<open>The pages are those of the frames \<open>pmm_init\<close> reserves.\<close>

lemma vmm_init_pages_reserved: "frame_no ` set (vmm_init_pages l) = reserved_frames l"
  by (simp add: vmm_init_pages_def reserved_frames_def kernel_image_def kernel_stack_def kernel_heap_def
      kernel_frames_def ALIGN_TO_PAGE_def ALIGNED_TO_PHYSICAL_PAGE_def PAGE_SIZE_def PMM_BLOCK_SIZE_def image_Un
      image_image lessThan_atLeast0 Un_assoc)

lemma init_directory_shared:
  assumes "\<not> paging_enabled s" and "aligned kdir" and "kdir \<noteq> 0" and "\<forall>i < 1024. mem s (entry_addr kdir i) = 0"
  shows "\<exists>m. init_directory kdir 0 TABLES_PER_DIR (s\<lparr>current_directory := kdir\<rparr>) = Inr (s\<lparr>current_directory := kdir, mem := m\<rparr>)
     \<and> shared_table (s\<lparr>current_directory := kdir, mem := m\<rparr>)"
proof (intro exI conjI)
  let ?m = "\<lambda>p. if p \<in> entries kdir 0 1024 then mem s p OR KERNEL_PAGE_FLAGS else mem s p"
  show "init_directory kdir 0 TABLES_PER_DIR (s\<lparr>current_directory := kdir\<rparr>) = Inr (s\<lparr>current_directory := kdir, mem := ?m\<rparr>)"
    using init_directory_eq [of "s\<lparr>current_directory := kdir\<rparr>" kdir 0 1024] assms(1,2)
    by (simp add: TABLES_PER_DIR_def cong: if_cong)
  have "entry_addr kdir i \<in> entries kdir 0 1024" if "i < 1023" for i
    using entry_in_entries [OF assms(2), of 0 1024 "unat i"] that by (simp add: word_less_nat_alt)
  moreover have "i < 1024" if "i < 1023" for i :: u32 using that by (simp add: word_less_nat_alt)
  ultimately show "shared_table (s\<lparr>current_directory := kdir, mem := ?m\<rparr>)"
    using assms by (simp add: shared_table_def)
qed

lemma shared_table_last:
  assumes "shared_table s"
  shows "shared_table (s\<lparr>mem := (mem s)(entry_addr (current_directory s) 1023 := x)\<rparr>)"
proof -
  have "entry_addr (current_directory s) i \<noteq> entry_addr (current_directory s) 1023" if "i < 1023" for i
    using assms that entry_addr_inject [of "current_directory s" "current_directory s" i 1023]
    by (auto simp: shared_table_def word_less_nat_alt)
  with assms show ?thesis by (simp add: shared_table_def)
qed

lemma vmm_init_mem:
  assumes "\<not> paging_enabled s" and "aligned kdir" and "kdir \<noteq> 0"
    and "\<forall>i < 1024. mem s (entry_addr kdir i) = 0"
    and "\<forall>a \<in> set (vmm_init_pages l). get_directory_index a \<noteq> 1023"
  obtains m m0 where "vmm_init sv l kdir s = Inr (s\<lparr>mem := m, cr3 := kdir, paging_enabled := True,
        current_directory := kdir, heap_base := ALIGN_TO_PAGE (kernel_stack_top l)\<rparr>)"
    and "mapped (vmm_init_pages l) m0 m" and "\<forall>i < 1023. m (entry_addr kdir i) = KERNEL_PAGE_FLAGS"
    and "m (entry_addr kdir 1023) = kdir OR KERNEL_PAGE_FLAGS"
proof -
  define h where "h = ALIGN_TO_PAGE (kernel_stack_top l)"
  define q where "q = entry_addr kdir 1023"
  have ix: "\<forall>a \<in> set (kernel_image l). get_directory_index a \<noteq> 1023" "\<forall>a \<in> set (kernel_stack l). get_directory_index a \<noteq> 1023"
    "\<forall>a \<in> set (kernel_heap h). get_directory_index a \<noteq> 1023" "\<forall>a \<in> set [VGA_ADDRESS]. get_directory_index a \<noteq> 1023"
    using assms(5) by (auto simp: vmm_init_pages_def h_def)
  have fl: "KERNEL_PAGE_FLAGS AND 0xFFFFF000 = 0" "(PRESENT OR PAGE_WRITEABLE) AND 0xFFFFF000 = 0" by (simp_all add: page_flags)
  let ?s = "\<lambda>m. s\<lparr>current_directory := kdir, mem := m\<rparr>" and ?t = "\<lambda>m. s\<lparr>current_directory := kdir, heap_base := h, mem := m\<rparr>"
  obtain m1 where m1: "init_directory kdir 0 TABLES_PER_DIR (s\<lparr>current_directory := kdir\<rparr>) = Inr (?s m1)" "shared_table (?s m1)"
    using init_directory_shared [OF assms(1-4)] by blast
  obtain m2 where m2: "identity_map sv KERNEL_PAGE_FLAGS (kernel_image l) (?s m1) = Inr (?s m2)"
      "mapped (kernel_image l) m1 m2" "shared_table (?s m2)"
    using identity_map_mapped [OF m1(2) ix(1) fl(1), of sv] by auto
  define m3 where "m3 = m2(q := kdir OR KERNEL_PAGE_FLAGS)"
  have q: "q \<noteq> entry_addr 0 j" if "j < 1024" for j using table_not_in_directory [OF m2(3), of 1023 j] that by (simp add: q_def)
  have s3: "shared_table (?s m3)" using shared_table_last [OF m2(3)] by (simp add: m3_def q_def)
  obtain m4 where m4: "identity_map sv KERNEL_PAGE_FLAGS (kernel_stack l) (?s m3) = Inr (?s m4)"
      "mapped (kernel_stack l) m3 m4" "shared_table (?s m4)"
    using identity_map_mapped [OF s3 ix(2) fl(1), of sv] by auto
  have "shared_table (?t m4)" using m4(3) by (simp add: shared_table_def)
  then obtain m5 where m5: "identity_map sv KERNEL_PAGE_FLAGS (kernel_heap h) (?t m4) = Inr (?t m5)"
      "mapped (kernel_heap h) m4 m5" "shared_table (?t m5)"
    using identity_map_mapped [OF _ ix(3) fl(1), of "?t m4" sv] by auto
  obtain m6 where m6: "identity_map sv (PRESENT OR PAGE_WRITEABLE) [VGA_ADDRESS] (?t m5) = Inr (?t m6)"
      "mapped [VGA_ADDRESS] m5 m6" "shared_table (?t m6)"
    using identity_map_mapped [OF m5(3) ix(4) fl(2), of sv] by auto
  have image: "mapped (kernel_image l) (m1(q := kdir OR KERNEL_PAGE_FLAGS)) m3"
    unfolding m3_def using mapped_outside [OF m2(2)] q by blast
  have all: "mapped (vmm_init_pages l) (m1(q := kdir OR KERNEL_PAGE_FLAGS)) m6"
    using mapped_append [OF image mapped_append [OF m4(2) mapped_append [OF m5(2) m6(2)]]]
    by (simp add: vmm_init_pages_def h_def)
  have eq: "s\<lparr>current_directory := kdir, mem := m4, heap_base := h\<rparr> = ?t m4" by (cases s) simp
  show thesis
  proof (rule that [OF _ all])
    show "vmm_init sv l kdir s = Inr (s\<lparr>mem := m6, cr3 := kdir, paging_enabled := True, current_directory := kdir,
        heap_base := ALIGN_TO_PAGE (kernel_stack_top l)\<rparr>)"
      using m1 m2 m4 m5 m6 assms(1)
      by (simp add: vmm_init_def enable_paging_def RECURSIVE_PAGE_TABLE_INDEX_def Let_def h_def [symmetric]
          q_def [symmetric] m3_def [symmetric] eq)
    show "\<forall>i < 1023. m6 (entry_addr kdir i) = KERNEL_PAGE_FLAGS" using m6(3) by (simp add: shared_table_def)
    show "m6 (entry_addr kdir 1023) = kdir OR KERNEL_PAGE_FLAGS" using all q by (simp add: mapped_def q_def)
  qed
qed


text \<open>Every translation after \<open>vmm_init\<close>, but for the recursive window, goes through the table at 0.\<close>

lemma vmm_init_translate:
  assumes "\<forall>i < 1023. m (entry_addr kdir i) = KERNEL_PAGE_FLAGS" and "aligned kdir" and "get_directory_index v \<noteq> 1023"
  shows "translate (s\<lparr>mem := m, cr3 := kdir, paging_enabled := True, current_directory := d, heap_base := h\<rparr>) v =
     (let pte = m (entry_addr 0 (get_table_index v)) in
      if is_page_present pte then Some (get_frame_addr pte + get_frame_offset v) else None)"
proof -
  let ?s = "s\<lparr>mem := m, cr3 := kdir, paging_enabled := True, current_directory := d, heap_base := h\<rparr>"
  have "pde ?s (get_directory_index v) = KERNEL_PAGE_FLAGS"
    using assms index_below_1023 [OF assms(3)] by (simp add: pde_def)
  then show ?thesis using assms(2) by (simp add: translate_eq kernel_page_flags Let_def)
qed

text \<open>Where pages with one table index are one page, each is mapped to itself.\<close>

lemma mapped_page:
  assumes "mapped as m0 m" and "v' \<in> set as" and "get_frame_addr v = get_frame_addr v'"
    and "\<forall>a \<in> set as. \<forall>b \<in> set as. get_table_index a = get_table_index b \<longrightarrow> get_frame_addr a = get_frame_addr b"
  shows "get_frame_addr (m (entry_addr 0 (get_table_index v))) = get_frame_addr v"
    and "is_page_present (m (entry_addr 0 (get_table_index v)))"
proof -
  have "get_table_index v = get_table_index v'" using assms(3) by (simp add: same_page_iff)
  with assms(1,2) obtain b flags x where "b \<in> set as" "get_table_index b = get_table_index v'" "flags AND 0xFFFFF000 = 0"
    "m (entry_addr 0 (get_table_index v)) = map_entry flags b x" unfolding mapped_def by metis
  moreover from this assms(2-4) have "get_frame_addr b = get_frame_addr v" by metis
  ultimately show "get_frame_addr (m (entry_addr 0 (get_table_index v))) = get_frame_addr v"
    and "is_page_present (m (entry_addr 0 (get_table_index v)))" by (simp_all add: map_entry_frame)
qed

section \<open>The layout of the build\<close>

lemma mod_1024_cases:
  fixes x :: nat
  assumes "x \<in> {256 ..< 256 + n} \<union> {16284 ..< 16384} \<union> {16384 ..< 16492} \<union> {184}" and "n \<le> 668"
  shows "x < 16492" and "x mod 1024 = x \<and> (x = 184 \<or> 256 \<le> x \<and> x < 924)
     \<or> x mod 1024 = x - 15360 \<and> 16284 \<le> x \<and> x < 16384 \<or> x mod 1024 = x - 16384 \<and> 16384 \<le> x \<and> x < 16492"
proof -
  have 1: "x mod 1024 = x - 15360" if "16284 \<le> x" "x < 16384"
    using that mod_mult_self2 [of "x - 15360" 1024 15] by simp
  have 2: "x mod 1024 = x - 16384" if "16384 \<le> x" "x < 16492"
    using that mod_mult_self2 [of "x - 16384" 1024 16] by simp
  show "x < 16492" using assms by auto
  show "x mod 1024 = x \<and> (x = 184 \<or> 256 \<le> x \<and> x < 924)
     \<or> x mod 1024 = x - 15360 \<and> 16284 \<le> x \<and> x < 16384 \<or> x mod 1024 = x - 16384 \<and> 16384 \<le> x \<and> x < 16492"
    using assms 1 2 by auto
qed

lemma layout_frames:
  assumes "0x100000 \<le> ke" and "ke \<le> 0x39C000" and "a \<in> set (vmm_init_pages (kernel_layout ke))"
  obtains n where "frame_no a \<in> {256 ..< 256 + n} \<union> {16284 ..< 16384} \<union> {16384 ..< 16492} \<union> {184}" and "n \<le> 668"
proof
  have ke: "unat ke \<le> 0x39C000" "0x100000 \<le> unat ke" "ke \<le> 0x3F00000"
    using assms(1,2) by (simp_all add: word_le_nat_alt)
  show "frame_no a \<in> {256 ..< 256 + (unat ke - 0x100000 + 4095) div 4096} \<union> {16284 ..< 16384} \<union> {16384 ..< 16492} \<union> {184}"
    using assms(3) vmm_init_pages_reserved [of "kernel_layout ke"] reserved_frames_layout [OF assms(1) ke(3)] by blast
  have "(unat ke - 0x100000 + 4095) div 4096 \<le> (668 * 4096 + 4095) div 4096" using ke by (intro div_le_mono) simp
  then show "(unat ke - 0x100000 + 4095) div 4096 \<le> 668" by simp
qed

lemma layout_pages:
  assumes "0x100000 \<le> ke" and "ke \<le> 0x39C000"
  shows "\<forall>a \<in> set (vmm_init_pages (kernel_layout ke)). get_directory_index a \<noteq> 1023"
    and "\<forall>a \<in> set (vmm_init_pages (kernel_layout ke)). \<forall>b \<in> set (vmm_init_pages (kernel_layout ke)).
      get_table_index a = get_table_index b \<longrightarrow> get_frame_addr a = get_frame_addr b"
proof -
  show "\<forall>a \<in> set (vmm_init_pages (kernel_layout ke)). get_directory_index a \<noteq> 1023"
  proof
    fix a assume "a \<in> set (vmm_init_pages (kernel_layout ke))"
    then have "frame_no a < 1023 * 1024" by (rule layout_frames [OF assms]) (drule (1) mod_1024_cases(1), simp)
    then have "frame_no a div 1024 < 1023" by (rule less_mult_imp_div_less)
    then show "get_directory_index a \<noteq> 1023" using unat_directory_index [of a] by auto
  qed
  show "\<forall>a \<in> set (vmm_init_pages (kernel_layout ke)). \<forall>b \<in> set (vmm_init_pages (kernel_layout ke)).
      get_table_index a = get_table_index b \<longrightarrow> get_frame_addr a = get_frame_addr b"
  proof (intro ballI impI)
    fix a b assume ab: "a \<in> set (vmm_init_pages (kernel_layout ke))" "b \<in> set (vmm_init_pages (kernel_layout ke))"
      "get_table_index a = get_table_index b"
    obtain n where n: "frame_no a \<in> {256 ..< 256 + n} \<union> {16284 ..< 16384} \<union> {16384 ..< 16492} \<union> {184}" "n \<le> 668"
      by (rule layout_frames [OF assms ab(1)])
    obtain k where k: "frame_no b \<in> {256 ..< 256 + k} \<union> {16284 ..< 16384} \<union> {16384 ..< 16492} \<union> {184}" "k \<le> 668"
      by (rule layout_frames [OF assms ab(2)])
    have "frame_no a mod 1024 = frame_no b mod 1024" using ab(3) by (metis unat_table_index)
    then show "get_frame_addr a = get_frame_addr b"
      using mod_1024_cases(2) [OF n] mod_1024_cases(2) [OF k] unfolding frame_addr_iff_frame_no by linarith
  qed
qed

section \<open>Properties\<close>

text \<open>
  With the layout of linker.ld and start.asm and an image of at most 668 pages, \<open>vmm_init\<close> succeeds, turns
  paging on with the kernel directory, takes no frame, and maps every page of the image, the stack, the
  heap and the VGA buffer to itself; the frames of these pages are exactly the ones \<open>pmm_init\<close> reserves.
\<close>

lemma vmm_init_identity:
  assumes "0x100000 \<le> ke" and "ke \<le> 0x39C000" and "\<not> paging_enabled s" and "aligned kdir" and "kdir \<noteq> 0"
    and "\<forall>i < 1024. mem s (entry_addr kdir i) = 0"
  shows "\<exists>s'. vmm_init sv (kernel_layout ke) kdir s = Inr s' \<and> paging_enabled s' \<and> cr3 s' = kdir
     \<and> current_directory s' = kdir \<and> heap_base s' = 0x4000000 \<and> pmm s' = pmm s
     \<and> (\<forall>v. frame_no v \<in> used_frames (snd (pmm_init (kernel_layout ke) (pmm s))) \<longrightarrow> translate s' v = Some v)"
proof -
  note pages = layout_pages [OF assms(1,2)]
  obtain m m0 where m: "vmm_init sv (kernel_layout ke) kdir s = Inr (s\<lparr>mem := m, cr3 := kdir, paging_enabled := True,
        current_directory := kdir, heap_base := ALIGN_TO_PAGE (kernel_stack_top (kernel_layout ke))\<rparr>)"
      "mapped (vmm_init_pages (kernel_layout ke)) m0 m" "\<forall>i < 1023. m (entry_addr kdir i) = KERNEL_PAGE_FLAGS"
    by (rule vmm_init_mem [OF assms(3-6) pages(1)])
  have "translate (s\<lparr>mem := m, cr3 := kdir, paging_enabled := True, current_directory := kdir,
      heap_base := ALIGN_TO_PAGE (kernel_stack_top (kernel_layout ke))\<rparr>) v = Some v"
    if "frame_no v \<in> reserved_frames (kernel_layout ke)" for v
  proof -
    obtain v' where v': "v' \<in> set (vmm_init_pages (kernel_layout ke))" "frame_no v = frame_no v'"
      using \<open>frame_no v \<in> _\<close> unfolding vmm_init_pages_reserved [symmetric] by blast
    then have fa: "get_frame_addr v = get_frame_addr v'" by (simp add: frame_addr_iff_frame_no)
    with v' pages(1) have "get_directory_index v \<noteq> 1023" by (metis same_page_iff)
    then show ?thesis
      using mapped_page [OF m(2) v'(1) fa pages(2)]
      by (simp add: vmm_init_translate [OF m(3) assms(4)] frame_plus_own_offset)
  qed
  with m(1) show ?thesis
    using heap_base_layout [of ke]
    by (auto simp: pmm_init_used ALIGN_TO_PAGE_def ALIGNED_TO_PHYSICAL_PAGE_def PAGE_SIZE_def PMM_BLOCK_SIZE_def)
qed


text \<open>
  C34. The directory entries are initialised as present with frame 0, although the comment calls for
  not-present entries: whatever the layout, no page table is ever allocated and all of them are the page
  at physical address 0, so below the recursive window translation ignores the directory index, and two
  addresses 4 MB apart are the same memory.
\<close>

theorem vmm_init_shares_one_table:
  assumes "\<not> paging_enabled s" and "aligned kdir" and "kdir \<noteq> 0" and "\<forall>i < 1024. mem s (entry_addr kdir i) = 0"
    and "\<forall>a \<in> set (vmm_init_pages l). get_directory_index a \<noteq> 1023"
  shows "\<exists>s'. vmm_init sv l kdir s = Inr s' \<and> used_frames (pmm s') = used_frames (pmm s)
     \<and> (\<forall>v. get_directory_index v \<noteq> 1023 \<longrightarrow> translate s' v = translate s' (v AND 0x3FFFFF))"
proof -
  obtain m m0 where m: "vmm_init sv l kdir s = Inr (s\<lparr>mem := m, cr3 := kdir, paging_enabled := True,
        current_directory := kdir, heap_base := ALIGN_TO_PAGE (kernel_stack_top l)\<rparr>)"
      "\<forall>i < 1023. m (entry_addr kdir i) = KERNEL_PAGE_FLAGS"
    by (rule vmm_init_mem [OF assms])
  have low: "(0x3FFFFF :: u32) = mask 22" by (simp add: mask_eq_exp_minus_1)
  have "get_table_index (v AND 0x3FFFFF) = get_table_index v" for v
    by (rule bit_word_eqI) (auto simp: table_index_bits low bit_simps)
  moreover have "get_frame_offset (v AND 0x3FFFFF) = get_frame_offset v" for v
    by (rule bit_word_eqI) (auto simp: bit_frame_offset low bit_simps)
  moreover have "get_directory_index (v AND 0x3FFFFF) = 0" for v
    by (rule bit_word_eqI) (auto simp: directory_index_bits low bit_simps)
  ultimately show ?thesis using m(1) by (auto simp: vmm_init_translate [OF m(2) assms(2)] Let_def)
qed

text \<open>A machine before \<open>vmm_init\<close>: memory is zero and paging is off.\<close>

definition boot_machine :: "unit vmm" where
  "boot_machine = small_space\<lparr>mem := (\<lambda>_. 0), paging_enabled := False, cr3 := 0, current_directory := 0\<rparr>"

lemma boot_machine_ok:
  "\<not> paging_enabled boot_machine" "aligned 0x108000" "(0x108000 :: u32) \<noteq> 0"
  "\<forall>i < 1024. mem boot_machine (entry_addr 0x108000 i) = 0"
  by (simp_all add: boot_machine_def aligned_def)

theorem vmm_init_shares_one_table_witness:
  "\<exists>s'. vmm_init idle_services (kernel_layout 0x110000) 0x108000 boot_machine = Inr s'
     \<and> translate s' 0x4B8004 = translate s' 0xB8004"
proof -
  have ke: "(0x100000 :: u32) \<le> 0x110000" "(0x110000 :: u32) \<le> 0x39C000" by simp_all
  obtain s' where s': "vmm_init idle_services (kernel_layout 0x110000) 0x108000 boot_machine = Inr s'"
    "\<forall>v. get_directory_index v \<noteq> 1023 \<longrightarrow> translate s' v = translate s' (v AND 0x3FFFFF)"
    using vmm_init_shares_one_table [OF boot_machine_ok layout_pages(1) [OF ke], of idle_services] by (elim exE conjE)
  have "get_directory_index 0x4B8004 \<noteq> 1023" by (simp add: get_directory_index_def)
  from s'(2) [rule_format, OF this] have "translate s' 0x4B8004 = translate s' 0xB8004" by simp
  with s'(1) show ?thesis by (intro exI conjI)
qed

end
