(* ===== verification/Kernel.thy ===== *)
theory Kernel
  imports Process Shell Descriptors Ata_Properties Vmm_Init
begin

text \<open>
  interupts/interupts_handler.c and kernel.c: the dispatch of interrupts to the drivers and the boot
  sequence, over the state of the whole machine.
\<close>

section \<open>Data\<close>

record 'h machine =
  m_keyboard :: keyboard
  m_screen :: screen
  m_io :: io
  m_sched :: sched
  m_vm :: "'h vmm"

definition PIT_ISR :: u32 where "PIT_ISR = 32"
definition KEYBOARD_ISR :: u32 where "KEYBOARD_ISR = 33"
definition CPU_EXCEPTIONS :: u32 where "CPU_EXCEPTIONS = 32"
definition PAGE_FAULT_ISR :: u32 where "PAGE_FAULT_ISR = 14"

lemmas vectors = PIT_ISR_def KEYBOARD_ISR_def CPU_EXCEPTIONS_def PAGE_FAULT_ISR_def

definition exception_messages :: "string list" where
  "exception_messages =
     [''Division By Zero'', ''Debug'', ''Non Maskable Interrupt'', ''Breakpoint'', ''Into Detected Overflow'',
      ''Out of Bounds'', ''Invalid Opcode'', ''No Coprocessor'', ''Double Fault'', ''Coprocessor Segment Overrun'',
      ''Bad TSS'', ''Segment Not Present'', ''Stack Fault'', ''General Protection Fault'', ''Page Fault'',
      ''Unknown Interrupt'', ''Coprocessor Fault'', ''Alignment Check'', ''Machine Check'', ''Reserved'', ''Reserved'',
      ''Reserved'', ''Reserved'', ''Reserved'', ''Reserved'', ''Reserved'', ''Reserved'', ''Reserved'', ''Reserved'',
      ''Reserved'', ''Reserved'', ''Reserved'']"

lemma exception_messages_length [simp]: "length exception_messages = 32"
  by (simp add: exception_messages_def)

section \<open>Interrupts\<close>

text \<open>What \<open>cpu_handler\<close> prints before it halts the processor for ever.\<close>

definition cpu_report :: "u32 \<Rightarrow> screen \<Rightarrow> screen run" where
  "cpu_report int_no s =
     bind_run (put_char 10 s) (\<lambda>s.
     bind_run (put_string (ascii ''Exception: '') s) (\<lambda>s.
     bind_run (if unat int_no < length exception_messages then put_string (ascii (exception_messages ! unat int_no)) s
               else Inl Out_of_bounds) (\<lambda>s.
     bind_run (put_char 10 s) (\<lambda>s.
     bind_run (put_string (ascii ''Interrupt Number: '') s) (\<lambda>s.
     bind_run (int_to_string int_no (replicate 16 0)) (\<lambda>buffer.
     bind_run (put_string buffer s) (\<lambda>s.
     bind_run (put_char 10 s) (\<lambda>s.
     put_string (chars ''System Halted.'' @ [10, 0]) s))))))))"

definition cpu_handler :: "u32 \<Rightarrow> screen \<Rightarrow> screen run" where
  "cpu_handler int_no s = bind_run (cpu_report int_no s) (\<lambda>_. Inl Halted)"

text \<open>\<open>switch\<close> is the context switch and \<open>fault_addr\<close> the content of \<open>cr2\<close>.\<close>

definition isr_handler ::
  "device \<Rightarrow> 'h services \<Rightarrow> (u32 \<Rightarrow> sched \<Rightarrow> sched run) \<Rightarrow> u32 \<Rightarrow> u32 \<Rightarrow> u32 \<Rightarrow> 'h machine \<Rightarrow> 'h machine run" where
  "isr_handler dev sv switch fault_addr int_no err_code m =
     (if int_no = KEYBOARD_ISR then
        bind_run (keyboard_handler dev (m_keyboard m) (m_screen m) (m_io m)) (\<lambda>(k, s, io).
        Inr (m\<lparr>m_keyboard := k, m_screen := s, m_io := io\<rparr>))
      else if int_no = PAGE_FAULT_ISR then
        bind_run (page_fault_handler sv fault_addr err_code (m_vm m)) (\<lambda>v. Inr (m\<lparr>m_vm := v\<rparr>))
      else if int_no = PIT_ISR then
        bind_run (pit_handler switch (m_sched m) (m_screen m) (m_io m)) (\<lambda>(q, s, io).
        Inr (m\<lparr>m_sched := q, m_screen := s, m_io := io\<rparr>))
      else if int_no < CPU_EXCEPTIONS then
        bind_run (cpu_handler int_no (m_screen m)) (\<lambda>s. Inr (m\<lparr>m_screen := s\<rparr>))
      else
        bind_run (put_string (chars ''Unknown interrupt'' @ [10, 0]) (m_screen m)) (\<lambda>s. Inr (m\<lparr>m_screen := s\<rparr>)))"

section \<open>kernel.c\<close>

record kernel = "kheap machine" +
  k_gdt :: "gdt_entry list \<times> segments"
  k_idt :: "idt_entry list \<times> idt_ptr"
  k_ata :: ata
  k_interrupts :: bool

text \<open>
  \<open>kernel_main\<close> up to the choice between the shell and the tests. \<open>l\<close> holds the linker symbols; \<open>gdt_addr\<close>,
  \<open>idt_addr\<close> and \<open>kdir\<close> are the addresses of the static tables and \<open>isr n\<close> that of the stub \<open>isrn\<close>.
\<close>

definition kernel_init ::
  "device \<Rightarrow> kheap services \<Rightarrow> layout \<Rightarrow> u32 \<Rightarrow> u32 \<Rightarrow> u32 \<Rightarrow> (nat \<Rightarrow> u32) \<Rightarrow> kernel \<Rightarrow> kernel run" where
  "kernel_init dev sv l gdt_addr idt_addr kdir isr m =
     bind_run (init_gdt gdt_addr (fst (k_gdt m))) (\<lambda>gdt.
     let m = m\<lparr>k_gdt := gdt, k_idt := init_idt idt_addr isr (fst (k_idt m)), m_io := remap_pic dev (m_io m)\<rparr> in
     bind_run (init_disk_driver dev (k_ata m) (m_screen m) (m_io m)) (\<lambda>(ata, scr, io).
     let m = m\<lparr>k_ata := ata, m_screen := scr, m_io := io\<rparr>; v = m_vm m; v = v\<lparr>pmm := snd (pmm_init l (pmm v))\<rparr> in
     bind_run (vmm_init sv l kdir v) (\<lambda>v.
     bind_run (init_kmalloc sv v) (\<lambda>v.
     let m = m\<lparr>m_vm := v, k_interrupts := True\<rparr> in
     bind_run (clear_screen (m_screen m)) (\<lambda>scr.
     bind_run (printf (\<lambda>_. []) (chars ''Kernel loaded successfully. its yoav kernel'' @ [10, 0]) [] scr) (\<lambda>scr.
     Inr (m\<lparr>m_screen := scr\<rparr>)))))))"

text \<open>
  With the shell: the result is the machine when the shell is about to show its first prompt; from there it
  runs \<open>shell_iteration\<close> for ever.
\<close>

definition kernel_main ::
  "device \<Rightarrow> kheap services \<Rightarrow> layout \<Rightarrow> u32 \<Rightarrow> u32 \<Rightarrow> u32 \<Rightarrow> (nat \<Rightarrow> u32) \<Rightarrow> kernel \<Rightarrow> kernel run" where
  "kernel_main dev sv l gdt_addr idt_addr kdir isr m =
     bind_run (kernel_init dev sv l gdt_addr idt_addr kdir isr m) (\<lambda>m.
     bind_run (shell_welcome_message (m_screen m)) (\<lambda>scr.
     Inr (m\<lparr>m_screen := scr\<rparr>)))"

text \<open>
  The three words by which a loader recognises the image, and the entry point it jumps to: interrupts off, the stack
  pointer from \<open>_kernel_stack_top\<close>, and a call, which pushes the return address. The first result is the stack
  pointer on entry to \<open>kernel_main\<close>; the \<open>hlt\<close> after the call is not reached.
\<close>

definition multiboot_header :: "u32 list" where
  "multiboot_header = [0x1BADB002, 0x0, - (0x1BADB002 + 0x0)]"

definition start_entry ::
  "device \<Rightarrow> kheap services \<Rightarrow> layout \<Rightarrow> u32 \<Rightarrow> u32 \<Rightarrow> u32 \<Rightarrow> (nat \<Rightarrow> u32) \<Rightarrow> kernel \<Rightarrow> (u32 \<times> kernel) run" where
  "start_entry dev sv l gdt_addr idt_addr kdir isr m =
     (let m = m\<lparr>k_interrupts := False\<rparr>;
          esp = kernel_stack_top l;
          esp = esp - 4 in
      bind_run (kernel_main dev sv l gdt_addr idt_addr kdir isr m) (\<lambda>m. Inr (esp, m)))"

text \<open>The loader accepts a header whose words add up to 0.\<close>

lemma multiboot_checksum: "hd multiboot_header = 0x1BADB002 \<and> sum_list multiboot_header = 0"
  by (simp add: multiboot_header_def)

text \<open>The two smoke tests of kernel.c, which the build does not call.\<close>

definition test_kmalloc :: "kheap services \<Rightarrow> kvm \<Rightarrow> kvm run" where
  "test_kmalloc sv v =
     bind_run (init_kmalloc sv v) (\<lambda>v. bind_run (kmalloc sv 16 v) (\<lambda>(str, v). kfree sv str v))"

definition test_pmm :: "pmm_state \<Rightarrow> screen \<Rightarrow> (pmm_state \<times> screen) run" where
  "test_pmm p s =
     bind_run (printf (\<lambda>_. []) (chars ''Testing PMM'' @ [10, 0]) [] s) (\<lambda>s.
     let (addr, p) = pmm_alloc_frame p in
     bind_run (printf (\<lambda>_. []) (chars ''Allocated frame at: %p'' @ [10, 0]) (word_bytes addr) s) (\<lambda>s.
     bind_run (pmm_free_frame addr p) (\<lambda>p.
     bind_run (printf (\<lambda>_. []) (chars ''Freed frame at: %p'' @ [10, 0]) (word_bytes addr) s) (\<lambda>s.
     Inr (p, s)))))"

section \<open>Exceptions\<close>

definition exception_text :: "u32 \<Rightarrow> u8 list" where
  "exception_text int_no =
     [10] @ chars ''Exception: '' @ chars (exception_messages ! unat int_no) @ [10]
       @ chars ''Interrupt Number: '' @ dec_int (sint int_no) @ [10] @ (chars ''System Halted.'' @ [10])"

lemma messages_are_strings: "i < 32 \<Longrightarrow> 0 \<notin> set (chars (exception_messages ! i))"
proof -
  have "\<forall>t \<in> set exception_messages. 0 \<notin> set (chars t)" by (simp add: exception_messages_def chars_def)
  moreover assume "i < 32"
  then have "exception_messages ! i \<in> set exception_messages"
    by (intro nth_mem) simp
  ultimately show ?thesis by blast
qed

lemma cpu_report_prints:
  assumes "int_no < 32"
  shows "prints (cpu_report int_no) (exception_text int_no)"
proof -
  have i: "unat int_no < 32" "unat int_no < length exception_messages" using assms
    by (simp_all add: word_less_nat_alt)
  have "int_no \<noteq> 0x80000000" using assms by auto
  then obtain buf where buf: "int_to_string int_no (replicate 16 0) = Inr buf" "holds_str buf (dec_int (sint int_no))"
    by (rule int_to_string_holds [of int_no "replicate 16 0"]) auto
  have "holds_str (chars ''System Halted.'' @ [10, 0]) (chars ''System Halted.'' @ [10])"
    using holds_str_append [of "chars ''System Halted.'' @ [10]" "[]"] by (simp add: chars_def)
  then show ?thesis
    unfolding exception_text_def cpu_report_def if_P [OF i(2)] buf(1) bind_run_Inr
    using i(1) buf(2)
    by (intro prints_seq prints_put_char prints_put_string holds_ascii messages_are_strings) (simp_all add: chars_def)
qed

text \<open>
  Every exception but the page fault prints its name and number after whatever the screen shows and then
  stops the machine: \<open>isr_handler\<close> does not return from it.
\<close>

theorem cpu_exception_reported:
  assumes "int_no < 32" and "int_no \<noteq> 14" and "shows_rows out k (m_screen m)"
  shows "isr_handler dev sv switch fault_addr int_no err_code m = Inl Halted
     \<and> (\<exists>scr' k'. cpu_report int_no (m_screen m) = Inr scr'
           \<and> shows_rows (fold (tput (color (m_screen m))) (exception_text int_no) out) k' scr')"
proof -
  obtain scr' k' where "cpu_report int_no (m_screen m) = Inr scr'"
      "shows_rows (fold (tput (color (m_screen m))) (exception_text int_no) out) k' scr'"
    using cpu_report_prints [OF assms(1)] assms(3) unfolding prints_def by blast
  moreover from this have "isr_handler dev sv switch fault_addr int_no err_code m = Inl Halted"
    using assms(1,2) by (auto simp: isr_handler_def vectors cpu_handler_def)
  ultimately show ?thesis by blast
qed

text \<open>The writes among the port accesses.\<close>

fun is_write :: "io_event \<Rightarrow> bool" where
  "is_write (Out8 _ _) = True" | "is_write (Out16 _ _) = True" | "is_write (Out32 _ _) = True"
| "is_write (In8 _ _) = False" | "is_write (In16 _ _) = False" | "is_write (In32 _ _) = False"

definition port_writes :: "io \<Rightarrow> io" where
  "port_writes io = filter is_write io"

lemma ack_writes [simp]: "port_writes (pic_send_ack io) = Out8 0x20 0x20 # port_writes io"
  by (simp add: port_writes_def pic_send_ack_def port_defs pic_consts)

lemma unknown_interrupt_prints: "prints (put_string (chars ''Unknown interrupt'' @ [10, 0])) (chars ''Unknown interrupt'' @ [10])"
  using holds_str_append [of "chars ''Unknown interrupt'' @ [10]" "[]"] by (intro prints_put_string) (simp add: chars_def)


text \<open>A machine with a blank screen and nothing typed.\<close>

definition idle_machine :: "unit machine" where
  "idle_machine = \<lparr>m_keyboard = keyboard_boot, m_screen = screen_boot (replicate 2000 EMPTY_LETTER), m_io = [],
     m_sched = sched_static, m_vm = small_space\<rparr>"

lemma idle_machine_ok:
  "keyboard_inv (m_keyboard idle_machine)" "shows_rows [] 0 (m_screen idle_machine)"
  by (simp_all add: idle_machine_def keyboard_inv_def keyboard_boot_def shows_rows_def screen_boot_def)

theorem cpu_exception_reported_witness:
  "isr_handler plain_device idle_services plain_switch 0 13 0 idle_machine = Inl Halted"
  using cpu_exception_reported [OF _ _ idle_machine_ok(2), of 13] by simp


end
