(* ===== verification/Interrupts.thy ===== *)
theory Interrupts
  imports Kernel
begin

text \<open>
  interupts/isr_stubs.asm: what the processor and a stub push around the call of \<open>isr_handler\<close>, and what
  \<open>popad\<close> and \<open>iret\<close> take back. The interrupted code runs on the kernel stack, so the processor
  pushes no stack pointer. The registers are those of \<open>context_t\<close>.
\<close>

section \<open>The stubs\<close>

text \<open>The vectors of \<open>ISR_WITH_ERR_CODE\<close>.\<close>

definition error_vectors :: "u32 list" where
  "error_vectors = [8, 10, 11, 12, 13, 14, 17]"

text \<open>The processor's part: flags, code segment, return address and, for those vectors, an error code.\<close>

definition interrupt_entry :: "bool \<Rightarrow> u32 \<Rightarrow> u32 \<Rightarrow> context_t \<Rightarrow> 'h vmm \<Rightarrow> (u32 \<times> 'h vmm) run" where
  "interrupt_entry with_code hw_err cs r v =
     push_words ([c_eflags r, cs, c_eip r] @ (if with_code then [hw_err] else [])) (c_esp r) v"

text \<open>The stub's pushes up to \<open>pushad\<close>; the rest is a \<open>registers_t\<close> at \<open>esp\<close>.\<close>

definition isr_enter :: "u32 \<Rightarrow> context_t \<Rightarrow> u32 \<Rightarrow> 'h vmm \<Rightarrow> (u32 \<times> 'h vmm) run" where
  "isr_enter n r esp v =
     bind_run (push_words ((if n \<in> set error_vectors then [] else [0]) @ [n]) esp v) (\<lambda>(esp, v).
     push_words [c_eax r, c_ecx r, c_edx r, c_ebx r, esp, c_ebp r, c_esi r, c_edi r] esp v)"

text \<open>\<open>popad\<close>, which skips the saved stack pointer, \<open>add esp, 8\<close> and \<open>iret\<close>: the registers and the code segment.\<close>

definition isr_leave :: "u32 \<Rightarrow> 'h vmm \<Rightarrow> (context_t \<times> u32) run" where
  "isr_leave esp v =
     bind_run (load esp v) (\<lambda>edi. bind_run (load (esp + 4) v) (\<lambda>esi. bind_run (load (esp + 8) v) (\<lambda>ebp.
     bind_run (load (esp + 16) v) (\<lambda>ebx. bind_run (load (esp + 20) v) (\<lambda>edx. bind_run (load (esp + 24) v) (\<lambda>ecx.
     bind_run (load (esp + 28) v) (\<lambda>eax. bind_run (load (esp + 40) v) (\<lambda>eip. bind_run (load (esp + 44) v) (\<lambda>cs.
     bind_run (load (esp + 48) v) (\<lambda>eflags.
     Inr (\<lparr>c_edi = edi, c_esi = esi, c_ebp = ebp, c_esp = esp + 52, c_ebx = ebx, c_edx = edx, c_ecx = ecx, c_eax = eax,
       c_eip = eip, c_eflags = eflags\<rparr>, cs)))))))))))"

text \<open>
  A whole interrupt \<open>n\<close>: entry, the stub, the call with the address of the frame (\<open>ret\<close> is the return address in the
  stub), and the way back. \<open>isr_handler\<close> reads the vector and the error code from the frame.
\<close>

definition isr_stub ::
  "device \<Rightarrow> 'h services \<Rightarrow> (u32 \<Rightarrow> sched \<Rightarrow> sched run) \<Rightarrow> u32 \<Rightarrow> u32 \<Rightarrow> u32 \<Rightarrow> u32 \<Rightarrow> u32 \<Rightarrow> context_t \<Rightarrow> 'h machine
     \<Rightarrow> (context_t \<times> u32 \<times> 'h machine) run" where
  "isr_stub dev sv switch fault_addr n hw_err cs ret r m =
     bind_run (interrupt_entry (n \<in> set error_vectors) hw_err cs r (m_vm m)) (\<lambda>(esp, v).
     bind_run (isr_enter n r esp v) (\<lambda>(esp, v).
     bind_run (push_words [esp, ret] esp v) (\<lambda>(_, v).
     bind_run (load (esp + 32) v) (\<lambda>int_no. bind_run (load (esp + 36) v) (\<lambda>err_code.
     bind_run (isr_handler dev sv switch fault_addr int_no err_code (m\<lparr>m_vm := v\<rparr>)) (\<lambda>m.
     bind_run (isr_leave esp (m_vm m)) (\<lambda>(r, cs).
     Inr (r, cs, m))))))))"

section \<open>The frame\<close>

text \<open>The thirteen words of the frame and the two of the call, in the order they are pushed.\<close>

definition isr_words :: "u32 \<Rightarrow> u32 \<Rightarrow> u32 \<Rightarrow> u32 \<Rightarrow> context_t \<Rightarrow> u32 list" where
  "isr_words n hw_err cs ret r =
     [c_eflags r, cs, c_eip r, if n \<in> set error_vectors then hw_err else 0, n,
      c_eax r, c_ecx r, c_edx r, c_ebx r, c_esp r - 20, c_ebp r, c_esi r, c_edi r, c_esp r - 52, ret]"

lemma isr_stub_frame:
  "isr_stub dev sv switch fault_addr n hw_err cs ret r m =
     bind_run (push_words (isr_words n hw_err cs ret r) (c_esp r) (m_vm m)) (\<lambda>(_, v).
     bind_run (load (c_esp r - 20) v) (\<lambda>int_no. bind_run (load (c_esp r - 16) v) (\<lambda>err_code.
     bind_run (isr_handler dev sv switch fault_addr int_no err_code (m\<lparr>m_vm := v\<rparr>)) (\<lambda>m.
     bind_run (isr_leave (c_esp r - 52) (m_vm m)) (\<lambda>(r, cs).
     Inr (r, cs, m))))))"
  by (simp add: isr_stub_def isr_enter_def interrupt_entry_def isr_words_def bind_run_assoc)

text \<open>Every handler but the one for page faults leaves memory alone.\<close>

lemma isr_handler_vm:
  assumes "isr_handler dev sv switch fault_addr int_no err_code m = Inr m'" and "int_no \<noteq> 14"
  shows "m_vm m' = m_vm m"
  using assms by (auto simp: isr_handler_def vectors split: if_splits)

section \<open>Properties\<close>

text \<open>
  C21. Interrupts are transparent to the code they interrupt. For every vector but the page fault, with the
  stack pointer in a mapped page that has room for the frame, \<open>isr_handler\<close> is called with the vector and the
  error code the processor pushed, 0 for a vector without one; when it returns, the interrupted code goes on with
  every register, the flags, the instruction and the stack pointer it had, and its stack is untouched.
\<close>

theorem isr_stub_transparent:
  assumes "data_page (m_vm m) page f" and "unat off + 60 \<le> 4096" and "c_esp r = page + off + 60" and "n \<noteq> 14"
  shows "\<exists>v. isr_stub dev sv switch fault_addr n hw_err cs ret r m =
       (case isr_handler dev sv switch fault_addr n (if n \<in> set error_vectors then hw_err else 0) (m\<lparr>m_vm := v\<rparr>) of
          Inl h \<Rightarrow> Inl h | Inr m' \<Rightarrow> Inr (r, cs, m'))
     \<and> data_page v page f \<and> (\<forall>b. off + 60 \<le> b \<longrightarrow> words_of f v b = words_of f (m_vm m) b)"
proof -
  let ?xs = "isr_words n hw_err cs ret r"
  have len: "length ?xs = 15" by (simp add: isr_words_def)
  have u: "unat (off + 60) = unat off + 60" using assms(2) by (subst unat_add_exact) auto
  obtain v where v: "push_words ?xs (page + (off + 60)) (m_vm m) = Inr (page + (off + 60) - of_nat (4 * length ?xs), v)"
      "data_page v page f" "\<forall>k < length ?xs. words_of f v (off + 60 - of_nat (4 * Suc k)) = ?xs ! k"
      "\<forall>b. off + 60 \<le> b \<longrightarrow> words_of f v b = words_of f (m_vm m) b"
    using push_words_page [OF assms(1), of "off + 60" ?xs] assms(2) u len by auto
  have at: "load (c_esp r - of_nat (4 * Suc k)) v = Inr (?xs ! k)" if "k < 15" for k
  proof -
    have d: "unat (60 - of_nat (4 * Suc k) :: u32) = 60 - 4 * Suc k"
      using that by (subst unat_sub) (simp_all add: word_le_nat_alt unat_of_nat_exact del: of_nat_mult of_nat_Suc of_nat_add)
    then have "unat (off + (60 - of_nat (4 * Suc k))) = unat off + (60 - 4 * Suc k)"
      using assms(2) by (subst unat_add_exact) auto
    then have "off + (60 - of_nat (4 * Suc k)) < 4096" using assms(2) by (simp add: word_less_nat_alt)
    from data_page_access(1) [OF v(2) this] v(3) that len show ?thesis
      unfolding assms(3) by (simp only: add_diff_eq add.assoc)
  qed
  note ats = at [of 0] at [of 1] at [of 2] at [of 3] at [of 4] at [of 5] at [of 6] at [of 7] at [of 8] at [of 10] at [of 11] at [of 12]
  have ld: "load (c_esp r - 4) v = Inr (c_eflags r)" "load (c_esp r - 8) v = Inr cs" "load (c_esp r - 12) v = Inr (c_eip r)"
      "load (c_esp r - 16) v = Inr (if n \<in> set error_vectors then hw_err else 0)" "load (c_esp r - 20) v = Inr n"
      "load (c_esp r - 24) v = Inr (c_eax r)" "load (c_esp r - 28) v = Inr (c_ecx r)" "load (c_esp r - 32) v = Inr (c_edx r)"
      "load (c_esp r - 36) v = Inr (c_ebx r)" "load (c_esp r - 44) v = Inr (c_ebp r)" "load (c_esp r - 48) v = Inr (c_esi r)"
      "load (c_esp r - 52) v = Inr (c_edi r)"
    using ats by (simp_all add: isr_words_def)
  have frame: "isr_leave (c_esp r - 52) v = Inr (r, cs)"
    by (simp add: isr_leave_def ld)
  have "isr_stub dev sv switch fault_addr n hw_err cs ret r m =
       (case isr_handler dev sv switch fault_addr n (if n \<in> set error_vectors then hw_err else 0) (m\<lparr>m_vm := v\<rparr>) of
          Inl h \<Rightarrow> Inl h | Inr m' \<Rightarrow> Inr (r, cs, m'))"
    using v(1) assms(3) frame ld(4,5)
    by (auto simp: isr_stub_frame add.assoc isr_handler_vm [OF _ assms(4)] split: sum.split)
  with v(2,4) show ?thesis by blast
qed

theorem isr_stub_transparent_witness:
  "\<exists>v. isr_stub (\<lambda>_ _. 0x1E) idle_services plain_switch 0 33 0 8 0x100000
       \<lparr>c_edi = 1, c_esi = 2, c_ebp = 3, c_esp = 0x5F3C, c_ebx = 4, c_edx = 5, c_ecx = 6, c_eax = 7, c_eip = 0x101000, c_eflags = 0x246\<rparr>
       (idle_machine\<lparr>m_vm := space_with_page\<rparr>) =
     (case isr_handler (\<lambda>_ _. 0x1E) idle_services plain_switch 0 33 0 (idle_machine\<lparr>m_vm := v\<rparr>) of Inl h \<Rightarrow> Inl h
      | Inr m' \<Rightarrow> Inr (\<lparr>c_edi = 1, c_esi = 2, c_ebp = 3, c_esp = 0x5F3C, c_ebx = 4, c_edx = 5, c_ecx = 6, c_eax = 7,
          c_eip = 0x101000, c_eflags = 0x246\<rparr>, 8, m'))"
proof -
  let ?m = "idle_machine\<lparr>m_vm := space_with_page\<rparr>"
  let ?r = "\<lparr>c_edi = 1, c_esi = 2, c_ebp = 3, c_esp = 0x5F3C, c_ebx = 4, c_edx = 5, c_ecx = 6, c_eax = 7, c_eip = 0x101000, c_eflags = 0x246\<rparr>"
  have pre: "data_page (m_vm ?m) 0x5000 0x9000" "unat (0xF00 :: u32) + 60 \<le> 4096" "c_esp ?r = 0x5000 + 0xF00 + 60" "(33 :: u32) \<noteq> 14"
    using space_with_page_data by simp_all
  have "33 \<notin> set error_vectors" by (simp add: error_vectors_def)
  then show ?thesis
    using isr_stub_transparent [OF pre, of "\<lambda>_ _. 0x1E" idle_services plain_switch 0 0 8 "0x100000"] by auto
qed

end
