(* ===== verification/System.thy ===== *)
theory System
  imports Interrupts
begin

text \<open>
  The running kernel: the loop of \<open>shell\<close> cut into the steps between which an interrupt can be seen to come,
  interleaved with timer and keyboard interrupts in any order. A step is atomic here: an interrupt in the middle of a
  routine is not modelled.
\<close>

section \<open>The shell in steps\<close>

text \<open>
  Where \<open>shell\<close> stands: about to prompt, reading with \<open>index\<close> characters in the buffer, about to execute the line,
  or in the endless loop of \<open>exit\<close>.
\<close>

datatype shell_phase = Prompting | Reading nat | Executing | Spinning

record shell_state =
  sh_phase :: shell_phase
  sh_input :: buffer

text \<open>One character; a call that spins in \<open>keyboard_buffer_get\<close> changes nothing.\<close>

definition shell_char :: "nat \<Rightarrow> buffer \<Rightarrow> keyboard \<Rightarrow> screen \<Rightarrow> (shell_state \<times> keyboard \<times> screen) run" where
  "shell_char index input k s =
     bind_run (keyboard_buffer_get k) (\<lambda>r. case r of
       None \<Rightarrow> Inr (\<lparr>sh_phase = Reading index, sh_input = input\<rparr>, k, s)
     | Some (c, k) \<Rightarrow>
         if c = 10 then bind_run (wr index 0 input) (\<lambda>input. Inr (\<lparr>sh_phase = Executing, sh_input = input\<rparr>, k, s))
         else if c = 8 then
           if index > 0 then
             bind_run (put_string [8, 32, 8, 0] s) (\<lambda>s. Inr (\<lparr>sh_phase = Reading (index - 1), sh_input = input\<rparr>, k, s))
           else Inr (\<lparr>sh_phase = Reading index, sh_input = input\<rparr>, k, s)
         else if index < MAX_INPUT_LENGTH - 1 then
           bind_run (wr index c input) (\<lambda>input. Inr (\<lparr>sh_phase = Reading (Suc index), sh_input = input\<rparr>, k, s))
         else Inr (\<lparr>sh_phase = Reading index, sh_input = input\<rparr>, k, s))"

definition shell_step :: "shell_state \<Rightarrow> keyboard \<Rightarrow> screen \<Rightarrow> (shell_state \<times> keyboard \<times> screen) run" where
  "shell_step sh k s =
     (case sh_phase sh of
        Prompting \<Rightarrow> bind_run (shell_prompt s) (\<lambda>s. Inr (sh\<lparr>sh_phase := Reading 0\<rparr>, k, s))
      | Reading index \<Rightarrow> shell_char index (sh_input sh) k s
      | Executing \<Rightarrow>
          bind_run (execute_command (sh_input sh) s) (\<lambda>res. case res of
            Continue s \<Rightarrow> Inr (sh\<lparr>sh_phase := Prompting\<rparr>, k, s)
          | Exited s \<Rightarrow> Inr (sh\<lparr>sh_phase := Spinning\<rparr>, k, s))
      | Spinning \<Rightarrow> Inr (sh, k, s))"

section \<open>Steps of the machine\<close>

text \<open>Only the timer's and the keyboard's lines are open.\<close>

inductive kstep ::
  "device \<Rightarrow> 'h services \<Rightarrow> (u32 \<Rightarrow> sched \<Rightarrow> sched run) \<Rightarrow> 'h machine \<times> shell_state \<Rightarrow> 'h machine \<times> shell_state \<Rightarrow> bool"
  for dev sv switch where
  irq: "n = PIT_ISR \<or> n = KEYBOARD_ISR \<Longrightarrow> isr_handler dev sv switch fault_addr n 0 m = Inr m' \<Longrightarrow>
     kstep dev sv switch (m, sh) (m', sh)"
| shell: "shell_step sh (m_keyboard m) (m_screen m) = Inr (sh', k, s) \<Longrightarrow>
     kstep dev sv switch (m, sh) (m\<lparr>m_keyboard := k, m_screen := s\<rparr>, sh')"

inductive_cases kstepE: "kstep dev sv switch (m, sh) t"

section \<open>Well-formed states\<close>

text \<open>There is no process, or the current node lies on the ring of ready processes.\<close>

definition sched_ok :: "sched \<Rightarrow> bool" where
  "sched_ok q \<longleftrightarrow> rq_head q = 0 \<or> (\<exists>xs i. ring q xs \<and> i < length xs \<and> current_process_node q = xs ! i)"

fun shell_ok :: "shell_phase \<Rightarrow> buffer \<Rightarrow> bool" where
  "shell_ok (Reading index) input \<longleftrightarrow> length input = 128 \<and> index \<le> 127"
| "shell_ok Executing input \<longleftrightarrow> length input = 128 \<and> 0 \<in> set input"
| "shell_ok Prompting input \<longleftrightarrow> length input = 128"
| "shell_ok Spinning input \<longleftrightarrow> length input = 128"

definition system_ok :: "'h machine \<times> shell_state \<Rightarrow> bool" where
  "system_ok = (\<lambda>(m, sh). keyboard_inv (m_keyboard m) \<and> screen_inv (m_screen m) \<and> sched_ok (m_sched m)
     \<and> shell_ok (sh_phase sh) (sh_input sh))"

section \<open>Every step is possible and keeps states well formed\<close>

lemma printf_loop_put_chars:
  assumes "holds_str (drop i b) t" and "37 \<notin> set t"
  shows "printf_loop strs b i args ap s = put_chars t s"
  using assms
proof (induction t arbitrary: i s)
  case Nil
  then show ?case by (subst printf_loop.simps) (auto simp: holds_str_at)
next
  case (Cons c t)
  then have c: "i < length b" "b ! i = c" "c \<noteq> 0" "c \<noteq> 37" "holds_str (drop (Suc i) b) t" "37 \<notin> set t"
    by (auto simp: holds_str_at)
  have "printf_loop strs b (Suc i) args ap = put_chars t" using Cons.IH [OF c(5,6)] by (simp add: fun_eq_iff)
  with c show ?case by (subst printf_loop.simps) simp
qed

lemma printf_literal_inv:
  assumes "0 \<notin> set t" and "37 \<notin> set t" and "screen_inv s"
  shows "\<exists>s'. printf strs (t @ [0]) args s = Inr s' \<and> screen_inv s'"
  using printf_loop_put_chars [of 0 "t @ [0]" t strs args 0 s] holds_str_append [OF assms(1), of "[]"] assms(2)
    put_chars_inv [OF assms(3), of t] by (simp add: printf_def)

lemma tick_ok:
  assumes "switches_current sw" and "sched_ok q" and "screen_inv s"
  shows "\<exists>q' s'. scheduler_handle_tick sw q s = Inr (q', s') \<and> sched_ok q' \<and> screen_inv s'"
proof (cases "tick_count q + 1 \<ge> TICKS_UNTIL_SWITCH")
  case False
  with assms(2,3) show ?thesis by (auto simp: scheduler_handle_tick_def sched_ok_def)
next
  case True
  let ?q = "q\<lparr>tick_count := 0\<rparr>"
  obtain p q1 where n: "scheduler_get_next_process ?q = Inr (p, q1)" "sched_ok q1"
  proof (cases "rq_head q = 0")
    case True
    then have "scheduler_get_next_process ?q = Inr (0, ?q)" "sched_ok ?q" by (simp_all add: scheduler_get_next_process_def sched_ok_def)
    then show thesis by (rule that)
  next
    case False
    then obtain xs i where r: "ring q xs" "i < length xs" "current_process_node q = xs ! i" using assms(2) by (auto simp: sched_ok_def)
    let ?j = "Suc i mod length xs"
    have "scheduler_get_next_process ?q = Inr (proc ?q (xs ! ?j), ?q\<lparr>current_process_node := xs ! ?j\<rparr>)"
      using get_next_ring [of ?q xs i] r by simp
    moreover have "sched_ok (?q\<lparr>current_process_node := xs ! ?j\<rparr>)"
      using r(1) mod_length [OF r(2), of "Suc i"] by (auto simp: sched_ok_def)
    ultimately show thesis by (rule that)
  qed
  obtain s1 where s1: "printf (\<lambda>p. []) (chars ''Switching process'' @ [10, 0]) [] s = Inr s1" "screen_inv s1"
    using printf_literal_inv [OF message_switching assms(3)] by auto
  have "sched_ok (q1\<lparr>current_process := p\<rparr>)" using n(2) by (auto simp: sched_ok_def)
  with True n s1 assms(1,3) show ?thesis by (auto simp: scheduler_handle_tick_def switches_current_def)
qed

lemma irq_ok:
  assumes "switches_current sw" and "keyboard_inv (m_keyboard m)" and "screen_inv (m_screen m)" and "sched_ok (m_sched m)"
    and "n = PIT_ISR \<or> n = KEYBOARD_ISR"
  shows "\<exists>m'. isr_handler dev sv sw fault_addr n 0 m = Inr m' \<and> keyboard_inv (m_keyboard m') \<and> screen_inv (m_screen m') \<and> sched_ok (m_sched m')"
proof (cases "n = KEYBOARD_ISR")
  case True
  obtain k' s' where "handle_scancode (ucast (dev (m_io m) 0x60)) (m_keyboard m) (m_screen m) = Inr (k', s')" "keyboard_inv k'" "screen_inv s'"
    using handle_scancode_step [OF assms(2,3)] by blast
  with True assms(4) show ?thesis
    by (simp add: isr_handler_def vectors keyboard_handler_def KEYBOARD_DATA_PORT_def port_defs Let_def)
next
  case False
  obtain q' s' where "scheduler_handle_tick sw (m_sched m) (m_screen m) = Inr (q', s')" "sched_ok q'" "screen_inv s'"
    using tick_ok [OF assms(1,4,3)] by blast
  with False assms(2,5) show ?thesis by (auto simp: isr_handler_def vectors pit_handler_def)
qed

lemma keyboard_get_ok:
  assumes "keyboard_inv k"
  shows "keyboard_buffer_get k = Inr None \<or> (\<exists>c k'. keyboard_buffer_get k = Inr (Some (c, k')) \<and> keyboard_inv k')"
proof (cases "unread k")
  case Nil
  then show ?thesis using kbd.get_empty [OF assms] by simp
next
  case (Cons c cs)
  then show ?thesis using kbd.get_law [OF assms, of c cs] by blast
qed

lemma shell_char_ok:
  assumes "keyboard_inv k" and "screen_inv s" and "length input = 128" and "index \<le> 127"
  shows "\<exists>sh' k' s'. shell_char index input k s = Inr (sh', k', s') \<and> keyboard_inv k' \<and> screen_inv s' \<and> shell_ok (sh_phase sh') (sh_input sh')"
proof -
  obtain s1 where s1: "put_string [8, 32, 8, 0] s = Inr s1" "screen_inv s1"
    using put_string_literal [of "[8, 32, 8]" s] put_chars_inv [OF assms(2), of "[8, 32, 8]"] by auto
  have "0 \<in> set (input[index := 0])" using assms(3,4) by (simp add: set_update_memI)
  with keyboard_get_ok [OF assms(1)] s1 assms show ?thesis
    by (auto simp: shell_char_def MAX_INPUT_LENGTH_def)
qed

lemma shell_step_ok:
  assumes "keyboard_inv k" and "screen_inv s" and "shell_ok (sh_phase sh) (sh_input sh)"
  shows "\<exists>sh' k' s'. shell_step sh k s = Inr (sh', k', s') \<and> keyboard_inv k' \<and> screen_inv s' \<and> shell_ok (sh_phase sh') (sh_input sh')"
proof (cases "sh_phase sh")
  case Prompting
  have "0 \<notin> set (chars ''EnhancedShell> '')" by (simp add: chars_def)
  then obtain s1 where "shell_prompt s = Inr s1" "screen_inv s1"
    using put_string_literal [of "chars ''EnhancedShell> ''" s] put_chars_inv [OF assms(2), of "chars ''EnhancedShell> ''"]
    by (auto simp: shell_prompt_def ascii_def)
  with Prompting assms show ?thesis by (simp add: shell_step_def)
next
  case (Reading index)
  with shell_char_ok [OF assms(1,2), of "sh_input sh" index] assms(3) show ?thesis by (simp add: shell_step_def)
next
  case Executing
  have "holds_str (sh_input sh) (takeWhile (\<lambda>c. c \<noteq> 0) (sh_input sh))"
  proof -
    obtain xs ys where e: "sh_input sh = xs @ 0 # ys" "0 \<notin> set xs"
      using assms(3) Executing split_list_first [of 0 "sh_input sh"] by auto
    then have "takeWhile (\<lambda>c. c \<noteq> 0) (sh_input sh) = xs" by (auto simp: takeWhile_append)
    with e holds_str_append [OF e(2), of ys] show ?thesis by simp
  qed
  from execute_command_run [OF this, of s] run_command_inv [OF assms(2)] obtain res where
    "execute_command (sh_input sh) s = Inr res" "screen_inv (shell_screen res)" by metis
  with Executing assms show ?thesis by (cases res) (simp_all add: shell_step_def)
next
  case Spinning
  with assms show ?thesis by (simp add: shell_step_def)
qed

lemma kstep_ok:
  assumes "switches_current switch" and "kstep dev sv switch x y" and "system_ok x"
  shows "system_ok y"
proof -
  obtain m sh where x: "x = (m, sh)" by (cases x)
  have ok: "keyboard_inv (m_keyboard m)" "screen_inv (m_screen m)" "sched_ok (m_sched m)" "shell_ok (sh_phase sh) (sh_input sh)"
    using assms(3) by (simp_all add: x system_ok_def)
  from assms(2) show ?thesis
    unfolding x
  proof cases
    case (irq n fault_addr m')
    then show ?thesis using irq_ok [OF assms(1) ok(1-3) irq(2), of dev sv fault_addr] ok(4) by (auto simp: system_ok_def)
  next
    case (shell sh' k s)
    then show ?thesis using shell_step_ok [OF ok(1,2,4)] ok(3) by (auto simp: system_ok_def)
  qed
qed

lemma reachable_ok:
  assumes "switches_current switch" and "(kstep dev sv switch)\<^sup>*\<^sup>* x y" and "system_ok x"
  shows "system_ok y"
  using assms(2,3) by (induction rule: rtranclp_induct) (auto intro: kstep_ok [OF assms(1)])

section \<open>Reading a line in steps\<close>

text \<open>Steps of the shell alone.\<close>

definition shell_alone :: "shell_state \<times> keyboard \<times> screen \<Rightarrow> shell_state \<times> keyboard \<times> screen \<Rightarrow> bool" where
  "shell_alone = (\<lambda>(sh, k, s) t. shell_step sh k s = Inr t)"

lemma reading_step:
  assumes "shell_char index input k s = Inr t" and "shell_alone\<^sup>*\<^sup>* t u"
  shows "shell_alone\<^sup>*\<^sup>* (\<lparr>sh_phase = Reading index, sh_input = input\<rparr>, k, s) u"
proof -
  have "shell_alone (\<lparr>sh_phase = Reading index, sh_input = input\<rparr>, k, s) t" using assms(1) by (simp add: shell_alone_def shell_step_def)
  then show ?thesis using assms(2) by (rule converse_rtranclp_into_rtranclp)
qed

lemma read_by_steps:
  "shell_read k s index input = Inr r \<Longrightarrow> shell_alone\<^sup>*\<^sup>* (\<lparr>sh_phase = Reading index, sh_input = input\<rparr>, k, s)
     (case r of Waiting index' input' k' s' \<Rightarrow> (\<lparr>sh_phase = Reading index', sh_input = input'\<rparr>, k', s')
      | Line input' k' s' \<Rightarrow> (\<lparr>sh_phase = Executing, sh_input = input'\<rparr>, k', s'))"
proof (induction k s index input arbitrary: r rule: shell_read.induct)
  case (1 k s index input)
  obtain g where g: "keyboard_buffer_get k = Inr g" using 1(5) by (subst (asm) shell_read.simps) auto
  show ?case
  proof (cases g)
    case None
    with 1(5) g have "r = Waiting index input k s" by (subst (asm) shell_read.simps) simp
    then show ?thesis by simp
  next
    case (Some a)
    obtain c k1 where a: "a = (c, k1)" by (cases a)
    note g = g [unfolded Some a]
    show ?thesis
    proof (cases "c = 10")
      case True
      with 1(5) g obtain input' where "wr index 0 input = Inr input'" "r = Line input' k1 s" by (subst (asm) shell_read.simps) auto
      moreover from this True g have "shell_char index input k s = Inr (\<lparr>sh_phase = Executing, sh_input = input'\<rparr>, k1, s)"
        by (simp add: shell_char_def)
      ultimately show ?thesis using reading_step [OF _ rtranclp.rtrancl_refl] by simp
    next
      case c: False
      consider "c = 8" "index > 0" | "c = 8" "index = 0" | "c \<noteq> 8" "index < MAX_INPUT_LENGTH - 1" | "c \<noteq> 8" "\<not> index < MAX_INPUT_LENGTH - 1"
        by auto
      then show ?thesis
      proof cases
        case 1
        with "1.prems" g c obtain s1 where s1: "put_string [8, 32, 8, 0] s = Inr s1" "shell_read k1 s1 (index - 1) input = Inr r"
          by (subst (asm) shell_read.simps) auto
        then show ?thesis
          using "1.IH"(1) [OF g refl refl c 1 s1(1) s1(2)] 1 g c by (intro reading_step) (simp_all add: shell_char_def)
      next
        case 2
        with "1.prems" g c have "shell_read k1 s index input = Inr r" by (subst (asm) shell_read.simps) auto
        then show ?thesis using "1.IH"(2) [OF g refl refl c 2(1)] 2 g c by (intro reading_step) (simp_all add: shell_char_def)
      next
        case 3
        with "1.prems" g c obtain input1 where i1: "wr index c input = Inr input1" "shell_read k1 s (Suc index) input1 = Inr r"
          by (subst (asm) shell_read.simps) auto
        then show ?thesis
          using "1.IH"(3) [OF g refl refl c 3 i1(1) i1(2)] 3 g c by (intro reading_step) (simp_all add: shell_char_def)
      next
        case 4
        with "1.prems" g c have "shell_read k1 s index input = Inr r" by (subst (asm) shell_read.simps) auto
        then show ?thesis using "1.IH"(4) [OF g refl refl c 4] 4 g c by (intro reading_step) (simp_all add: shell_char_def)
      qed
    qed
  qed
qed

lemma reachable_never_stuck:
  assumes "switches_current switch" and "system_ok start" and "(kstep dev sv switch)\<^sup>*\<^sup>* start (m, sh)"
  shows "system_ok (m, sh)" "\<exists>m'. isr_handler dev sv switch fault_addr 32 0 m = Inr m'"
    "\<exists>m'. isr_handler dev sv switch fault_addr 33 0 m = Inr m'"
    "\<exists>sh' k s. shell_step sh (m_keyboard m) (m_screen m) = Inr (sh', k, s)"
proof -
  show "system_ok (m, sh)" using reachable_ok [OF assms(1,3,2)] .
  then have ok: "keyboard_inv (m_keyboard m)" "screen_inv (m_screen m)" "sched_ok (m_sched m)" "shell_ok (sh_phase sh) (sh_input sh)"
    by (simp_all add: system_ok_def)
  show "\<exists>m'. isr_handler dev sv switch fault_addr 32 0 m = Inr m'" "\<exists>m'. isr_handler dev sv switch fault_addr 33 0 m = Inr m'"
    "\<exists>sh' k s. shell_step sh (m_keyboard m) (m_screen m) = Inr (sh', k, s)"
    using irq_ok [OF assms(1) ok(1-3), of 32 dev sv fault_addr] irq_ok [OF assms(1) ok(1-3), of 33 dev sv fault_addr]
      shell_step_ok [OF ok(1,2,4)] by (auto simp: vectors)
qed

section \<open>Properties\<close>

text \<open>
  C7. The kernel at its prompt never gets stuck. However timer interrupts, keyboard interrupts and steps of the
  shell interleave, every state reached from a well-formed one is well formed: the keyboard's ring, the screen, the
  ready queue and the shell's input buffer keep their invariants. And in each of them every interrupt returns
  and the shell's next step is defined, so nothing ever reads or writes outside its buffers.
\<close>

theorem system_never_stuck:
  assumes "switches_current switch" and "system_ok start" and "(kstep dev sv switch)\<^sup>*\<^sup>* start (m, sh)"
  shows "system_ok (m, sh)
     \<and> (\<exists>m'. isr_handler dev sv switch fault_addr 32 0 m = Inr m') \<and> (\<exists>m'. isr_handler dev sv switch fault_addr 33 0 m = Inr m')
     \<and> (\<exists>sh' k s. shell_step sh (m_keyboard m) (m_screen m) = Inr (sh', k, s))"
  using reachable_never_stuck [OF assms] by simp


definition at_prompt :: "unit machine \<times> shell_state" where
  "at_prompt = (idle_machine, \<lparr>sh_phase = Prompting, sh_input = replicate 128 0\<rparr>)"

theorem system_never_stuck_witness:
  "\<exists>m' m''. kstep (\<lambda>_ _. 0x1E) idle_services plain_switch at_prompt (m', snd at_prompt)
     \<and> isr_handler (\<lambda>_ _. 0x1E) idle_services plain_switch 0 32 0 m' = Inr m''"
proof -
  let ?dev = "\<lambda>_ _. 0x1E :: u32"
  have sw: "switches_current plain_switch" by (simp add: switches_current_def plain_switch_def)
  have "screen_inv (m_screen idle_machine)" using idle_machine_ok(2) by (rule shows_rows_inv)
  moreover have "sched_ok (m_sched idle_machine)" by (simp add: sched_ok_def idle_machine_def sched_static_def)
  ultimately have ok: "system_ok at_prompt" using idle_machine_ok(1) by (simp add: system_ok_def at_prompt_def)
  have p: "at_prompt = (idle_machine, snd at_prompt)" by (simp add: at_prompt_def)
  have "(kstep ?dev idle_services plain_switch)\<^sup>*\<^sup>* at_prompt (idle_machine, snd at_prompt)" by (subst p) simp
  from system_never_stuck [OF sw ok this, where fault_addr = 0] obtain m' where
    "isr_handler ?dev idle_services plain_switch 0 33 0 idle_machine = Inr m'" by blast
  then have k: "kstep ?dev idle_services plain_switch at_prompt (m', snd at_prompt)"
    by (subst p) (rule kstep.irq, simp_all add: vectors)
  then have "(kstep ?dev idle_services plain_switch)\<^sup>*\<^sup>* at_prompt (m', snd at_prompt)" by simp
  from system_never_stuck [OF sw ok this, where fault_addr = 0] k show ?thesis by blast
qed


end
