(* ===== verification/Boot.thy ===== *)
theory Boot
  imports Vmm_Init Vmm_Swap Kmalloc_Properties
begin

text \<open>
  The memory managers put together: the address space \<open>vmm_init\<close> leaves behind is one the heap can be built
  in, although all its page tables are the page at physical address 0.
\<close>

section \<open>The address space after vmm_init\<close>

text \<open>Entry \<open>j\<close> of the one page table.\<close>

definition pt :: "'h vmm \<Rightarrow> u32 \<Rightarrow> u32" where
  "pt s j = mem s (entry_addr 0 j)"

definition booted :: "'h vmm \<Rightarrow> bool" where
  "booted s \<longleftrightarrow> paging_enabled s \<and> aligned (cr3 s) \<and> cr3 s \<noteq> 0 \<and> current_directory s = cr3 s
     \<and> get_directory_index (cr3 s) \<noteq> 1023 \<and> (\<forall>i < 1023. pde s i = KERNEL_PAGE_FLAGS)
     \<and> is_page_present (pde s 1023) \<and> get_frame_addr (pde s 1023) = cr3 s
     \<and> is_page_present (pt s (get_table_index (cr3 s))) \<and> get_frame_addr (pt s (get_table_index (cr3 s))) = cr3 s"

lemma booted_translate:
  assumes "booted s" and "get_directory_index v \<noteq> 1023"
  shows "translate s v = (if is_page_present (pt s (get_table_index v))
     then Some (get_frame_addr (pt s (get_table_index v)) + get_frame_offset v) else None)"
  using assms index_below_1023 [OF assms(2)] by (simp add: booted_def translate_eq kernel_page_flags Let_def pt_def)

lemma booted_base: "booted s \<Longrightarrow> vm_base s"
  using booted_translate [of s "cr3 s"] by (simp add: booted_def vm_base_def get_frame_offset_def aligned_def)

text \<open>What keeps it so: writes outside the directory and the entry that maps the directory.\<close>

lemma entry_frame: "aligned a \<Longrightarrow> i < 1024 \<Longrightarrow> get_frame_addr (entry_addr a i) = a"
  using frame_of_sum quad_less by (simp add: entry_addr_def)

lemma booted_frame:
  assumes "booted s" and "\<And>i. i < 1024 \<Longrightarrow> m (entry_addr (cr3 s) i) = mem s (entry_addr (cr3 s) i)"
    and "m (entry_addr 0 (get_table_index (cr3 s))) = pt s (get_table_index (cr3 s))"
  shows "booted (s\<lparr>mem := m\<rparr>)"
proof -
  have "i < 1024" if "i < 1023" for i :: u32 using that by (simp add: word_less_nat_alt)
  then show ?thesis using assms by (simp add: booted_def pde_def pt_def)
qed

lemma booted_set_pt:
  assumes "booted s" and "j < 1024" and "j \<noteq> get_table_index (cr3 s)"
  shows "booted (s\<lparr>mem := (mem s)(entry_addr 0 j := x)\<rparr>)"
proof (rule booted_frame [OF assms(1)])
  fix i :: u32 assume "i < 1024"
  then show "((mem s)(entry_addr 0 j := x)) (entry_addr (cr3 s) i) = mem s (entry_addr (cr3 s) i)"
    using assms(1,2) entry_addr_inject [of "cr3 s" 0 i j] by (simp add: booted_def aligned_def)
qed (use assms table_entry_inject in \<open>simp add: pt_def\<close>)

lemma booted_within:
  assumes "booted s" and "within f s s'" and "f \<noteq> 0" and "f \<noteq> cr3 s"
  shows "booted s'" and "pt s' j = pt s j \<or> \<not> j < 1024"
proof -
  obtain m where m: "s' = s\<lparr>mem := m\<rparr>" "\<forall>p. get_frame_addr p \<noteq> f \<longrightarrow> m p = mem s p" using assms(2) by (auto simp: within_def)
  have z: "aligned (0 :: u32)" by (simp add: aligned_def)
  then show "booted s'"
    unfolding m(1) using assms m(2) entry_frame [of "cr3 s"] entry_frame [of 0]
    by (intro booted_frame) (auto simp: booted_def pt_def)
  show "pt s' j = pt s j \<or> \<not> j < 1024" using assms(3) m entry_frame [OF z, of j] by (auto simp: pt_def)
qed

lemma update_booted:
  assumes "booted s" and "get_directory_index v \<noteq> 1023"
  shows "update g (entry_addr (get_page_table_vir_addr (get_directory_index v)) (get_table_index v)) s =
     Inr (s\<lparr>mem := (mem s)(entry_addr 0 (get_table_index v) := g (pt s (get_table_index v)))\<rparr>)"
proof -
  have "pde s (get_directory_index v) = KERNEL_PAGE_FLAGS"
    using assms(1) index_below_1023 [OF assms(2)] by (simp add: booted_def)
  then have "translate s (entry_addr (get_page_table_vir_addr (get_directory_index v)) (get_table_index v)) =
      Some (entry_addr 0 (get_table_index v))"
    using base_window_translate [OF booted_base [OF assms(1)] index_range(1) [of v] index_range(2) [of v]]
    by (simp add: kernel_page_flags)
  then show ?thesis by (simp add: update_def load_def store_def pt_def)
qed

lemma booted_map_page:
  assumes "booted s" and "get_directory_index v \<noteq> 1023" and "get_table_index v \<noteq> get_table_index (cr3 s)"
  shows "vmm_map_page_to_curr_dir sv v p flags s =
     Inr (s\<lparr>mem := (mem s)(entry_addr 0 (get_table_index v) := map_entry flags p (pt s (get_table_index v)))\<rparr>)"
proof -
  have b: "cr3 s \<noteq> 0" "current_directory s = cr3 s" "paging_enabled s" using assms(1) by (simp_all add: booted_def)
  have "load (entry_addr (cr3 s) (get_directory_index v)) s = Inr KERNEL_PAGE_FLAGS"
    using base_directory_translate [OF booted_base [OF assms(1)] index_range(1) [of v]] assms(1) index_below_1023 [OF assms(2)]
    by (simp add: load_def booted_def flip: pde_def)
  then have "vmm_page_table_for sv (cr3 s) (get_directory_index v) s = Inr (get_page_table_vir_addr (get_directory_index v), s)"
    using b(3) by (simp add: vmm_page_table_for_def get_page_table_addr_def kernel_page_flags)
  moreover have "update g (entry_addr (get_page_table_vir_addr (get_directory_index v)) (get_table_index v))
      (s\<lparr>mem := (mem s)(entry_addr 0 (get_table_index v) := x)\<rparr>) =
      Inr (s\<lparr>mem := (mem s)(entry_addr 0 (get_table_index v) := g x)\<rparr>)" for g x
    using update_booted [OF booted_set_pt [OF assms(1) index_range(2) assms(3), of x] assms(2), of g] by (simp add: pt_def)
  ultimately show ?thesis
    using b assms(2) update_booted [OF assms(1,2)]
    by (simp add: vmm_map_page_to_curr_dir_def vmm_map_page_def page_entry_set_frame_def page_entry_add_attrib_def
        map_entry_def)
qed

lemma booted_data_page:
  assumes "booted s" and "aligned v" and "get_directory_index v \<noteq> 1023" and "is_page_present (pt s (get_table_index v))"
    and "get_frame_addr (pt s (get_table_index v)) = f" and "f \<noteq> 0" and "f \<noteq> cr3 s"
  shows "data_page s v f"
proof -
  have "aligned f" using assms(5) by auto
  moreover have "translate s v = Some f"
    using assms booted_translate [OF assms(1,3)] by (simp add: get_frame_offset_def aligned_def)
  moreover have "pde s (get_directory_index v) = KERNEL_PAGE_FLAGS"
    using assms(1) index_below_1023 [OF assms(3)] by (simp add: booted_def)
  ultimately show ?thesis
    using assms by (intro data_page_mapped) (simp_all add: booted_def kernel_page_flags)
qed

section \<open>Building the heap\<close>

definition slab_page :: "nat \<Rightarrow> u32" where "slab_page i = 0x8000000 + of_nat i * 4096"
definition slab_frame :: "nat \<Rightarrow> u32" where "slab_frame i = 0x4000000 + of_nat i * 4096"

lemma below_8: "i < 8 \<Longrightarrow> i = 0 \<or> i = 1 \<or> i = 2 \<or> i = 3 \<or> i = 4 \<or> i = 5 \<or> i = 6 \<or> i = (7 :: nat)"
  by arith

lemma slab_page_facts:
  assumes "i < 8"
  shows "aligned (slab_page i)" "get_directory_index (slab_page i) \<noteq> 1023" "get_table_index (slab_page i) = of_nat i"
    "aligned (slab_frame i)" "slab_frame i \<noteq> 0" "get_frame_addr (slab_frame i) = slab_frame i" "slab_page i \<noteq> 0"
    "frame_no (slab_frame i) = 16384 + i" "cache_sizes ! i \<in> set cache_sizes" "0 < slab_capacity (cache_sizes ! i)"
    "slab_frame i + 0x4000000 = slab_page i" "slab_frame i \<le> 0x4000000 + KERNEL_HEAP_SIZE"
  by (insert below_8 [OF assms]) ((elim disjE; simp add: slab_page_def slab_frame_def aligned_def get_directory_index_def get_table_index_def get_frame_addr_def
      frame_no_def cache_sizes_def slab_capacity_def KERNEL_HEAP_SIZE_def PMM_BLOCK_SIZE_def NUM_CACHES_def EXTRA_BLOCKS_def)+)

lemma slab_frame_inject: "i < 8 \<Longrightarrow> j < 8 \<Longrightarrow> slab_frame i = slab_frame j \<longleftrightarrow> i = j"
  using slab_page_facts(8) [of i] slab_page_facts(8) [of j] by (metis add_left_cancel)

text \<open>The heap's share of the state at step \<open>i\<close> of \<open>init_kmalloc\<close>.\<close>

definition heap_ready :: "nat \<Rightarrow> kvm \<Rightarrow> bool" where
  "heap_ready i s \<longleftrightarrow> booted s \<and> heap_base s = 0x4000000 \<and> current_heap_addr (heap s) = slab_frame i
     \<and> length (caches (heap s)) = 8 \<and> (\<forall>j < 8. of_nat j \<noteq> get_table_index (cr3 s) \<and> slab_frame j \<noteq> cr3 s)
     \<and> (\<forall>j < i. is_page_present (pt s (of_nat j)) \<and> get_frame_addr (pt s (of_nat j)) = slab_frame j)
     \<and> (\<forall>j < i. caches (heap s) ! j = slab_page j \<and> slab_holds s (slab_page j) (slab_frame j)
           (map (object_at (cache_sizes ! j)) [0 ..< slab_capacity (cache_sizes ! j)]))"

text \<open>A slab survives writes to other frames that keep its page mapped.\<close>

lemma free_chain_cong: "\<forall>b \<in> set bs. w b = w' b \<Longrightarrow> free_chain slab w p bs \<longleftrightarrow> free_chain slab w' p bs"
  by (induction bs arbitrary: p) auto

lemma slab_holds_cong:
  assumes "slab_holds s slab f bs" and "data_page s' slab f" and "\<And>p. get_frame_addr p = f \<Longrightarrow> mem s' p = mem s p"
  shows "slab_holds s' slab f bs"
proof -
  have "aligned f" using assms(2) by (simp add: data_page_def)
  then have w: "words_of f s' b = words_of f s b" if "b < 4096" for b
    using assms(3) [of "f + b"] frame_of_sum [of f b] that by (simp add: words_of_def)
  then have "free_chain slab (words_of f s') p bs \<longleftrightarrow> free_chain slab (words_of f s) p bs" for p
    using assms(1) by (intro free_chain_cong) (auto simp: slab_holds_def)
  then show ?thesis using assms(1,2) w [of 4] w [of 12] by (simp add: slab_holds_def)
qed

lemma heap_irrelevant [simp]: "booted (s\<lparr>heap := h\<rparr>) = booted s" "pt (s\<lparr>heap := h\<rparr>) = pt s"
  by (auto simp: booted_def pde_def pt_def)

lemma slab_holds_heap [simp]: "slab_holds (s\<lparr>heap := h\<rparr>) slab f bs = slab_holds s slab f bs"
proof -
  have "words_of f (s\<lparr>heap := h\<rparr>) = words_of f s" by (simp add: words_of_def fun_eq_iff)
  then show ?thesis by (simp add: slab_holds_def data_page_def translate_def)
qed

lemma create_slab_page:
  assumes "data_page s slab f" and "0 < slab_capacity os"
  shows "\<exists>s'. bind_run (store (slab_object_size slab) os s) (\<lambda>s.
        bind_run (store (slab_offset slab) 0 s) (\<lambda>s.
        bind_run (store (slab_next slab) 0 s) (\<lambda>s.
        bind_run (init_slab slab os s) (\<lambda>s. Inr (slab, s))))) = Inr (slab, s')
     \<and> slab_holds s' slab f (map (object_at os) [0 ..< slab_capacity os]) \<and> within f s s'"
proof -
  define s3 where "s3 = put_word f 16 0 (put_word f 8 0 (put_word f 0 os s))"
  have f: "aligned f" using assms(1) by (simp add: data_page_def)
  have d: "data_page (put_word f 0 os s) slab f" "data_page (put_word f 8 0 (put_word f 0 os s)) slab f" "data_page s3 slab f"
    using assms(1) by (simp_all add: s3_def)
  obtain s' where s': "init_slab slab os s3 = Inr s'" "slab_holds s' slab f (map (object_at os) [0 ..< slab_capacity os])" "within f s3 s'"
    using init_slab_holds [OF d(3) assms(2)] by blast
  have "within f s s3" unfolding s3_def
    using f by (intro within_trans [OF within_trans [OF within_put within_put] within_put]) simp_all
  moreover have "store slab os s = Inr (put_word f 0 os s)" using data_page_access(2) [OF assms(1), of 0] by simp
  ultimately show ?thesis
    using s' data_page_access(2) [OF d(1), of 8 0] data_page_access(2) [OF d(2), of 16 0]
    by (auto simp: slab_fields s3_def intro: within_trans)
qed

text \<open>What building the caches leaves alone.\<close>

definition same_rest :: "kvm \<Rightarrow> kvm \<Rightarrow> bool" where
  "same_rest s s' \<longleftrightarrow> pmm s' = pmm s \<and> cr3 s' = cr3 s \<and> current_large_heap_addr (heap s') = current_large_heap_addr (heap s)
     \<and> large_allocations (heap s') = large_allocations (heap s) \<and> same_queue s s'"

text \<open>Step \<open>i\<close> of the loop: the page is mapped, giving \<open>s1\<close>, and then only its frame is written.\<close>

lemma heap_ready_step:
  assumes "heap_ready i s" and "i < 8" and "booted s'" and "within (slab_frame i) s1 s'"
    and "\<And>j. j < 1024 \<Longrightarrow> pt s' j = pt s1 j"
    and "s1 = s\<lparr>heap := (heap s)\<lparr>current_heap_addr := slab_frame i + 4096\<rparr>, mem := (mem s)(entry_addr 0 (of_nat i) := x)\<rparr>"
    and "is_page_present x" and "get_frame_addr x = slab_frame i"
    and "slab_holds s' (slab_page i) (slab_frame i) (map (object_at (cache_sizes ! i)) [0 ..< slab_capacity (cache_sizes ! i)])"
  shows "heap_ready (Suc i) (set_cache i (slab_page i) s')"
proof -
  obtain m where m: "s' = s1\<lparr>mem := m\<rparr>" "\<forall>p. get_frame_addr p \<noteq> slab_frame i \<longrightarrow> m p = mem s1 p"
    using assms(4) by (auto simp: within_def)
  have sel: "cr3 s' = cr3 s" "heap_base s' = heap_base s" "heap s' = (heap s)\<lparr>current_heap_addr := slab_frame i + 4096\<rparr>"
    by (simp_all add: m(1) assms(6))
  have h: "heap_base s = 0x4000000" "length (caches (heap s)) = 8"
      "\<And>j. j < 8 \<Longrightarrow> of_nat j \<noteq> get_table_index (cr3 s) \<and> slab_frame j \<noteq> cr3 s"
    using assms(1) by (simp_all add: heap_ready_def)
  have i: "(of_nat i :: u32) < 1024" using index_range(2) [of "slab_page i"] slab_page_facts(3) [OF assms(2)] by simp
  have old: "is_page_present (pt s' (of_nat j)) \<and> get_frame_addr (pt s' (of_nat j)) = slab_frame j
      \<and> slab_holds s' (slab_page j) (slab_frame j) (map (object_at (cache_sizes ! j)) [0 ..< slab_capacity (cache_sizes ! j)])"
    if "j < i" for j
  proof -
    have j: "j < 8" using that assms(2) by simp
    note pj = slab_page_facts [OF j]
    have j1: "(of_nat j :: u32) < 1024" using index_range(2) [of "slab_page j"] pj(3) by simp
    have ne: "slab_frame j \<noteq> slab_frame i" using slab_frame_inject [OF j assms(2)] that by simp
    have "(of_nat j :: u32) \<noteq> of_nat i"
      using unat_of_nat_exact [of j, where 'a = 32] unat_of_nat_exact [of i, where 'a = 32] that assms(2) by fastforce
    then have "pt s1 (of_nat j) = pt s (of_nat j)" using table_entry_inject [OF i j1] by (simp add: assms(6) pt_def)
    then have p: "is_page_present (pt s' (of_nat j))" "get_frame_addr (pt s' (of_nat j)) = slab_frame j"
      using assms(5) [OF j1] that assms(1) by (auto simp: heap_ready_def)
    then have "data_page s' (slab_page j) (slab_frame j)"
      using booted_data_page [OF assms(3) pj(1,2)] pj(3,5) h(3) [OF j] sel(1) by simp
    moreover have "mem s' p = mem s p" if "get_frame_addr p = slab_frame j" for p
    proof -
      have "p \<noteq> entry_addr 0 (of_nat i)" using that pj(5) entry_frame [OF _ i, of 0] by (auto simp: aligned_def)
      then show ?thesis using that m ne by (simp add: assms(6))
    qed
    ultimately show ?thesis using p that assms(1) by (auto simp: heap_ready_def intro: slab_holds_cong)
  qed
  have "pt s' (of_nat i) = x" using assms(5) [OF i] by (simp add: assms(6) pt_def)
  moreover have "slab_frame (Suc i) = slab_frame i + 4096" by (simp add: slab_frame_def algebra_simps)
  ultimately show ?thesis
    using sel h old assms(1-3,7-9) by (auto simp: heap_ready_def set_cache_def less_Suc_eq nth_list_update)
qed

lemma create_slab_booted:
  assumes "heap_ready i s" and "i < 8"
  shows "\<exists>s'. create_slab sv (cache_sizes ! i) s = Inr (slab_page i, s') \<and> heap_ready (Suc i) (set_cache i (slab_page i) s') \<and> same_rest s s'"
proof -
  let ?os = "cache_sizes ! i" and ?v = "slab_page i" and ?f = "slab_frame i"
  let ?s = "s\<lparr>heap := (heap s)\<lparr>current_heap_addr := ?f + 4096\<rparr>\<rparr>"
  note pf = slab_page_facts [OF assms(2)]
  have h: "booted ?s" "heap_base s = 0x4000000" "current_heap_addr (heap s) = ?f"
      "of_nat i \<noteq> get_table_index (cr3 s)" "?f \<noteq> cr3 s"
    using assms by (simp_all add: heap_ready_def)
  define x where "x = map_entry PAGE_WRITEABLE ?f (pt s (of_nat i))"
  define s1 where "s1 = s\<lparr>heap := (heap s)\<lparr>current_heap_addr := ?f + 4096\<rparr>, mem := (mem s)(entry_addr 0 (of_nat i) := x)\<rparr>"
  have i: "(of_nat i :: u32) < 1024" using index_range(2) [of ?v] pf(3) by simp
  have x: "get_frame_addr x = ?f" "is_page_present x" "pt s1 (of_nat i) = x"
    using map_entry_frame(1,2) [of PAGE_WRITEABLE] pf(6) by (simp_all add: x_def page_flags s1_def pt_def)
  have map: "vmm_map_page_to_curr_dir sv ?v ?f PAGE_WRITEABLE ?s = Inr s1"
    using booted_map_page [OF h(1) pf(2), of sv ?f PAGE_WRITEABLE] h(4) pf(3) by (simp add: s1_def x_def)
  have b1: "booted s1" using booted_set_pt [OF h(1) i] h(4) by (simp add: s1_def)
  then have "data_page s1 ?v ?f" using booted_data_page [of s1 ?v ?f] pf(1,2,3,5) x h(5) by (simp add: s1_def)
  then obtain s' where s': "bind_run (store (slab_object_size ?v) ?os s1) (\<lambda>s. bind_run (store (slab_offset ?v) 0 s) (\<lambda>s.
        bind_run (store (slab_next ?v) 0 s) (\<lambda>s. bind_run (init_slab ?v ?os s) (\<lambda>s. Inr (?v, s))))) = Inr (?v, s')"
      "slab_holds s' ?v ?f (map (object_at ?os) [0 ..< slab_capacity ?os])" "within ?f s1 s'"
    using create_slab_page [of s1 ?v ?f ?os] pf(10) by blast
  have "create_slab sv ?os s = Inr (?v, s')"
    using h(2,3) pf(11,12) map s'(1)
    by (simp add: create_slab_def assert_run_def convert_to_vir_addr_def PMM_BLOCK_SIZE_def Let_def)
  moreover have "booted s'" "\<And>j. j < 1024 \<Longrightarrow> pt s' j = pt s1 j"
    using booted_within [OF b1 s'(3) pf(5)] h(5) by (auto simp: s1_def)
  moreover have "same_rest s s'" using s'(3) by (auto simp: within_def same_rest_def same_queue_def s1_def)
  ultimately show ?thesis using heap_ready_step [OF assms _ s'(3) _ s1_def x(2,1) s'(2)] by blast
qed

lemma init_caches_booted:
  assumes "heap_ready i s" and "i + n = 8"
  shows "\<exists>s'. init_caches sv i n s = Inr s' \<and> heap_ready 8 s' \<and> same_rest s s'"
  using assms
proof (induction n arbitrary: i s)
  case (Suc n)
  then obtain s' where s': "create_slab sv (cache_sizes ! i) s = Inr (slab_page i, s')" "heap_ready (Suc i) (set_cache i (slab_page i) s')" "same_rest s s'"
    using create_slab_booted [of i s sv] by auto
  have "same_rest s (set_cache i (slab_page i) s')" using s'(3) by (simp add: same_rest_def same_queue_def set_cache_def)
  with s' Suc.IH [of "Suc i" "set_cache i (slab_page i) s'"] Suc.prems slab_page_facts(7) [of i] show ?case
    by (auto simp: same_rest_def same_queue_def)
qed (simp add: same_rest_def)

section \<open>From vmm_init to the first allocation\<close>

lemma kernel_directory_facts:
  assumes "0x100000 \<le> kdir" and "kdir < ke" and "ke \<le> 0x39C000"
  shows "256 \<le> frame_no kdir" "frame_no kdir < 924" "frame_no kdir \<in> reserved_frames (kernel_layout ke)"
    "get_directory_index kdir \<noteq> 1023" "j < 8 \<Longrightarrow> of_nat j \<noteq> get_table_index kdir" "j < 8 \<Longrightarrow> slab_frame j \<noteq> kdir"
proof -
  have u: "0x100000 \<le> unat kdir" "unat kdir < unat ke" "unat ke \<le> 0x39C000"
    using assms by (simp_all add: word_le_nat_alt word_less_nat_alt)
  then show f: "256 \<le> frame_no kdir" "frame_no kdir < 924" by (simp_all add: frame_no_def)
  have "frame_no kdir < 256 + (unat ke - 0x100000 + 4095) div 4096" using u unfolding frame_no_def by simp
  then show "frame_no kdir \<in> reserved_frames (kernel_layout ke)"
    using f(1) assms by (subst reserved_frames_layout) (auto simp: word_le_nat_alt word_less_nat_alt)
  show "get_directory_index kdir \<noteq> 1023" using unat_directory_index [of kdir] f(2) by auto
  have "unat (get_table_index kdir) = frame_no kdir" using unat_table_index [of kdir] f(2) by simp
  then show "of_nat j \<noteq> get_table_index kdir" if "j < 8" using f(1) that unat_of_nat_exact [of j, where 'a = 32] by fastforce
  show "slab_frame j \<noteq> kdir" if "j < 8" using slab_page_facts(8) [OF that] f(2) by auto
qed

lemma vmm_init_booted:
  assumes "0x100000 \<le> kdir" and "kdir < ke" and "ke \<le> 0x39C000" and "aligned kdir" and "\<not> paging_enabled s"
    and "\<forall>i < 1024. mem s (entry_addr kdir i) = 0"
  shows "\<exists>s'. vmm_init sv (kernel_layout ke) kdir s = Inr s' \<and> booted s' \<and> cr3 s' = kdir \<and> heap_base s' = 0x4000000
     \<and> heap s' = heap s \<and> pmm s' = pmm s \<and> same_queue s s'"
proof -
  note kd = kernel_directory_facts [OF assms(1-3)]
  have ke: "0x100000 \<le> ke" using assms(1,2) by simp
  have nz: "kdir \<noteq> 0" using assms(1) by auto
  note pages = layout_pages [OF ke assms(3)]
  obtain m m0 where m: "vmm_init sv (kernel_layout ke) kdir s = Inr (s\<lparr>mem := m, cr3 := kdir, paging_enabled := True,
        current_directory := kdir, heap_base := ALIGN_TO_PAGE (kernel_stack_top (kernel_layout ke))\<rparr>)"
      "mapped (vmm_init_pages (kernel_layout ke)) m0 m" "\<forall>i < 1023. m (entry_addr kdir i) = KERNEL_PAGE_FLAGS"
      "m (entry_addr kdir 1023) = kdir OR KERNEL_PAGE_FLAGS"
    by (rule vmm_init_mem [OF assms(5,4) nz assms(6) pages(1)])
  obtain v' where v': "v' \<in> set (vmm_init_pages (kernel_layout ke))" "frame_no kdir = frame_no v'"
    using kd(3) unfolding vmm_init_pages_reserved [symmetric] by blast
  then have "get_frame_addr kdir = get_frame_addr v'" by (simp add: frame_addr_iff_frame_no)
  note mp = mapped_page [OF m(2) v'(1) this pages(2)]
  have "get_frame_addr (kdir OR KERNEL_PAGE_FLAGS) = kdir" "is_page_present (kdir OR KERNEL_PAGE_FLAGS)"
    using assms(4) get_frame_aligned [of kdir]
    by (simp_all add: get_frame_addr_def is_page_present_def page_flags bit.conj_disj_distrib2)
  then show ?thesis
    using m nz mp kd(4) assms(4) get_frame_aligned [of kdir] heap_base_layout [of ke]
    by (auto simp: booted_def pde_def pt_def same_queue_def ALIGN_TO_PAGE_def ALIGNED_TO_PHYSICAL_PAGE_def PAGE_SIZE_def PMM_BLOCK_SIZE_def)
qed

lemma kmalloc_ready:
  assumes "heap_ready 8 s" and "n \<le> 2048"
  shows "\<exists>i s'. get_cache n = Some i \<and> i < 8 \<and> n \<le> cache_sizes ! i \<and> kmalloc sv n s = Inr (slab_page i + 20, s')"
proof -
  obtain i where i: "get_cache n = Some i" "i < 8" "n \<le> cache_sizes ! i"
    using find_size_spec [of 0 cache_sizes n] assms(2)
    by (cases "get_cache n") (auto simp: get_cache_def cache_sizes_def)
  note pf = slab_page_facts [OF i(2)]
  let ?os = "cache_sizes ! i"
  have "map (object_at ?os) [0 ..< slab_capacity ?os] = object_at ?os 0 # map (object_at ?os) [1 ..< slab_capacity ?os]"
    using pf(10) by (simp add: upt_conv_Cons)
  then have "slab_holds s (slab_page i) (slab_frame i) (20 # map (object_at ?os) [1 ..< slab_capacity ?os])"
    and c: "caches (heap s) ! i = slab_page i"
    using assms(1) i(2) by (auto simp: heap_ready_def object_at_def)
  then obtain s' where s': "alloc_from_slab (slab_page i) s = Inr (slab_page i + 20, s')"
    using alloc_from_slab_pops by blast
  have "slab_page i + 20 \<noteq> 0" using below_8 [OF i(2)] by (auto simp: slab_page_def)
  then have "scan_slabs (slab_page i) s = Some (Inr (slab_page i + 20, s'))"
    using s' pf(7) by (subst scan_slabs.simps) simp
  moreover have "\<not> 2048 < n" using assms(2) by simp
  ultimately have "kmalloc sv n s = Inr (slab_page i + 20, s')"
    using i(1) c \<open>slab_page i + 20 \<noteq> 0\<close>
    by (simp add: kmalloc_def MAX_CACHE_SIZE_def kmalloc_small_def alloc_from_cache_def)
  with i show ?thesis by blast
qed

lemma boot_heap:
  assumes "0x100000 \<le> kdir" and "kdir < ke" and "ke \<le> 0x39C000" and "aligned kdir" and "\<not> paging_enabled s"
    and "\<forall>i < 1024. mem s (entry_addr kdir i) = 0" and "heap s = kheap_static"
  shows "\<exists>s1 s2. vmm_init sv (kernel_layout ke) kdir s = Inr s1 \<and> init_kmalloc sv s1 = Inr s2 \<and> heap_ready 8 s2
     \<and> pmm s2 = pmm s \<and> same_queue s s2 \<and> cr3 s2 = kdir \<and> current_large_heap_addr (heap s2) = 0x406C000 \<and> large_allocations (heap s2) = 0"
proof -
  obtain s1 where s1: "vmm_init sv (kernel_layout ke) kdir s = Inr s1" "booted s1" "cr3 s1 = kdir" "heap_base s1 = 0x4000000"
      "heap s1 = kheap_static" "pmm s1 = pmm s" "same_queue s s1"
    using vmm_init_booted [OF assms(1-6)] assms(7) by auto
  have "slab_frame 0 = 0x4000000" by (simp add: slab_frame_def)
  then have "heap_ready 0 (s1\<lparr>heap := (heap s1)\<lparr>current_heap_addr := heap_base s1,
      current_large_heap_addr := heap_base s1 + KERNEL_HEAP_SIZE\<rparr>\<rparr>)"
    using s1 kernel_directory_facts(5,6) [OF assms(1-3)] by (simp add: heap_ready_def kheap_static_def)
  then obtain s2 where s2: "init_kmalloc sv s1 = Inr s2" "heap_ready 8 s2"
      "same_rest (s1\<lparr>heap := (heap s1)\<lparr>current_heap_addr := heap_base s1, current_large_heap_addr := heap_base s1 + KERNEL_HEAP_SIZE\<rparr>\<rparr>) s2"
    using init_caches_booted [of 0 _ 8 sv] by (auto simp: init_kmalloc_def NUM_CACHES_def)
  have "KERNEL_HEAP_SIZE = 0x6C000" by (simp add: KERNEL_HEAP_SIZE_def PMM_BLOCK_SIZE_def NUM_CACHES_def EXTRA_BLOCKS_def)
  with s1 s2 show ?thesis by (auto simp: same_rest_def same_queue_def kheap_static_def)
qed

text \<open>
  The memory managers boot: on the build's layout, with the kernel directory inside the image, \<open>vmm_init\<close> and
  then \<open>init_kmalloc\<close> return, each of the eight caches has a slab with all its objects free in a page of its own
  backed by a frame \<open>pmm_init\<close> reserved, and the first \<open>kmalloc\<close> of at most 2048 bytes returns the first object of
  the smallest cache that fits.
\<close>

theorem boot_heap_serves:
  assumes "0x100000 \<le> kdir" and "kdir < ke" and "ke \<le> 0x39C000" and "aligned kdir" and "\<not> paging_enabled s"
    and "\<forall>i < 1024. mem s (entry_addr kdir i) = 0" and "heap s = kheap_static" and "n \<le> 2048"
  shows "\<exists>s1 s2. vmm_init sv (kernel_layout ke) kdir s = Inr s1 \<and> init_kmalloc sv s1 = Inr s2
     \<and> (\<forall>i < 8. caches (heap s2) ! i = slab_page i \<and> slab_holds s2 (slab_page i) (slab_frame i)
           (map (object_at (cache_sizes ! i)) [0 ..< slab_capacity (cache_sizes ! i)])
         \<and> frame_no (slab_frame i) \<in> used_frames (snd (pmm_init (kernel_layout ke) p)))
     \<and> (\<exists>i s3. get_cache n = Some i \<and> n \<le> cache_sizes ! i \<and> kmalloc sv n s2 = Inr (slab_page i + 20, s3))"
proof -
  obtain s1 s2 where s: "vmm_init sv (kernel_layout ke) kdir s = Inr s1" "init_kmalloc sv s1 = Inr s2" "heap_ready 8 s2"
    using boot_heap [OF assms(1-7)] by blast
  have ke: "0x100000 \<le> ke" "ke \<le> 0x3F00000" using assms(1-3) by (auto simp: word_le_nat_alt word_less_nat_alt)
  have "frame_no (slab_frame i) \<in> used_frames (snd (pmm_init (kernel_layout ke) p))" if "i < 8" for i
    using slab_page_facts(8) [OF that] that by (simp add: pmm_init_used reserved_frames_layout [OF ke])
  moreover obtain i s3 where "get_cache n = Some i" "n \<le> cache_sizes ! i" "kmalloc sv n s2 = Inr (slab_page i + 20, s3)"
    using kmalloc_ready [OF s(3) assms(8), of sv] by blast
  ultimately show ?thesis using s by (auto simp: heap_ready_def)
qed

text \<open>The boot machine with the heap's static variables.\<close>

definition boot_kvm :: kvm where
  "boot_kvm = \<lparr>mem = (\<lambda>_. 0), cr3 = 0, paging_enabled = False, current_directory = 0, fifo_nodes = Map.empty, fifo_head = 0,
     fifo_tail = 0, fifo_count = 0, pmm = pmm_static, slots = slots_static, heap_base = 0, heap = kheap_static\<rparr>"

theorem boot_heap_serves_witness:
  "\<exists>s1 s2 s3. vmm_init idle_services (kernel_layout 0x110000) 0x108000 boot_kvm = Inr s1 \<and> init_kmalloc idle_services s1 = Inr s2
     \<and> kmalloc idle_services 100 s2 = Inr (0x8003014, s3)"
proof -
  have "get_cache 100 = Some 3" by (simp add: get_cache_def cache_sizes_def)
  then show ?thesis
    using boot_heap_serves [of "0x108000" "0x110000" boot_kvm 100 idle_services pmm_static]
    by (auto simp: boot_kvm_def aligned_def slab_page_def)
qed

end
