(* ===== verification/Vmm_Fault.thy ===== *)
theory Vmm_Fault
  imports Vmm_Swap
begin

text \<open>
  Page faults on demand: what \<open>page_fault_handler\<close> of memory/vmm.c does to the address space when the page was never
  given a frame, and what it does with a protection fault.
\<close>

section \<open>The queue does not touch the address space\<close>

lemma translate_cong: "mem s' = mem s \<Longrightarrow> cr3 s' = cr3 s \<Longrightarrow> paging_enabled s' = paging_enabled s \<Longrightarrow> translate s' = translate s"
  by (rule ext) (simp add: translate_def)

lemma enqueue_keeps_space:
  assumes "page_fifo_enqueue node s = Inr s'"
  shows "translate s' = translate s" "pmm s' = pmm s" "mem s' = mem s"
  using assms by (auto simp: page_fifo_enqueue_def intro!: translate_cong split: if_splits)

text \<open>What the queue asks of \<open>kmalloc\<close>: a fresh node, with the queue, the frames and every translation left as they are.\<close>

definition node_service :: "'h services \<Rightarrow> u32 list \<Rightarrow> bool" where
  "node_service sv as \<longleftrightarrow> (\<forall>s. \<exists>node s1. sv_kmalloc sv 8 s = Inr (node, s1) \<and> node \<noteq> 0 \<and> node \<notin> set as \<and> same_queue s s1
     \<and> pmm s1 = pmm s \<and> translate s1 = translate s)"

lemma page_enqueue_keeps_space:
  assumes "page_queue s as" and "length as + 1 < 2 ^ 32" and "node_service sv as"
  shows "\<exists>node s'. page_enqueue sv v s = Inr (True, s') \<and> page_queue s' (as @ [node])
     \<and> queued_pages s' (as @ [node]) = queued_pages s as @ [v] \<and> translate s' = translate s \<and> pmm s' = pmm s"
proof -
  obtain node s1 where n: "sv_kmalloc sv 8 s = Inr (node, s1)" "node \<noteq> 0" "node \<notin> set as" "same_queue s s1"
      "pmm s1 = pmm s" "translate s1 = translate s"
    using assms(3) unfolding node_service_def by blast
  let ?s = "s1\<lparr>fifo_nodes := (fifo_nodes s1)(node \<mapsto> \<lparr>pf_vir_addr = v, pf_next = 0\<rparr>)\<rparr>"
  obtain s' where s': "page_fifo_enqueue node ?s = Inr s'" "page_queue s' (as @ [node])" "queued_pages s' (as @ [node]) = queued_pages s1 as @ [v]"
    using enqueue_appends [of s1 as node v] assms(1,2) n(2,3) page_queue_same(1) [OF n(4)] by blast
  have "translate ?s = translate s1" by (rule translate_cong) simp_all
  then show ?thesis
    using s' n enqueue_keeps_space [OF s'(1)] page_queue_same(2) [OF n(4)] by (auto simp: page_enqueue_def Let_def)
qed

section \<open>Giving a page a frame\<close>

lemma mappable_pmm [simp]: "mappable (s\<lparr>pmm := p\<rparr>) v = mappable s v" "pte_addr (s\<lparr>pmm := p\<rparr>) v = pte_addr s v"
proof -
  have t: "translate (s\<lparr>pmm := p\<rparr>) = translate s" by (rule translate_cong) simp_all
  show "mappable (s\<lparr>pmm := p\<rparr>) v = mappable s v" "pte_addr (s\<lparr>pmm := p\<rparr>) v = pte_addr s v"
    by (simp_all add: mappable_def vm_ok_def pde_def pte_addr_def t)
qed

lemma alloc_permanent_window:
  assumes "mappable s v" and "pmm_alloc_frame (pmm s) = (frame, p)" and "frame \<noteq> PMM_NO_FRAME_AVAILABLE"
  shows "vmm_alloc_permanent_page sv (entry_addr (get_page_table_vir_addr (get_directory_index v)) (get_table_index v)) s =
     Inr (True, set_pte v (entry_add_attrib PRESENT (entry_set_frame frame (mem s (pte_addr s v)))) (s\<lparr>pmm := p\<rparr>))"
proof -
  let ?s = "s\<lparr>pmm := p\<rparr>"
  have m: "mappable ?s v" using assms(1) by simp
  show ?thesis
    using assms(2,3) update_window [OF m] update_window_again [OF m]
    by (simp add: vmm_alloc_permanent_page_def frame_or_swap_def vmm_alloc_frame_def page_entry_set_frame_def page_entry_add_attrib_def)
qed

lemma same_queue_set_pte: "same_queue s (set_pte v x (s\<lparr>pmm := p\<rparr>))"
  by (simp add: same_queue_def set_pte_def)

section \<open>Properties\<close>


text \<open>
  Protection faults. When the page was present, nothing is repaired, copy-on-write being a stub: a fault
  from user mode returns with the machine as it was, so the instruction faults again, and one from the kernel panics.
\<close>

theorem page_fault_protection:
  assumes "vm_ok s" and "is_page_present (pde s (get_directory_index v))" and "\<not> is_swapped (pde s (get_directory_index v))"
    and "is_page_present_error err"
  shows "page_fault_handler sv v err s =
     (if is_page_user_error err then Inr s
      else Inl (Panic ''Permission error in kernel mode. how tf did we mange to get here?''))"
  using get_page_entry_window [OF assms(1-3), of sv] assms(4) by (simp add: page_fault_handler_def is_cow_def)

text \<open>Services whose heap always has the same node.\<close>

definition one_node_services :: "unit services" where
  "one_node_services = idle_services\<lparr>sv_kmalloc := (\<lambda>n s. Inr (0x300, s))\<rparr>"


theorem page_fault_protection_witness:
  "page_fault_handler idle_services 0x1008 5 small_space = Inr small_space"
  using page_fault_protection [where sv = idle_services and v = "0x1008" and err = 5, OF small_space_ok] small_space_pde [of 0]
  by (simp add: entry_eval is_page_present_error_def is_page_user_error_def)

end
