(* ===== verification/Large_Pages.thy ===== *)
theory Large_Pages
  imports Boot Vmm_Fault
begin

text \<open>
  The pages of the large blocks of memory/kmalloc.c in the address space the kernel boots into: the loops that map
  a run of pages above the heap and unmap it again, with the frames they take and give back.
\<close>

section \<open>The pages\<close>

text \<open>Page \<open>q\<close> above the heap and its index in the one page table; index 184 is that of the VGA buffer.\<close>

definition large_page :: "nat \<Rightarrow> u32" where "large_page q = 0x406C000 + of_nat q * 4096"
definition large_index :: "nat \<Rightarrow> u32" where "large_index q = of_nat (108 + q)"

lemma large_page_facts:
  assumes "q < 916"
  shows "unat (large_page q) = 0x406C000 + q * 4096" "frame_no (large_page q) = 16492 + q" "aligned (large_page q)"
    "get_directory_index (large_page q) \<noteq> 1023" "get_table_index (large_page q) = large_index q" "unat (large_index q) = 108 + q"
    "large_index q < 1024" "get_frame_offset (large_page q) = 0"
proof -
  have "unat (of_nat q * 4096 :: u32) = q * 4096" using assms by (subst unat_mult_exact) (simp_all add: unat_of_nat_exact)
  then show u: "unat (large_page q) = 0x406C000 + q * 4096" using assms by (simp add: large_page_def unat_add_exact)
  then show f: "frame_no (large_page q) = 16492 + q" by (simp add: frame_no_def)
  have "large_page q AND 0xFFF = large_page q mod 4096" by (simp add: and_mask_const take_bit_eq_mod)
  also have "\<dots> = 0" using u by (simp add: word_unat_eq_iff unat_mod mod_add_eq [symmetric])
  finally show "aligned (large_page q)" by (simp add: aligned_def)
  then show "get_frame_offset (large_page q) = 0" by (simp add: get_frame_offset_def aligned_def)
  show "get_directory_index (large_page q) \<noteq> 1023" using unat_directory_index [of "large_page q"] f assms by auto
  show l: "unat (large_index q) = 108 + q" using assms by (simp add: large_index_def unat_of_nat_exact del: of_nat_add)
  then show "large_index q < 1024" using assms by (simp add: word_less_nat_alt)
  show "get_table_index (large_page q) = large_index q"
  proof -
    have "(16492 + q) mod 1024 = (16 * 1024 + (108 + q)) mod 1024" by simp
    also have "\<dots> = 108 + q" using assms unfolding mod_mult_self3 by simp
    finally have "(16492 + q) mod 1024 = 108 + q" .
    then show ?thesis using unat_table_index [of "large_page q"] f l by (simp add: word_unat_eq_iff)
  qed
qed

lemma large_index_inject: "q < 916 \<Longrightarrow> q' < 916 \<Longrightarrow> large_index q = large_index q' \<longleftrightarrow> q = q'"
  using large_page_facts(6) by (metis add_left_cancel)

lemma large_page_inject: "q < 916 \<Longrightarrow> q' < 916 \<Longrightarrow> large_page q = large_page q' \<longleftrightarrow> q = q'"
  using large_page_facts(2) by (metis add_left_cancel)

lemma large_page_add: "large_page k + of_nat i * PMM_BLOCK_SIZE = large_page (k + i)"
  by (simp add: large_page_def PMM_BLOCK_SIZE_def algebra_simps)

text \<open>A state that differs only in the frame allocator and in the table entries of the pages \<open>Q\<close>.\<close>

definition remapped :: "nat set \<Rightarrow> kvm \<Rightarrow> kvm \<Rightarrow> bool" where
  "remapped Q s s' \<longleftrightarrow> (\<exists>m p. s' = s\<lparr>mem := m, pmm := p\<rparr> \<and> (\<forall>a. (\<forall>q \<in> Q. a \<noteq> entry_addr 0 (large_index q)) \<longrightarrow> m a = mem s a))"

lemma remapped_refl [simp]: "remapped Q s s"
  by (auto simp: remapped_def intro!: exI [of _ "mem s"] exI [of _ "pmm s"])

lemma remapped_trans:
  assumes "remapped Q s s1" and "remapped Q s1 s2"
  shows "remapped Q s s2"
proof -
  obtain m1 p1 m2 p2 where "s1 = s\<lparr>mem := m1, pmm := p1\<rparr>" "s2 = s1\<lparr>mem := m2, pmm := p2\<rparr>"
      "\<forall>a. (\<forall>q \<in> Q. a \<noteq> entry_addr 0 (large_index q)) \<longrightarrow> m1 a = mem s a"
      "\<forall>a. (\<forall>q \<in> Q. a \<noteq> entry_addr 0 (large_index q)) \<longrightarrow> m2 a = mem s1 a"
    using assms unfolding remapped_def by blast
  then show ?thesis unfolding remapped_def by (intro exI [of _ m2] exI [of _ p2]) simp
qed

lemma remapped_mono:
  assumes "remapped Q s s'" and "Q \<subseteq> Q'"
  shows "remapped Q' s s'"
proof -
  obtain m p where "s' = s\<lparr>mem := m, pmm := p\<rparr>" "\<forall>a. (\<forall>q \<in> Q. a \<noteq> entry_addr 0 (large_index q)) \<longrightarrow> m a = mem s a"
    using assms(1) unfolding remapped_def by blast
  then show ?thesis using assms(2) unfolding remapped_def by (intro exI [of _ m] exI [of _ p]) blast
qed

lemma remapped_set: "q \<in> Q \<Longrightarrow> remapped Q s (s\<lparr>pmm := p, mem := (mem s)(entry_addr 0 (large_index q) := x)\<rparr>)"
  by (auto simp: remapped_def intro!: exI [of _ "(mem s)(entry_addr 0 (large_index q) := x)"] exI [of _ p])

text \<open>What such a step keeps, while the pages end below the index of the kernel directory.\<close>

definition boot_space :: "kvm \<Rightarrow> bool" where
  "boot_space s \<longleftrightarrow> booted s \<and> 256 \<le> unat (get_table_index (cr3 s))"

lemma remapped_keeps:
  assumes "remapped Q s s'" and "Q \<subseteq> {..<148}"
  shows "heap s' = heap s" "heap_base s' = heap_base s" "cr3 s' = cr3 s" "boot_space s \<Longrightarrow> boot_space s'"
    "get_frame_addr a \<noteq> 0 \<Longrightarrow> mem s' a = mem s a"
    "j < 1024 \<Longrightarrow> j \<notin> large_index ` Q \<Longrightarrow> pt s' j = pt s j"
proof -
  obtain m p where m: "s' = s\<lparr>mem := m, pmm := p\<rparr>" "\<And>a. \<forall>q \<in> Q. a \<noteq> entry_addr 0 (large_index q) \<Longrightarrow> m a = mem s a"
    using assms(1) by (auto simp: remapped_def)
  have q: "large_index q < 1024" "unat (large_index q) < 256" if "q \<in> Q" for q
    using large_page_facts(6,7) [of q] that assms(2) by auto
  have z: "aligned (0 :: u32)" by (simp add: aligned_def)
  show "heap s' = heap s" "heap_base s' = heap_base s" "cr3 s' = cr3 s" using m(1) by simp_all
  show fr: "mem s' a = mem s a" if "get_frame_addr a \<noteq> 0" for a
  proof -
    have "\<forall>q \<in> Q. a \<noteq> entry_addr 0 (large_index q)" using that entry_frame [OF z q(1)] by auto
    then show ?thesis using m by simp
  qed
  show pt: "pt s' j = pt s j" if "j < 1024" "j \<notin> large_index ` Q" for j
  proof -
    have "\<forall>q \<in> Q. entry_addr 0 j \<noteq> entry_addr 0 (large_index q)" using table_entry_inject [OF that(1) q(1)] that(2) by auto
    then show ?thesis using m by (simp add: pt_def)
  qed
  show "boot_space s'" if b: "boot_space s"
  proof -
    have c: "aligned (cr3 s)" "cr3 s \<noteq> 0" using b by (simp_all add: boot_space_def booted_def)
    have "m (entry_addr (cr3 s) i) = mem s (entry_addr (cr3 s) i)" if "i < 1024" for i
      using fr [of "entry_addr (cr3 s) i"] entry_frame [OF c(1) that] c(2) m(1) by simp
    moreover have "get_table_index (cr3 s) \<notin> large_index ` Q" using b q(2) by (fastforce simp: boot_space_def)
    then have "m (entry_addr 0 (get_table_index (cr3 s))) = pt s (get_table_index (cr3 s))"
      using pt [of "get_table_index (cr3 s)"] index_range(2) m(1) by (simp add: pt_def)
    ultimately have "booted (s\<lparr>mem := m\<rparr>)" using b by (intro booted_frame) (simp_all add: boot_space_def)
    then show ?thesis using b m(1) by (simp add: boot_space_def booted_def pde_def pt_def)
  qed
qed

lemma remapped_page:
  assumes "remapped Q s s'" and "Q \<subseteq> {..<148}" and "q < 148" and "q \<notin> Q"
  shows "pt s' (large_index q) = pt s (large_index q)"
proof -
  have "large_index q \<noteq> large_index q'" if "q' \<in> Q" for q'
    using large_index_inject [of q q'] assms(2-4) that by force
  then have "large_index q \<notin> large_index ` Q" by blast
  then show ?thesis using remapped_keeps(6) [OF assms(1,2)] large_page_facts(7) [of q] assms(3) by simp
qed

section \<open>Frames\<close>

text \<open>No one has freed frame 0, whose address reads as failure.\<close>

definition pmm_ok :: "pmm_state \<Rightarrow> bool" where
  "pmm_ok p \<longleftrightarrow> pmm_inv p \<and> (no_hint p \<or> hint_frame p \<noteq> 0)"

lemma valid_frame_aligned: "is_valid_frame_addr a \<Longrightarrow> get_frame_addr a = a"
proof -
  assume "is_valid_frame_addr a"
  then have "unat (a AND 0xFFF) = 0"
    by (simp add: is_valid_frame_addr_iff and_mask_const unsigned_take_bit_eq take_bit_eq_mod unat_mod dvd_imp_mod_0)
  then show ?thesis by (simp add: aligned_def unat_eq_zero flip: get_frame_aligned)
qed

lemma pmm_ok_alloc:
  assumes "pmm_ok p" and "pmm_alloc_frame p = (a, p')"
  shows "pmm_ok p'" "a = 0 \<Longrightarrow> p' = p" "a \<noteq> 0 \<Longrightarrow> frame_no a \<notin> used_frames p" "a \<noteq> 0 \<Longrightarrow> used_frames p' = insert (frame_no a) (used_frames p)"
    "a \<noteq> 0 \<Longrightarrow> is_valid_frame_addr a" "a \<noteq> 0 \<Longrightarrow> get_frame_addr a = a"
proof -
  have inv: "pmm_inv p" using assms(1) by (simp add: pmm_ok_def)
  show z: "p' = p" if "a = 0" using pmm_alloc_zero [OF inv] assms that by (auto simp: pmm_ok_def)
  show "frame_no a \<notin> used_frames p" "used_frames p' = insert (frame_no a) (used_frames p)" if "a \<noteq> 0"
    using pmm_alloc_used [OF inv assms(2) that] by simp_all
  show v: "is_valid_frame_addr a" if "a \<noteq> 0" using pmm_alloc_used [OF inv assms(2) that] by simp
  show "get_frame_addr a = a" if "a \<noteq> 0"
    using v [OF that] by (rule valid_frame_aligned)
  show "pmm_ok p'"
    using pmm_alloc_inv [OF inv assms(2)] pmm_alloc_used [OF inv assms(2)] z assms(1) by (cases "a = 0") (auto simp: pmm_ok_def)
qed

lemma pmm_ok_free:
  assumes "pmm_ok p" and "is_valid_frame_addr a" and "a \<noteq> 0"
  shows "\<exists>p'. pmm_free_frame a p = Inr p' \<and> pmm_ok p' \<and> used_frames p' = used_frames p - {frame_no a}"
proof -
  obtain p' where p': "pmm_free_frame a p = Inr p'" using assms(2) by (simp add: pmm_free_frame_def)
  have "hint_frame p' \<noteq> 0" using pmm_free_spec(4) [OF p'] frame_no_eq_0 [OF assms(2)] assms(3) by simp
  then show ?thesis using p' pmm_free_spec(2,5) [OF p'] assms(1) by (auto simp: pmm_ok_def)
qed

abbreviation alloc_frames :: "nat \<Rightarrow> pmm_state \<Rightarrow> (u32 list \<times> pmm_state) run" where
  "alloc_frames \<equiv> alloc_many (\<lambda>p. Inr (pmm_alloc_frame p))"

lemma alloc_frames_ok:
  "pmm_ok p \<Longrightarrow> alloc_frames n p = Inr (fs, p') \<Longrightarrow> 0 \<notin> set fs \<Longrightarrow>
     pmm_ok p' \<and> length fs = n \<and> (\<forall>a \<in> set fs. is_valid_frame_addr a \<and> get_frame_addr a = a)"
proof (induction n arbitrary: p fs)
  case (Suc n)
  obtain a p1 where a: "pmm_alloc_frame p = (a, p1)" by fastforce
  with Suc.prems obtain gs where gs: "alloc_frames n p1 = Inr (gs, p')" "fs = a # gs" by auto
  then show ?case using Suc.IH [OF pmm_ok_alloc(1) [OF Suc.prems(1) a] gs(1)] pmm_ok_alloc(5,6) [OF Suc.prems(1) a] Suc.prems(3) by auto
qed auto

section \<open>Mapping and unmapping runs of pages\<close>

lemma kernel_not_swapped: "\<not> is_swapped KERNEL_PAGE_FLAGS"
  by (simp add: is_swapped_def page_flags)

lemma booted_window:
  assumes "booted s" and "get_directory_index v \<noteq> 1023"
  shows "translate s (entry_addr (get_page_table_vir_addr (get_directory_index v)) (get_table_index v)) = Some (entry_addr 0 (get_table_index v))"
    "vmm_get_page_entry sv v s = Inr (entry_addr (get_page_table_vir_addr (get_directory_index v)) (get_table_index v), s)"
proof -
  have d: "pde s (get_directory_index v) = KERNEL_PAGE_FLAGS"
    using assms(1) index_below_1023 [OF assms(2)] by (simp add: booted_def)
  then show "translate s (entry_addr (get_page_table_vir_addr (get_directory_index v)) (get_table_index v)) = Some (entry_addr 0 (get_table_index v))"
    using base_window_translate [OF booted_base [OF assms(1)] index_range(1) [of v] index_range(2) [of v]]
    by (simp add: kernel_page_flags)
  have b: "current_directory s = cr3 s" "cr3 s \<noteq> 0" "paging_enabled s" using assms(1) by (simp_all add: booted_def)
  have "load (entry_addr (cr3 s) (get_directory_index v)) s = Inr KERNEL_PAGE_FLAGS"
    using base_directory_translate [OF booted_base [OF assms(1)] index_range(1) [of v]] b(1) d
    by (simp add: load_def flip: pde_def)
  then show "vmm_get_page_entry sv v s = Inr (entry_addr (get_page_table_vir_addr (get_directory_index v)) (get_table_index v), s)"
    using b by (simp add: vmm_get_page_entry_def get_page_entry_body_def get_page_table_addr_def kernel_page_flags
        kernel_not_swapped)
qed

lemma booted_unmap:
  assumes "booted s" and "get_directory_index v \<noteq> 1023" and "is_page_present (pt s (get_table_index v))"
    and "pmm_free_frame (get_frame_addr (pt s (get_table_index v))) (pmm s) = Inr p"
  shows "vmm_unmap_page sv v s = Inr (s\<lparr>pmm := p, mem := (mem s)(entry_addr 0 (get_table_index v) := 0)\<rparr>)"
proof -
  have "translate (s\<lparr>pmm := p\<rparr>) = translate s" by (rule translate_cong) simp_all
  then show ?thesis
    using booted_window(1) [OF assms(1,2)] booted_window(2) [OF assms(1,2), of sv] assms(1,3,4)
    by (simp add: vmm_unmap_page_def vmm_release_frame_def load_def store_def pt_def booted_def)
qed

lemma unmap_pages_ok:
  assumes "boot_space s" and "pmm_ok (pmm s)" and "k + j + length fs \<le> 148"
    and "\<forall>i < length fs. is_page_present (pt s (large_index (k + j + i))) \<and> get_frame_addr (pt s (large_index (k + j + i))) = fs ! i"
    and "\<forall>a \<in> set fs. is_valid_frame_addr a \<and> a \<noteq> 0"
  shows "\<exists>s'. unmap_pages sv (large_page k) j (length fs) s = Inr s' \<and> remapped {k + j ..< k + j + length fs} s s'
     \<and> (\<forall>q \<in> {k + j ..< k + j + length fs}. pt s' (large_index q) = 0) \<and> pmm_ok (pmm s')
     \<and> used_frames (pmm s') = used_frames (pmm s) - frame_no ` set fs"
  using assms
proof (induction fs arbitrary: j s)
  case (Cons a fs)
  let ?q = "k + j" and ?Q = "{k + j ..< k + j + length (a # fs)}"
  note lp = large_page_facts [of ?q]
  have q: "?q < 916" "?q < 148" using Cons.prems(3) by simp_all
  obtain p where p: "pmm_free_frame a (pmm s) = Inr p" "pmm_ok p" "used_frames p = used_frames (pmm s) - {frame_no a}"
    using pmm_ok_free [OF Cons.prems(2), of a] Cons.prems(5) by auto
  define s1 where "s1 = s\<lparr>pmm := p, mem := (mem s)(entry_addr 0 (large_index ?q) := 0)\<rparr>"
  have step: "vmm_unmap_page sv (large_page ?q) s = Inr s1"
    using booted_unmap [of s "large_page ?q" p sv] Cons.prems(1,4) lp(4,5) [OF q(1)] p(1) by (auto simp: boot_space_def s1_def)
  have r: "remapped {?q} s s1" unfolding s1_def by (rule remapped_set) simp
  then have b1: "boot_space s1" using remapped_keeps(4) Cons.prems(1) q(2) by blast
  have k1: "pt s1 (large_index (k + Suc j + i)) = pt s (large_index (k + Suc j + i))" if "i < length fs" for i
    using that q Cons.prems(3) by (intro remapped_page [OF r]) auto
  have pt0: "pt s1 (large_index ?q) = 0" by (simp add: s1_def pt_def)
  have ent: "is_page_present (pt s1 (large_index (k + Suc j + i))) \<and> get_frame_addr (pt s1 (large_index (k + Suc j + i))) = fs ! i"
    if "i < length fs" for i
    using Cons.prems(4) [rule_format, of "Suc i"] k1 [OF that] that by simp
  have "pmm_ok (pmm s1)" "k + Suc j + length fs \<le> 148" "\<forall>a \<in> set fs. is_valid_frame_addr a \<and> a \<noteq> 0"
    using Cons.prems(3,5) p(2) by (simp_all add: s1_def)
  with Cons.IH [OF b1, of "Suc j"] ent obtain s' where s': "unmap_pages sv (large_page k) (Suc j) (length fs) s1 = Inr s'"
      "remapped {k + Suc j ..< k + Suc j + length fs} s1 s'" "\<forall>q \<in> {k + Suc j ..< k + Suc j + length fs}. pt s' (large_index q) = 0"
      "pmm_ok (pmm s')" "used_frames (pmm s') = used_frames (pmm s1) - frame_no ` set fs" by blast
  have "pt s' (large_index ?q) = 0"
    by (subst remapped_page [OF s'(2)]) (use pt0 q(2) Cons.prems(3) in auto)
  then have "\<forall>q \<in> ?Q. pt s' (large_index q) = 0" using s'(3) by (auto simp: le_less Suc_le_eq)
  moreover have "remapped ?Q s s'" using remapped_trans [OF remapped_mono [OF r] remapped_mono [OF s'(2)], of ?Q] by simp
  ultimately show ?case
    using step s' p(3) by (auto simp: large_page_add s1_def)
qed simp

text \<open>One step of the loop that maps a block: page \<open>q\<close> gets the frame \<open>a\<close>.\<close>

lemma map_step:
  assumes "boot_space s" and "q < 148" and "get_frame_addr a = a"
  obtains s' where "vmm_map_page_to_curr_dir sv (large_page q) a PAGE_WRITEABLE (s\<lparr>pmm := p\<rparr>) = Inr s'" "remapped {q} s s'" "pmm s' = p"
    "is_page_present (pt s' (large_index q))" "get_frame_addr (pt s' (large_index q)) = a"
proof
  let ?x = "map_entry PAGE_WRITEABLE a (pt s (large_index q))"
  let ?s = "s\<lparr>pmm := p, mem := (mem s)(entry_addr 0 (large_index q) := ?x)\<rparr>"
  note lp = large_page_facts [of q]
  have "booted (s\<lparr>pmm := p\<rparr>)" using assms(1) by (simp add: boot_space_def booted_def pde_def pt_def)
  moreover have "large_index q \<noteq> get_table_index (cr3 s)" using assms(1,2) lp(6) by (auto simp: boot_space_def)
  ultimately show "vmm_map_page_to_curr_dir sv (large_page q) a PAGE_WRITEABLE (s\<lparr>pmm := p\<rparr>) = Inr ?s"
    using booted_map_page [of "s\<lparr>pmm := p\<rparr>" "large_page q" sv a PAGE_WRITEABLE] lp(4,5) assms(2) by (simp add: pt_def)
  show "remapped {q} s ?s" by (rule remapped_set) simp
  show "pmm ?s = p" by simp
  show "is_page_present (pt ?s (large_index q))" "get_frame_addr (pt ?s (large_index q)) = a"
    using map_entry_frame(1,2) [of PAGE_WRITEABLE a] assms(3) by (simp_all add: page_flags pt_def)
qed

lemma map_large_ok:
  assumes "boot_space s" and "pmm_ok (pmm s)" and "current_large_heap_addr (heap s) = large_page k" and "k + i + n \<le> 148"
    and "alloc_frames n (pmm s) = Inr (fs, p)" and "0 \<notin> set fs"
  shows "\<exists>s'. map_large sv i n s = Inr (True, s') \<and> remapped {k + i ..< k + i + n} s s' \<and> pmm s' = p
     \<and> (\<forall>j < n. is_page_present (pt s' (large_index (k + i + j))) \<and> get_frame_addr (pt s' (large_index (k + i + j))) = fs ! j)"
  using assms
proof (induction n arbitrary: i s fs)
  case (Suc n)
  let ?q = "k + i"
  obtain a p1 gs where a: "pmm_alloc_frame (pmm s) = (a, p1)" "alloc_frames n p1 = Inr (gs, p)" "fs = a # gs"
    using Suc.prems(5) by (auto split: prod.splits)
  have q: "?q < 148" and nz: "a \<noteq> 0" "0 \<notin> set gs" using Suc.prems(4,6) a(3) by auto
  note al = pmm_ok_alloc [OF Suc.prems(2) a(1)]
  obtain s1 where s1: "vmm_map_page_to_curr_dir sv (large_page ?q) a PAGE_WRITEABLE (s\<lparr>pmm := p1\<rparr>) = Inr s1" "remapped {?q} s s1" "pmm s1 = p1"
      "is_page_present (pt s1 (large_index ?q))" "get_frame_addr (pt s1 (large_index ?q)) = a"
    using map_step [OF Suc.prems(1) q al(6) [OF nz(1)]] by blast
  have k1: "boot_space s1" "heap s1 = heap s" using remapped_keeps(1,4) [OF s1(2)] Suc.prems(1) q by auto
  have pre: "pmm_ok (pmm s1)" "current_large_heap_addr (heap s1) = large_page k" "k + Suc i + n \<le> 148" "alloc_frames n (pmm s1) = Inr (gs, p)"
    using al(1) s1(3) k1(2) Suc.prems(3,4) a(2) by simp_all
  obtain s' where s': "map_large sv (Suc i) n s1 = Inr (True, s')" "remapped {k + Suc i ..< k + Suc i + n} s1 s'" "pmm s' = p"
      "\<forall>j < n. is_page_present (pt s' (large_index (k + Suc i + j))) \<and> get_frame_addr (pt s' (large_index (k + Suc i + j))) = gs ! j"
    using Suc.IH [OF k1(1) pre nz(2)] by blast
  have "pt s' (large_index ?q) = pt s1 (large_index ?q)"
    using Suc.prems(4) q by (intro remapped_page [OF s'(2)]) auto
  then have "is_page_present (pt s' (large_index (k + i + j))) \<and> get_frame_addr (pt s' (large_index (k + i + j))) = fs ! j" if "j < Suc n" for j
    using s1(4,5) s'(4) that a(3) by (cases j) auto
  moreover have "remapped {k + i ..< k + i + Suc n} s s'"
    by (rule remapped_trans [OF remapped_mono [OF s1(2)] remapped_mono [OF s'(2)]]) auto
  ultimately show ?case
    using a(1) nz(1) s1(1) s'(1,3) Suc.prems(3) by (auto simp: vmm_alloc_frame_def Let_def large_page_add PMM_NO_FRAME_AVAILABLE_def)
qed auto

text \<open>When the frames run out after the frames \<open>gs\<close> of the pages before \<open>i\<close>, these are given back.\<close>

lemma map_large_fails:
  assumes "boot_space s" and "pmm_ok (pmm s)" and "current_large_heap_addr (heap s) = large_page k" and "k + length gs + n \<le> 148"
    and "alloc_frames n (pmm s) = Inr (fs, p)" and "0 \<in> set fs"
    and "\<forall>i < length gs. is_page_present (pt s (large_index (k + i))) \<and> get_frame_addr (pt s (large_index (k + i))) = gs ! i"
    and "\<forall>a \<in> set gs. is_valid_frame_addr a \<and> a \<noteq> 0"
  shows "\<exists>s'. map_large sv (length gs) n s = Inr (False, s') \<and> remapped {k ..< k + length gs + n} s s' \<and> pmm_ok (pmm s')
     \<and> used_frames (pmm s') = used_frames (pmm s) - frame_no ` set gs
     \<and> (\<forall>q \<in> {k ..< k + length gs + n}. pt s' (large_index q) = 0 \<or> pt s' (large_index q) = pt s (large_index q) \<and> k + length gs \<le> q)"
  using assms
proof (induction n arbitrary: s gs fs)
  case (Suc n)
  let ?i = "length gs" and ?q = "k + length gs"
  obtain a p1 hs where a: "pmm_alloc_frame (pmm s) = (a, p1)" "alloc_frames n p1 = Inr (hs, p)" "fs = a # hs"
    using Suc.prems(5) by (auto split: prod.splits)
  have q: "?q < 148" using Suc.prems(4) by simp
  note al = pmm_ok_alloc [OF Suc.prems(2) a(1)]
  show ?case
  proof (cases "a = 0")
    case True
    then have "p1 = pmm s" using al(2) by simp
    then have al0: "vmm_alloc_frame s = (0, s)" using a(1) True by (simp add: vmm_alloc_frame_def)
    obtain s' where s': "unmap_pages sv (large_page k) 0 ?i s = Inr s'" "remapped {k + 0 ..< k + 0 + ?i} s s'"
        "\<forall>q \<in> {k + 0 ..< k + 0 + ?i}. pt s' (large_index q) = 0" "pmm_ok (pmm s')" "used_frames (pmm s') = used_frames (pmm s) - frame_no ` set gs"
      using unmap_pages_ok [OF Suc.prems(1,2), of k 0 gs sv] Suc.prems(4,7,8) by auto
    have "pt s' (large_index q) = pt s (large_index q)" if "q \<in> {k + ?i ..< k + ?i + Suc n}" for q
      using Suc.prems(4) that by (intro remapped_page [OF s'(2)]) auto
    then have "\<forall>q \<in> {k ..< k + ?i + Suc n}. pt s' (large_index q) = 0 \<or> pt s' (large_index q) = pt s (large_index q) \<and> k + ?i \<le> q"
      using s'(3) by (metis add_0_right atLeastLessThan_iff not_le)
    moreover have "remapped {k ..< k + ?i + Suc n} s s'" using s'(2) by (rule remapped_mono) auto
    ultimately show ?thesis using al0 s' Suc.prems(3) by (simp add: PMM_NO_FRAME_AVAILABLE_def)
  next
    case False
    obtain s1 where s1: "vmm_map_page_to_curr_dir sv (large_page ?q) a PAGE_WRITEABLE (s\<lparr>pmm := p1\<rparr>) = Inr s1" "remapped {?q} s s1" "pmm s1 = p1"
        "is_page_present (pt s1 (large_index ?q))" "get_frame_addr (pt s1 (large_index ?q)) = a"
      using map_step [OF Suc.prems(1) q al(6) [OF False]] by blast
    have k1: "boot_space s1" "heap s1 = heap s" using remapped_keeps(1,4) [OF s1(2)] Suc.prems(1) q by auto
    have old: "pt s1 (large_index q') = pt s (large_index q')" if "q' \<noteq> ?q" "q' < 148" for q'
      using that q by (intro remapped_page [OF s1(2)]) auto
    have pre: "pmm_ok (pmm s1)" "current_large_heap_addr (heap s1) = large_page k" "k + length (gs @ [a]) + n \<le> 148"
        "alloc_frames n (pmm s1) = Inr (hs, p)" "0 \<in> set hs"
        "\<forall>b \<in> set (gs @ [a]). is_valid_frame_addr b \<and> b \<noteq> 0"
      using al(1,5) s1(3) k1(2) Suc.prems(3,4,6,8) a(2,3) False by auto
    have ent: "\<forall>i < length (gs @ [a]). is_page_present (pt s1 (large_index (k + i))) \<and> get_frame_addr (pt s1 (large_index (k + i))) = (gs @ [a]) ! i"
      using old Suc.prems(7) s1(4,5) q by (auto simp: nth_append less_Suc_eq)
    obtain s' where s': "map_large sv (length (gs @ [a])) n s1 = Inr (False, s')" "remapped {k ..< k + length (gs @ [a]) + n} s1 s'" "pmm_ok (pmm s')"
        "used_frames (pmm s') = used_frames (pmm s1) - frame_no ` set (gs @ [a])"
        "\<forall>q \<in> {k ..< k + length (gs @ [a]) + n}. pt s' (large_index q) = 0 \<or> pt s' (large_index q) = pt s1 (large_index q) \<and> k + length (gs @ [a]) \<le> q"
      using Suc.IH [OF k1(1) pre(1-5) ent pre(6)] by blast
    have "used_frames (pmm s') = used_frames (pmm s) - frame_no ` set gs" using s'(4) al(3,4) [OF False] s1(3) by auto
    moreover have "remapped {k ..< k + ?i + Suc n} s s'"
      by (rule remapped_trans [OF remapped_mono [OF s1(2)] remapped_mono [OF s'(2)]]) auto
    moreover have "\<forall>q \<in> {k ..< k + ?i + Suc n}. pt s' (large_index q) = 0 \<or> pt s' (large_index q) = pt s (large_index q) \<and> k + ?i \<le> q"
      using s'(5) old Suc.prems(4) by fastforce
    ultimately show ?thesis
      using a(1) False s1(1) s'(1,3) Suc.prems(3) by (simp add: vmm_alloc_frame_def Let_def large_page_add PMM_NO_FRAME_AVAILABLE_def)
  qed
qed simp

end
