(* ===== verification/Large_Blocks.thy ===== *)
theory Large_Blocks
  imports Large_Pages
begin

text \<open>
  The large blocks of memory/kmalloc.c. The record of a block is an object of the smallest cache; the records form a
  doubly linked list. An abstract list of blocks stands for records, pages and frames: \<open>kmalloc\<close> pushes a block,
  \<open>kfree\<close> deletes it, and the exceptions are stated as such.
\<close>

section \<open>Records\<close>

text \<open>Word \<open>c\<close> of the record in object \<open>i\<close>, and the address of the record.\<close>

definition cell :: "nat \<Rightarrow> nat \<Rightarrow> u32" where "cell i c = of_nat (20 + 16 * i + 4 * c)"
definition rec_addr :: "nat \<Rightarrow> u32" where "rec_addr i = slab_page 0 + cell i 0"

lemma unat_cell: "i < 254 \<Longrightarrow> c < 4 \<Longrightarrow> unat (cell i c) = 20 + 16 * i + 4 * c"
  unfolding cell_def by (rule unat_of_nat_exact) simp

lemma cell_facts:
  assumes "i < 254" and "c < 4"
  shows "cell i c < 4096" "cell i c \<noteq> 4" "cell i c \<noteq> 12"
  using unat_cell [OF assms] assms by (auto simp: word_less_nat_alt)

lemma cell_inject:
  assumes "i < 254" and "c < 4" and "j < 254" and "d < 4"
  shows "cell i c = cell j d \<longleftrightarrow> i = j \<and> c = d"
proof -
  have "(4 * i + c) div 4 = i" "(4 * j + d) div 4 = j" "(4 * i + c) mod 4 = c" "(4 * j + d) mod 4 = d" using assms by simp_all
  then have "4 * i + c = 4 * j + d \<longleftrightarrow> i = j \<and> c = d" by metis
  moreover have "16 * i + 4 * c = 16 * j + 4 * d \<longleftrightarrow> 4 * i + c = 4 * j + d" by linarith
  ultimately show ?thesis using unat_cell [OF assms(1,2)] unat_cell [OF assms(3,4)] by (simp add: word_unat_eq_iff)
qed

lemma cell_object: "cell i 0 = object_at 16 i"
  by (simp add: cell_def object_at_def algebra_simps)

lemma record_fields:
  "large_size (rec_addr i) = slab_page 0 + cell i 0" "large_ptr (rec_addr i) = slab_page 0 + cell i 1"
  "large_next (rec_addr i) = slab_page 0 + cell i 2" "large_prev (rec_addr i) = slab_page 0 + cell i 3"
  by (simp_all add: rec_addr_def cell_def large_size_def large_ptr_def large_next_def large_prev_def)

lemma unat_rec_addr: "i < 254 \<Longrightarrow> unat (rec_addr i) = 0x8000014 + 16 * i"
  using unat_cell [of i 0] by (simp add: rec_addr_def slab_page_def unat_add_exact)

lemma rec_addr_nz: "i < 254 \<Longrightarrow> rec_addr i \<noteq> 0"
  using unat_rec_addr [of i] by auto

section \<open>The list of records\<close>

record block =
  blk_obj :: nat
  blk_size :: u32
  blk_page :: nat
  blk_frames :: "u32 list"

definition node :: "(u32 \<Rightarrow> u32) \<Rightarrow> block \<Rightarrow> u32 \<Rightarrow> bool" where
  "node w b prev \<longleftrightarrow> w (cell (blk_obj b) 0) = blk_size b \<and> w (cell (blk_obj b) 1) = large_page (blk_page b) \<and> w (cell (blk_obj b) 3) = prev"

text \<open>The words \<open>w\<close> hold the records of a list from \<open>p\<close>, which follows \<open>prev\<close>, up to \<open>q\<close>, which follows \<open>l\<close>.\<close>

fun seg :: "(u32 \<Rightarrow> u32) \<Rightarrow> u32 \<Rightarrow> u32 \<Rightarrow> block list \<Rightarrow> u32 \<Rightarrow> u32 \<Rightarrow> bool" where
  "seg w p prev [] q l \<longleftrightarrow> p = q \<and> prev = l"
| "seg w p prev (b # bs) q l \<longleftrightarrow> p = rec_addr (blk_obj b) \<and> node w b prev \<and> seg w (w (cell (blk_obj b) 2)) p bs q l"

definition objects :: "block list \<Rightarrow> nat list" where "objects B = map blk_obj B"

lemma objects_simps [simp]: "objects [] = []" "objects (b # B) = blk_obj b # objects B" "objects (B @ C) = objects B @ objects C"
  "set (objects B) = blk_obj ` set B"
  by (simp_all add: objects_def)

lemma seg_append: "seg w p prev (xs @ ys) q l \<longleftrightarrow> (\<exists>m k. seg w p prev xs m k \<and> seg w m k ys q l)"
  by (induction xs arbitrary: p prev) auto

lemma seg_cong:
  "\<forall>b \<in> set bs. \<forall>c < 4. w' (cell (blk_obj b) c) = w (cell (blk_obj b) c) \<Longrightarrow> seg w' p prev bs q l \<longleftrightarrow> seg w p prev bs q l"
  by (induction bs arbitrary: p prev) (auto simp: node_def)

text \<open>A list is unaffected by words that are not in its records.\<close>

lemma seg_upd:
  assumes "o' \<notin> blk_obj ` set bs" and "o' < 254" and "c < 4" and "\<forall>b \<in> set bs. blk_obj b < 254"
  shows "seg (w(cell o' c := x)) p prev bs q l \<longleftrightarrow> seg w p prev bs q l"
  using assms by (intro seg_cong) (auto simp: cell_inject)

definition unlinked :: "block list \<Rightarrow> block \<Rightarrow> block list \<Rightarrow> (u32 \<Rightarrow> u32) \<Rightarrow> u32 \<Rightarrow> u32" where
  "unlinked xs b ys w =
     (let w1 = (if xs = [] then w else w(cell (blk_obj (last xs)) 2 := w (cell (blk_obj b) 2)));
          w2 = (if ys = [] then w1 else w1(cell (blk_obj (hd ys)) 3 := w (cell (blk_obj b) 3)))
      in w2(cell (blk_obj b) 2 := 0, cell (blk_obj b) 3 := 0, cell (blk_obj b) 1 := 0))"

lemma unlinked_other:
  assumes "\<forall>j \<in> blk_obj ` set (xs @ b # ys). \<forall>c < 4. o' \<noteq> cell j c"
  shows "unlinked xs b ys w o' = w o'"
  using assms last_in_set [of xs] hd_in_set [of ys] by (auto simp: unlinked_def Let_def)

lemma seg_unlinked:
  assumes "seg w p 0 (xs @ b # ys) 0 l" and "distinct (objects (xs @ b # ys))" and "\<forall>o' \<in> set (objects (xs @ b # ys)). o' < 254"
  shows "\<exists>l'. seg (unlinked xs b ys w) (if xs = [] then w (cell (blk_obj b) 2) else p) 0 (xs @ ys) 0 l'"
proof -
  let ?o = "blk_obj b"
  obtain m k where left: "seg w p 0 xs m k" and mid: "m = rec_addr ?o" "node w b k" and right: "seg w (w (cell ?o 2)) m ys 0 l"
    using assms(1) by (auto simp: seg_append)
  have k: "w (cell ?o 3) = k" using mid(2) by (simp add: node_def)
  define w' where "w' = unlinked xs b ys w"
  have out: "w' (cell i c) = w (cell i c)" if "i < 254" "c < 4" "i \<noteq> ?o" "xs = [] \<or> (i, c) \<noteq> (blk_obj (last xs), 2)" "ys = [] \<or> (i, c) \<noteq> (blk_obj (hd ys), 3)" for i c
    using that assms(3) by (auto simp: w'_def unlinked_def Let_def cell_inject)
  have ys: "seg w' (w (cell ?o 2)) k ys 0 (if ys = [] then k else l)"
  proof (cases ys)
    case Nil
    then show ?thesis using right by simp
  next
    case (Cons c cs)
    have c: "blk_obj c < 254" "blk_obj c \<noteq> ?o" "blk_obj c \<notin> blk_obj ` set cs" "xs = [] \<or> blk_obj c \<noteq> blk_obj (last xs)"
      using assms(2,3) Cons by auto
    have "w' (cell (blk_obj c) 3) = k" using c assms(3) Cons k by (auto simp: w'_def unlinked_def Let_def cell_inject)
    moreover have "w' (cell (blk_obj c) d) = w (cell (blk_obj c) d)" if "d < 3" for d using c that Cons by (intro out) auto
    moreover have "seg w' p' r cs 0 l \<longleftrightarrow> seg w p' r cs 0 l" for p' r
    proof (rule seg_cong, intro ballI allI impI)
      fix x d assume x: "x \<in> set cs" and "d < (4 :: nat)"
      have "?o \<notin> blk_obj ` set cs" "blk_obj ` set xs \<inter> blk_obj ` set cs = {}" using assms(2) Cons by auto
      then have "blk_obj x \<noteq> ?o" "xs = [] \<or> blk_obj x \<noteq> blk_obj (last xs)" "blk_obj x \<noteq> blk_obj c"
        using x c(3) last_in_set [of xs] by (metis imageI, metis disjoint_iff imageI, metis imageI)
      then show "w' (cell (blk_obj x) d) = w (cell (blk_obj x) d)" using \<open>d < 4\<close> assms(3) Cons x by (intro out) auto
    qed
    ultimately show ?thesis using right Cons by (auto simp: node_def)
  qed
  show ?thesis
  proof (cases xs rule: rev_cases)
    case Nil
    then show ?thesis using ys left by (auto simp: w'_def)
  next
    case (snoc as a)
    have a: "blk_obj a < 254" "blk_obj a \<noteq> ?o" "blk_obj a \<notin> blk_obj ` set as" "ys = [] \<or> blk_obj a \<noteq> blk_obj (hd ys)"
      using assms(2,3) snoc by auto
    have "w' (cell (blk_obj a) 2) = w (cell ?o 2)" using a assms(3) snoc by (auto simp: w'_def unlinked_def Let_def cell_inject)
    moreover have "w' (cell (blk_obj a) d) = w (cell (blk_obj a) d)" if "d < 4" "d \<noteq> 2" for d using a that snoc by (intro out) auto
    moreover have "seg w' p' r as q' l' \<longleftrightarrow> seg w p' r as q' l'" for p' r q' l'
    proof (rule seg_cong, intro ballI allI impI)
      fix x d assume x: "x \<in> set as" and "d < (4 :: nat)"
      have "?o \<notin> blk_obj ` set as" "blk_obj ` set as \<inter> blk_obj ` set ys = {}" using assms(2) snoc by auto
      then have "blk_obj x \<noteq> ?o" "ys = [] \<or> blk_obj x \<noteq> blk_obj (hd ys)" "blk_obj x \<noteq> blk_obj a"
        using x a(3) hd_in_set [of ys] by (metis imageI, metis disjoint_iff imageI, metis imageI)
      then show "w' (cell (blk_obj x) d) = w (cell (blk_obj x) d)" using \<open>d < 4\<close> assms(3) snoc x by (intro out) auto
    qed
    ultimately have "seg w' p 0 xs (w (cell ?o 2)) k" using left snoc by (auto simp: seg_append node_def)
    with ys have "seg w' p 0 (xs @ ys) 0 (if ys = [] then k else l)" unfolding seg_append by blast
    then show ?thesis using snoc unfolding w'_def by auto
  qed
qed

text \<open>The words after a new record is put in front.\<close>

definition pushed :: "nat \<Rightarrow> u32 \<Rightarrow> nat \<Rightarrow> block list \<Rightarrow> (u32 \<Rightarrow> u32) \<Rightarrow> u32 \<Rightarrow> u32" where
  "pushed i sz k B w =
     (let w1 = w(cell i 0 := sz, cell i 1 := large_page k, cell i 2 := 0, cell i 3 := 0)
      in if B = [] then w1 else w1(cell (blk_obj (hd B)) 3 := rec_addr i, cell i 2 := rec_addr (blk_obj (hd B))))"

lemma pushed_other:
  assumes "\<forall>j \<in> insert i (blk_obj ` set B). \<forall>c < 4. o' \<noteq> cell j c"
  shows "pushed i sz k B w o' = w o'"
  using assms hd_in_set [of B] by (auto simp: pushed_def Let_def)

lemma seg_pushed:
  assumes "seg w p 0 B 0 l" and "i < 254" and "distinct (i # objects B)" and "\<forall>b \<in> set B. blk_obj b < 254"
  shows "\<exists>l'. seg (pushed i sz k B w) (rec_addr i) 0 (\<lparr>blk_obj = i, blk_size = sz, blk_page = k, blk_frames = fs\<rparr> # B) 0 l'"
proof (cases B)
  case Nil
  then show ?thesis using assms(2) by (simp add: node_def pushed_def cell_inject)
next
  case (Cons c cs)
  let ?w = "pushed i sz k B w"
  have c: "blk_obj c < 254" "blk_obj c \<noteq> i" "i \<notin> blk_obj ` set cs" "blk_obj c \<notin> blk_obj ` set cs" using assms(3,4) Cons by auto
  have "seg ?w p' r cs 0 l \<longleftrightarrow> seg w p' r cs 0 l" for p' r
  proof (rule seg_cong, intro ballI allI impI)
    fix x d assume x: "x \<in> set cs" and d: "d < (4 :: nat)"
    have "blk_obj x \<noteq> i" "blk_obj x \<noteq> blk_obj c" using x c(3,4) by (metis imageI)+
    then show "?w (cell (blk_obj x) d) = w (cell (blk_obj x) d)"
      using c(1) assms(2,4) Cons x d by (simp add: pushed_def cell_inject)
  qed
  moreover have "?w (cell (blk_obj c) 3) = rec_addr i" "d < 3 \<Longrightarrow> ?w (cell (blk_obj c) d) = w (cell (blk_obj c) d)"
    "?w (cell i 2) = rec_addr (blk_obj c)" "?w (cell i 0) = sz" "?w (cell i 1) = large_page k" "?w (cell i 3) = 0" for d
    using c assms(2) Cons by (auto simp: pushed_def cell_inject)
  ultimately show ?thesis using assms(1) Cons by (auto simp: node_def)
qed

section \<open>Operations on the list\<close>

text \<open>The slab page that holds the records, and a state that differs only there and in the head of the list.\<close>

abbreviation rec_page :: "kvm \<Rightarrow> bool" where "rec_page s \<equiv> data_page s (slab_page 0) (slab_frame 0)"
abbreviation rec_words :: "kvm \<Rightarrow> u32 \<Rightarrow> u32" where "rec_words \<equiv> words_of (slab_frame 0)"

definition recorded :: "kvm \<Rightarrow> kvm \<Rightarrow> bool" where
  "recorded s s' \<longleftrightarrow> (\<exists>m h. s' = s\<lparr>mem := m, heap := (heap s)\<lparr>large_allocations := h\<rparr>\<rparr>
     \<and> (\<forall>p. get_frame_addr p \<noteq> slab_frame 0 \<longrightarrow> m p = mem s p))"

lemma rec_access:
  assumes "rec_page s" and "i < 254" and "c < 4"
  shows "load (slab_page 0 + cell i c) s = Inr (rec_words s (cell i c))"
    "store (slab_page 0 + cell i c) x s = Inr (put_word (slab_frame 0) (cell i c) x s)"
    "rec_page (put_word (slab_frame 0) (cell i c) x s)"
  using assms cell_facts(1) [OF assms(2,3)] by (simp_all add: data_page_access)

lemma set_large_same [simp]: "rec_page (set_large h s) \<longleftrightarrow> rec_page s" "rec_words (set_large h s) = rec_words s"
  "heap (set_large h s) = (heap s)\<lparr>large_allocations := h\<rparr>"
  by (simp_all add: set_large_def data_page_def translate_def words_of_def fun_eq_iff)

lemma put_word_heap [simp]: "heap (put_word f b x s) = heap s"
  by (simp add: put_word_def)

lemma recordedE:
  assumes "recorded s s'"
  obtains m h where "s' = s\<lparr>mem := m, heap := (heap s)\<lparr>large_allocations := h\<rparr>\<rparr>" "\<And>p. get_frame_addr p \<noteq> slab_frame 0 \<Longrightarrow> m p = mem s p"
  using assms unfolding recorded_def by blast

lemma recordedI:
  "s' = s\<lparr>mem := m, heap := (heap s)\<lparr>large_allocations := h\<rparr>\<rparr> \<Longrightarrow> (\<And>p. get_frame_addr p \<noteq> slab_frame 0 \<Longrightarrow> m p = mem s p) \<Longrightarrow> recorded s s'"
  unfolding recorded_def by blast

lemma recorded_refl [simp]: "recorded s s"
  by (rule recordedI [where m = "mem s" and h = "large_allocations (heap s)"]) simp_all

lemma recorded_put_word:
  assumes "recorded s s'" and "o' < 4096"
  shows "recorded s (put_word (slab_frame 0) o' x s')"
proof -
  obtain m h where m: "s' = s\<lparr>mem := m, heap := (heap s)\<lparr>large_allocations := h\<rparr>\<rparr>" "\<And>p. get_frame_addr p \<noteq> slab_frame 0 \<Longrightarrow> m p = mem s p"
    using assms(1) unfolding recorded_def by blast
  have "get_frame_addr (slab_frame 0 + o') = slab_frame 0" using slab_page_facts(4) [of 0] assms(2) by (simp add: frame_of_sum)
  then show ?thesis
    by (intro recordedI [where m = "m(slab_frame 0 + o' := x)" and h = h]) (auto simp: put_word_def m)
qed

lemma recorded_put: "recorded s s' \<Longrightarrow> i < 254 \<Longrightarrow> c < 4 \<Longrightarrow> recorded s (put_word (slab_frame 0) (cell i c) x s')"
  by (rule recorded_put_word [OF _ cell_facts(1)])

lemma recorded_set: "recorded s s' \<Longrightarrow> recorded s (set_large h s')"
  by (erule recordedE, rule recordedI [where m = "mem s'" and h = h]) (simp_all add: set_large_def)

lemma unlink_ok:
  assumes "rec_page s" and "seg (rec_words s) (large_allocations (heap s)) 0 (xs @ b # ys) 0 l" and "distinct (objects (xs @ b # ys))"
    and "\<forall>o' \<in> set (objects (xs @ b # ys)). o' < 254"
  shows "\<exists>s' l'. large_alloc_unlink (rec_addr (blk_obj b)) s = Inr s' \<and> recorded s s' \<and> rec_page s' \<and> rec_words s' = unlinked xs b ys (rec_words s)
     \<and> seg (rec_words s') (large_allocations (heap s')) 0 (xs @ ys) 0 l'"
proof -
  let ?o = "blk_obj b" and ?w = "rec_words s" and ?F = "slab_frame 0"
  obtain m k where left: "seg ?w (large_allocations (heap s)) 0 xs m k" and mid: "m = rec_addr ?o" "node ?w b k"
    and right: "seg ?w (?w (cell ?o 2)) m ys 0 l" using assms(2) by (auto simp: seg_append)
  have o: "?o < 254" using assms(4) by simp
  have k: "?w (cell ?o 3) = k" using mid(2) by (simp add: node_def)
  have kx: "xs = [] \<Longrightarrow> k = 0" "xs \<noteq> [] \<Longrightarrow> k = rec_addr (blk_obj (last xs)) \<and> blk_obj (last xs) < 254 \<and> blk_obj (last xs) \<noteq> ?o"
    using left assms(3,4) by (simp, cases xs rule: rev_cases) (auto simp: seg_append)
  have ny: "ys = [] \<Longrightarrow> ?w (cell ?o 2) = 0" "ys \<noteq> [] \<Longrightarrow> ?w (cell ?o 2) = rec_addr (blk_obj (hd ys)) \<and> blk_obj (hd ys) < 254 \<and> blk_obj (hd ys) \<noteq> ?o"
    using right assms(3,4) by (simp, cases ys) auto
  define s1 where "s1 = (if xs = [] then set_large (?w (cell ?o 2)) s else put_word ?F (cell (blk_obj (last xs)) 2) (?w (cell ?o 2)) s)"
  define s2 where "s2 = (if ys = [] then s1 else put_word ?F (cell (blk_obj (hd ys)) 3) k s1)"
  define s3 where "s3 = put_word ?F (cell ?o 1) 0 (put_word ?F (cell ?o 3) 0 (put_word ?F (cell ?o 2) 0 s2))"
  have p: "rec_page s1" "rec_page s2" "rec_page (put_word ?F (cell ?o 2) 0 s2)" "rec_page (put_word ?F (cell ?o 3) 0 (put_word ?F (cell ?o 2) 0 s2))" "rec_page s3"
    using assms(1) kx ny o rec_access(3) by (auto simp: s1_def s2_def s3_def)
  have w1: "rec_words s1 (cell ?o 2) = ?w (cell ?o 2)" "rec_words s1 (cell ?o 3) = k"
    using kx(2) o k by (auto simp: s1_def cell_inject)
  have "bind_run (if k \<noteq> 0 then bind_run (load (large_next (rec_addr ?o)) s) (\<lambda>nxt. store (large_next k) nxt s)
       else bind_run (load (large_next (rec_addr ?o)) s) (\<lambda>nxt. Inr (set_large nxt s))) f = f s1" for f :: "kvm \<Rightarrow> kvm run"
    using kx rec_access [OF assms(1)] o rec_addr_nz by (cases "xs = []") (auto simp: s1_def record_fields)
  moreover have "bind_run (if ?w (cell ?o 2) \<noteq> 0 then bind_run (load (large_prev (rec_addr ?o)) s1) (\<lambda>prev. store (large_prev (?w (cell ?o 2))) prev s1)
       else Inr s1) f = f s2" for f :: "kvm \<Rightarrow> kvm run"
    using ny rec_access [OF p(1)] o rec_addr_nz w1 by (cases "ys = []") (auto simp: s2_def record_fields)
  ultimately have run: "large_alloc_unlink (rec_addr ?o) s = Inr s3"
    using rec_access [OF assms(1), of ?o 3] k rec_access(1) [OF p(1), of ?o 2] w1 rec_access(2) [OF p(2), of ?o 2] rec_access(2) [OF p(3), of ?o 3]
      rec_access(2) [OF p(4), of ?o 1] o by (simp add: large_alloc_unlink_def record_fields s3_def)
  have words: "rec_words s3 = unlinked xs b ys ?w"
    using k by (auto simp: s3_def s2_def s1_def unlinked_def Let_def fun_eq_iff)
  have "recorded s s3" unfolding s3_def s2_def s1_def using kx ny o by (auto intro!: recorded_put recorded_set)
  moreover have "large_allocations (heap s3) = (if xs = [] then ?w (cell ?o 2) else large_allocations (heap s))"
    by (simp add: s3_def s2_def s1_def)
  ultimately show ?thesis
    using run words p(5) seg_unlinked [OF assms(2-4)] by auto
qed

lemma find_large_seg:
  assumes "rec_page s" and "seg (rec_words s) p prev bs 0 l" and "\<forall>b \<in> set bs. blk_obj b < 254"
  shows "find_large ptr p s =
     Some (Inr (case find (\<lambda>b. large_page (blk_page b) = ptr) bs of None \<Rightarrow> 0 | Some b \<Rightarrow> rec_addr (blk_obj b)))"
  using assms(2,3)
proof (induction bs arbitrary: p prev)
  case (Cons b bs)
  then show ?case
    using rec_access(1) [OF assms(1), of "blk_obj b"] rec_addr_nz [of "blk_obj b"] Cons.IH [of _ p]
    by (subst find_large.simps) (auto simp: record_fields node_def)
qed (simp add: find_large.simps)

lemma slab_holds_words:
  assumes "slab_holds s slab f bs" and "data_page s' slab f" and "words_of f s' 4 = words_of f s 4" and "words_of f s' 12 = words_of f s 12"
    and "\<forall>b \<in> set bs. words_of f s' b = words_of f s b"
  shows "slab_holds s' slab f bs"
  using assms free_chain_cong [of bs "words_of f s'" "words_of f s" slab] by (auto simp: slab_holds_def)

text \<open>The free objects are untouched by writes into the records \<open>J\<close>.\<close>

lemma slab_holds_apart:
  assumes "slab_holds s (slab_page 0) (slab_frame 0) (map (object_at 16) fl)" and "rec_page s'"
    and "\<And>a. \<forall>j \<in> J. \<forall>c < 4. a \<noteq> cell j c \<Longrightarrow> rec_words s' a = rec_words s a" and "set fl \<inter> J = {}" and "\<forall>j \<in> set fl \<union> J. j < 254"
  shows "slab_holds s' (slab_page 0) (slab_frame 0) (map (object_at 16) fl)"
proof (rule slab_holds_words [OF assms(1,2)])
  have "\<forall>j \<in> J. \<forall>c < 4. cell j c \<noteq> 4 \<and> cell j c \<noteq> 12" using cell_facts(2,3) assms(5) by blast
  then show "rec_words s' 4 = rec_words s 4" "rec_words s' 12 = rec_words s 12" using assms(3) by metis+
  show "\<forall>a \<in> set (map (object_at 16) fl). rec_words s' a = rec_words s a"
  proof
    fix a assume "a \<in> set (map (object_at 16) fl)"
    then obtain j where j: "a = cell j 0" "j \<in> set fl" by (auto simp: cell_object)
    have "\<forall>i \<in> J. \<forall>c < 4. cell j 0 \<noteq> cell i c" using assms(4,5) j(2) cell_inject [of j 0] by auto
    then show "rec_words s' a = rec_words s a" using assms(3) j(1) by blast
  qed
qed

lemma alloc_from_slab_exact:
  assumes "slab_holds s slab f (b # bs)"
  shows "alloc_from_slab slab s = Inr (slab + b, put_word f 12 (words_of f s 12 - 1) (put_word f 4 (words_of f s b) s))"
proof -
  have d: "data_page s slab f" and b: "b < 4096" and c: "unat (words_of f s 12) = Suc (length bs)" and p: "words_of f s 4 = slab + b"
    using assms by (auto simp: slab_holds_def)
  have d1: "data_page (put_word f 4 (words_of f s b) s) slab f" using d by simp
  have "words_of f s 12 \<noteq> 0" using c by auto
  then show ?thesis
    using d b p by (simp add: alloc_from_slab_def slab_header [OF d] data_page_access [OF d] slab_header [OF d1])
qed

lemma kmalloc_record:
  assumes "get_cache sz = Some 0" and "caches (heap s) ! 0 = slab_page 0" and "slab_holds s (slab_page 0) (slab_frame 0) (map (object_at 16) (i # fl))" and "i < 254"
  shows "\<exists>s'. kmalloc_small sv sz s = Inr (rec_addr i, s') \<and> recorded s s' \<and> heap s' = heap s
     \<and> slab_holds s' (slab_page 0) (slab_frame 0) (map (object_at 16) fl) \<and> (\<forall>j < 254. \<forall>c < 4. rec_words s' (cell j c) = rec_words s (cell j c))"
proof -
  have a: "slab_holds s (slab_page 0) (slab_frame 0) (object_at 16 i # map (object_at 16) fl)" using assms(3) by simp
  obtain s' where s': "alloc_from_slab (slab_page 0) s = Inr (slab_page 0 + object_at 16 i, s')"
      "slab_holds s' (slab_page 0) (slab_frame 0) (map (object_at 16) fl)"
    using alloc_from_slab_pops [OF a] by blast
  then have e: "s' = put_word (slab_frame 0) 12 (rec_words s 12 - 1) (put_word (slab_frame 0) 4 (rec_words s (object_at 16 i)) s)"
    using alloc_from_slab_exact [OF a] by simp
  have "recorded s s'" unfolding e by (intro recorded_put_word recorded_refl) simp_all
  moreover have r: "slab_page 0 + object_at 16 i = rec_addr i" by (simp add: rec_addr_def cell_object)
  then have "scan_slabs (slab_page 0) s = Some (Inr (rec_addr i, s'))"
    using s'(1) slab_page_facts(7) [of 0] rec_addr_nz [OF assms(4)] by (subst scan_slabs.simps) simp
  ultimately show ?thesis
    using s'(2) assms(1,2) rec_addr_nz [OF assms(4)] cell_facts(2,3)
    by (auto simp: kmalloc_small_def alloc_from_cache_def e)
qed

lemma record_cache: "get_cache sizeof_large_alloc = Some 0"
  by (simp add: get_cache_def cache_sizes_def sizeof_large_alloc_def)

lemma push_record:
  assumes "caches (heap s) ! 0 = slab_page 0" and "slab_holds s (slab_page 0) (slab_frame 0) (map (object_at 16) (i # fl))"
    and "seg (rec_words s) (large_allocations (heap s)) 0 B 0 l" and "distinct (i # fl @ objects B)" and "\<forall>j \<in> set (i # fl @ objects B). j < 254"
  shows "\<exists>s1 s2 l'. create_large_alloc sv sz (large_page k) s = Inr (rec_addr i, s1) \<and> insert_large_alloc (rec_addr i) s1 = Inr s2
     \<and> recorded s s2 \<and> slab_holds s2 (slab_page 0) (slab_frame 0) (map (object_at 16) fl)
     \<and> seg (rec_words s2) (large_allocations (heap s2)) 0 (\<lparr>blk_obj = i, blk_size = sz, blk_page = k, blk_frames = fs\<rparr> # B) 0 l'"
proof -
  let ?F = "slab_frame 0"
  have i: "i < 254" and ob: "\<forall>b \<in> set B. blk_obj b < 254" "distinct (i # objects B)" using assms(4,5) by auto
  obtain s0 where s0: "kmalloc_small sv sizeof_large_alloc s = Inr (rec_addr i, s0)" "recorded s s0" "heap s0 = heap s"
      "slab_holds s0 (slab_page 0) ?F (map (object_at 16) fl)" "\<forall>j < 254. \<forall>c < 4. rec_words s0 (cell j c) = rec_words s (cell j c)"
    using kmalloc_record [OF record_cache assms(1,2) i] by blast
  have p0: "rec_page s0" using s0(4) by (simp add: slab_holds_def)
  have seg0: "seg (rec_words s0) (large_allocations (heap s0)) 0 B 0 l"
    using assms(3) s0(3,5) ob(1) seg_cong [of B "rec_words s0" "rec_words s"] by simp
  note acc = rec_access [OF _ i]
  define s1 where "s1 = put_word ?F (cell i 3) 0 (put_word ?F (cell i 2) 0 (put_word ?F (cell i 1) (large_page k) (put_word ?F (cell i 0) sz s0)))"
  have p1: "rec_page s1" unfolding s1_def using p0 by (intro acc(3)) simp_all
  have create: "create_large_alloc sv sz (large_page k) s = Inr (rec_addr i, s1)"
    using s0(1) rec_addr_nz [OF i] p0 by (simp add: create_large_alloc_def record_fields acc s1_def)
  define s2 where "s2 = set_large (rec_addr i) (if B = [] then s1 else
      put_word ?F (cell i 2) (rec_addr (blk_obj (hd B))) (put_word ?F (cell (blk_obj (hd B)) 3) (rec_addr i) s1))"
  have B: "large_allocations (heap s1) = (if B = [] then 0 else rec_addr (blk_obj (hd B)))" "B \<noteq> [] \<Longrightarrow> blk_obj (hd B) < 254"
    using seg0 ob(1) by (cases B, auto simp: s1_def)+
  have insert: "insert_large_alloc (rec_addr i) s1 = Inr s2"
    using B p1 rec_addr_nz by (auto simp: insert_large_alloc_def record_fields rec_access acc s2_def Let_def)
  have p2: "rec_page s2" using p1 B(2) by (auto simp: s2_def acc(3) rec_access(3))
  have words: "rec_words s2 = pushed i sz k B (rec_words s0)" by (auto simp: pushed_def s2_def s1_def Let_def)
  have "slab_holds s2 (slab_page 0) ?F (map (object_at 16) fl)"
  proof (rule slab_holds_apart [OF s0(4) p2])
    show "rec_words s2 a = rec_words s0 a" if "\<forall>j \<in> insert i (blk_obj ` set B). \<forall>c < 4. a \<noteq> cell j c" for a
      using that unfolding words by (rule pushed_other)
  qed (use assms(4,5) in auto)
  moreover have "recorded s s2" using s0(2) i B(2) by (auto simp: s2_def s1_def intro!: recorded_set recorded_put)
  moreover have "large_allocations (heap s2) = rec_addr i" by (simp add: s2_def)
  ultimately show ?thesis
    using create insert seg_pushed [OF seg0 i ob(2,1), of sz k fs] words by auto
qed

section \<open>The state of the large heap\<close>

text \<open>The address space with the record page mapped.\<close>

definition rec_space :: "kvm \<Rightarrow> bool" where
  "rec_space s \<longleftrightarrow> boot_space s \<and> heap_base s = 0x4000000 \<and> caches (heap s) ! 0 = slab_page 0
     \<and> is_page_present (pt s 0) \<and> get_frame_addr (pt s 0) = slab_frame 0 \<and> slab_frame 0 \<noteq> cr3 s"

lemma rec_space_page: "rec_space s \<Longrightarrow> rec_page s"
  using slab_page_facts(1-3,5) [of 0] by (intro booted_data_page) (simp_all add: rec_space_def boot_space_def)

lemma rec_space_remapped:
  assumes "rec_space s" and "remapped Q s s'" and "Q \<subseteq> {..<148}"
  shows "rec_space s'" "b < 4096 \<Longrightarrow> rec_words s' b = rec_words s b"
proof -
  note k = remapped_keeps [OF assms(2,3)]
  have "(0 :: u32) \<noteq> large_index q" if "q < 148" for q using large_page_facts(6) [of q] that by auto
  then have "pt s' 0 = pt s 0" using assms(3) by (intro k(6)) auto
  then show "rec_space s'" using assms(1) k(1-4) by (simp add: rec_space_def)
  have "get_frame_addr (slab_frame 0 + b) = slab_frame 0" if "b < 4096" using slab_page_facts(4) [of 0] that by (simp add: frame_of_sum)
  then show "rec_words s' b = rec_words s b" if "b < 4096" using k(5) [of "slab_frame 0 + b"] slab_page_facts(5) [of 0] that by (simp add: words_of_def)
qed

lemma rec_space_recorded:
  assumes "rec_space s" and "recorded s s'"
  shows "rec_space s'" "j < 1024 \<Longrightarrow> pt s' j = pt s j" "pmm s' = pmm s" "cr3 s' = cr3 s" "current_large_heap_addr (heap s') = current_large_heap_addr (heap s)"
proof -
  obtain m h where m: "s' = s\<lparr>mem := m, heap := (heap s)\<lparr>large_allocations := h\<rparr>\<rparr>" "\<And>p. get_frame_addr p \<noteq> slab_frame 0 \<Longrightarrow> m p = mem s p"
    using assms(2) unfolding recorded_def by blast
  have b: "booted s" "slab_frame 0 \<noteq> cr3 s" "slab_frame 0 \<noteq> 0" using assms(1) slab_page_facts(5) [of 0] by (simp_all add: rec_space_def boot_space_def)
  have "within (slab_frame 0) s (s\<lparr>mem := m\<rparr>)" using m(2) by (auto simp: within_def)
  note w = booted_within [OF b(1) this b(3,2)]
  show pt: "pt s' j = pt s j" if "j < 1024" for j using w(2) [of j] that m(1) by simp
  show "pmm s' = pmm s" "cr3 s' = cr3 s" "current_large_heap_addr (heap s') = current_large_heap_addr (heap s)" using m(1) by simp_all
  show "rec_space s'" using assms(1) w(1) pt [of 0] m(1) by (simp add: rec_space_def boot_space_def)
qed

lemma large_steps_queue: "remapped Q s s' \<Longrightarrow> same_queue s s'" "recorded s s' \<Longrightarrow> same_queue s s'"
  by (auto simp: remapped_def recorded_def same_queue_def)

definition block_ok :: "nat \<Rightarrow> kvm \<Rightarrow> block \<Rightarrow> bool" where
  "block_ok k s b \<longleftrightarrow> blk_page b + length (blk_frames b) \<le> k \<and> unat (aligned_size (blk_size b) div PMM_BLOCK_SIZE) = length (blk_frames b)
     \<and> blk_frames b \<noteq> []
     \<and> (\<forall>j < length (blk_frames b). is_page_present (pt s (large_index (blk_page b + j))) \<and> get_frame_addr (pt s (large_index (blk_page b + j))) = blk_frames b ! j)
     \<and> (\<forall>a \<in> set (blk_frames b). is_valid_frame_addr a \<and> a \<noteq> 0 \<and> frame_no a \<notin> {frame_no (cr3 s), frame_no (slab_frame 0)} \<and> frame_no a \<in> used_frames (pmm s))"

text \<open>The newest block first: it lies above the others.\<close>

definition blocks_ok :: "nat \<Rightarrow> block list \<Rightarrow> kvm \<Rightarrow> bool" where
  "blocks_ok k B s \<longleftrightarrow> sorted_wrt (\<lambda>b c. blk_page c + length (blk_frames c) \<le> blk_page b) B
     \<and> distinct (map frame_no (concat (map blk_frames B))) \<and> (\<forall>b \<in> set B. block_ok k s b)"

lemma block_ok_cong:
  assumes "block_ok k s b" and "k \<le> k'" and "\<forall>j < length (blk_frames b). pt s' (large_index (blk_page b + j)) = pt s (large_index (blk_page b + j))"
    and "\<forall>a \<in> set (blk_frames b). frame_no a \<in> used_frames (pmm s')" and "cr3 s' = cr3 s"
  shows "block_ok k' s' b"
  using assms unfolding block_ok_def by (intro conjI) auto

lemma blocks_ok_keep:
  assumes "blocks_ok k B s" and "k \<le> k'" and "\<And>q. q < k \<Longrightarrow> is_page_present (pt s (large_index q)) \<Longrightarrow> pt s' (large_index q) = pt s (large_index q)"
    and "used_frames (pmm s) \<subseteq> used_frames (pmm s')" and "cr3 s' = cr3 s"
  shows "blocks_ok k' B s'"
proof -
  have "block_ok k' s' b" if "b \<in> set B" for b
  proof (rule block_ok_cong [OF _ assms(2)])
    show ok: "block_ok k s b" using assms(1) that by (simp add: blocks_ok_def)
    then show "\<forall>j < length (blk_frames b). pt s' (large_index (blk_page b + j)) = pt s (large_index (blk_page b + j))"
      using assms(3) by (simp add: block_ok_def)
    show "\<forall>a \<in> set (blk_frames b). frame_no a \<in> used_frames (pmm s')" using ok assms(4) by (auto simp: block_ok_def)
  qed (fact assms(5))
  then show ?thesis using assms(1) by (simp add: blocks_ok_def)
qed

text \<open>
  Blocks \<open>B\<close> below page \<open>k\<close>, and free objects \<open>fl\<close> for records. The pages stay below the index of the kernel image.
\<close>

definition large_heap :: "nat \<Rightarrow> block list \<Rightarrow> nat list \<Rightarrow> kvm \<Rightarrow> bool" where
  "large_heap k B fl s \<longleftrightarrow> rec_space s \<and> pmm_ok (pmm s) \<and> {frame_no (cr3 s), frame_no (slab_frame 0)} \<subseteq> used_frames (pmm s) \<and> current_large_heap_addr (heap s) = large_page k \<and> k \<le> 148
     \<and> slab_holds s (slab_page 0) (slab_frame 0) (map (object_at 16) fl) \<and> (\<exists>l. seg (rec_words s) (large_allocations (heap s)) 0 B 0 l)
     \<and> distinct (fl @ objects B) \<and> (\<forall>j \<in> set (fl @ objects B). j < 254) \<and> blocks_ok k B s"

definition pages_of :: "u32 \<Rightarrow> nat" where "pages_of sz = (unat sz + 4095) div 4096"

lemma aligned_size_pages:
  assumes "unat sz \<le> 148 * 4096"
  shows "unat (aligned_size sz div PMM_BLOCK_SIZE) = pages_of sz" "large_page k + aligned_size sz = large_page (k + pages_of sz)"
proof -
  let ?x = "sz + 0xFFF"
  have x: "unat ?x = unat sz + 4095" using assms by (simp add: unat_add_exact)
  have m: "NOT (0x1000 - 1 :: u32) = 0xFFFFF000" "sz + 0x1000 - 1 = ?x" by simp_all
  have a: "aligned_size sz = get_frame_addr ?x" unfolding aligned_size_def get_frame_addr_def PMM_BLOCK_SIZE_def m ..
  have "?x = get_frame_addr ?x + get_frame_offset ?x" by (simp add: frame_plus_own_offset)
  moreover have "get_frame_offset ?x = of_nat (unat ?x mod 4096)"
    by (simp add: get_frame_offset_def and_mask_const take_bit_eq_mod word_unat_eq_iff unat_mod unat_of_nat_exact)
  ultimately have "get_frame_addr ?x = ?x - of_nat (unat ?x mod 4096)" by (simp add: eq_diff_eq)
  also have "\<dots> = of_nat (unat ?x) - of_nat (unat ?x mod 4096)" by simp
  also have "\<dots> = of_nat (unat ?x - unat ?x mod 4096)" by (simp only: of_nat_diff mod_less_eq_dividend)
  also have "unat ?x - unat ?x mod 4096 = pages_of sz * 4096" using x minus_mod_eq_div_mult [of "unat ?x" 4096] by (simp add: pages_of_def)
  finally have e: "aligned_size sz = of_nat (pages_of sz * 4096)" using a by simp
  then show "large_page k + aligned_size sz = large_page (k + pages_of sz)" by (simp add: large_page_def algebra_simps)
  have "pages_of sz \<le> 148" using assms unfolding pages_of_def by simp
  then have "unat (aligned_size sz) = pages_of sz * 4096" unfolding e by (intro unat_of_nat_exact) simp
  then show "unat (aligned_size sz div PMM_BLOCK_SIZE) = pages_of sz" by (simp add: PMM_BLOCK_SIZE_def unat_div)
qed

text \<open>A step that keeps the records' words and the pages of the blocks keeps the large heap.\<close>

lemma slab_seg_words:
  assumes "slab_holds s (slab_page 0) (slab_frame 0) (map (object_at 16) fl)" and "rec_page s'" and "\<And>b. b < 4096 \<Longrightarrow> rec_words s' b = rec_words s b"
  shows "slab_holds s' (slab_page 0) (slab_frame 0) (map (object_at 16) fl)"
    and "\<forall>b \<in> set B. blk_obj b < 254 \<Longrightarrow> seg (rec_words s') p prev B q l \<longleftrightarrow> seg (rec_words s) p prev B q l"
proof -
  have "\<forall>b \<in> set (map (object_at 16) fl). b < 4096" using assms(1) by (simp add: slab_holds_def)
  then show "slab_holds s' (slab_page 0) (slab_frame 0) (map (object_at 16) fl)"
    using assms(3) by (intro slab_holds_words [OF assms(1,2)]) auto
  show "seg (rec_words s') p prev B q l \<longleftrightarrow> seg (rec_words s) p prev B q l" if "\<forall>b \<in> set B. blk_obj b < 254"
    using that cell_facts(1) assms(3) by (intro seg_cong) auto
qed

lemma kmalloc_large_ok:
  assumes "large_heap k B (i # fl) s" and "unat sz \<le> 148 * 4096" and "0 < sz" and "k + pages_of sz \<le> 148"
    and "alloc_frames (pages_of sz) (pmm s) = Inr (fs, p)" and "0 \<notin> set fs"
  shows "\<exists>s'. kmalloc_large sv sz s = Inr (large_page k, s') \<and> pmm s' = p
     \<and> large_heap (k + pages_of sz) (\<lparr>blk_obj = i, blk_size = sz, blk_page = k, blk_frames = fs\<rparr> # B) fl s'
     \<and> (\<forall>j < 1024. j \<notin> large_index ` {k ..< k + pages_of sz} \<longrightarrow> pt s' j = pt s j) \<and> same_queue s s'"
proof -
  let ?n = "pages_of sz" and ?b = "\<lparr>blk_obj = i, blk_size = sz, blk_page = k, blk_frames = fs\<rparr>"
  have u: "frame_no (cr3 s) \<in> used_frames (pmm s)" "frame_no (slab_frame 0) \<in> used_frames (pmm s)" using assms(1) by (auto simp: large_heap_def)
  have h: "rec_space s" "pmm_ok (pmm s)" "current_large_heap_addr (heap s) = large_page k" "blocks_ok k B s"
      "slab_holds s (slab_page 0) (slab_frame 0) (map (object_at 16) (i # fl))" "distinct (i # fl @ objects B)" "\<forall>j \<in> set (i # fl @ objects B). j < 254"
    using assms(1) by (auto simp: large_heap_def)
  obtain l where l: "seg (rec_words s) (large_allocations (heap s)) 0 B 0 l" using assms(1) by (auto simp: large_heap_def)
  note sz = aligned_size_pages [OF assms(2)]
  have bs: "boot_space s" using h(1) by (simp add: rec_space_def)
  have Q: "{k ..< k + ?n} \<subseteq> {..<148}" using assms(4) by auto
  obtain s1 where s1: "map_large sv 0 ?n s = Inr (True, s1)" "remapped {k ..< k + ?n} s s1" "pmm s1 = p"
      "\<forall>j < ?n. is_page_present (pt s1 (large_index (k + j))) \<and> get_frame_addr (pt s1 (large_index (k + j))) = fs ! j"
    using map_large_ok [OF bs h(2,3), of 0 ?n fs p sv] assms(4-6) by auto
  have h1: "heap s1 = heap s" using remapped_keeps(1) [OF s1(2) Q] .
  note r1 = rec_space_remapped [OF h(1) s1(2) Q]
  define s2 where "s2 = s1\<lparr>heap := (heap s1)\<lparr>current_large_heap_addr := large_page (k + ?n)\<rparr>\<rparr>"
  have r2: "rec_space s2" "pt s2 = pt s1" "rec_words s2 = rec_words s1"
    using r1(1) by (auto simp: s2_def rec_space_def boot_space_def words_of_def fun_eq_iff)
  have "\<forall>b \<in> set B. blk_obj b < 254" using h(7) by simp
  then have seg2: "seg (rec_words s2) (large_allocations (heap s2)) 0 B 0 l" "slab_holds s2 (slab_page 0) (slab_frame 0) (map (object_at 16) (i # fl))"
    using slab_seg_words [OF h(5) rec_space_page [OF r2(1)]] r1(2) r2(3) l h1 by (simp_all add: s2_def)
  have c2: "caches (heap s2) ! 0 = slab_page 0" using r2(1) by (simp add: rec_space_def)
  obtain s3 s4 l' where s4: "create_large_alloc sv sz (large_page k) s2 = Inr (rec_addr i, s3)" "insert_large_alloc (rec_addr i) s3 = Inr s4"
      "recorded s2 s4" "slab_holds s4 (slab_page 0) (slab_frame 0) (map (object_at 16) fl)"
      "seg (rec_words s4) (large_allocations (heap s4)) 0 (?b # B) 0 l'"
    using push_record [OF c2 seg2(2,1) h(6,7), of sv sz k fs] by blast
  note r4 = rec_space_recorded [OF r2(1) s4(3)]
  have run: "kmalloc_large sv sz s = Inr (large_page k, s4)"
    using s1(1) s4(1,2) h(3) h1 sz by (simp add: kmalloc_large_def s2_def Let_def)
  have p4: "pmm s4 = p" "cr3 s4 = cr3 s" using r4(3,4) s1(3) remapped_keeps(3) [OF s1(2) Q] by (simp_all add: s2_def)
  have keep: "pt s4 j = pt s j" if "j < 1024" "j \<notin> large_index ` {k ..< k + ?n}" for j
    using r4(2) [OF that(1)] r2(2) remapped_keeps(6) [OF s1(2) Q that] by simp
  have new: "pt s4 (large_index q) = pt s1 (large_index q)" if "q < 148" for q
    using r4(2) [of "large_index q"] large_page_facts(7) [of q] that r2(2) by simp
  note al = pmm.alloc_many_used [OF _ assms(5,6)] alloc_frames_ok [OF h(2) assms(5,6)]
  have fs: "length fs = ?n" "distinct (map frame_no fs)" "frame_no ` set fs \<inter> used_frames (pmm s) = {}"
      "used_frames p = frame_no ` set fs \<union> used_frames (pmm s)" "pmm_ok p" "\<forall>a \<in> set fs. is_valid_frame_addr a"
    using al h(2) by (auto simp: pmm_ok_def)
  have n: "0 < ?n" using assms(3) by (simp add: pages_of_def word_less_nat_alt)
  have "frame_no a \<notin> {frame_no (cr3 s), frame_no (slab_frame 0)}" if "a \<in> set fs" for a using fs(3) u that by auto
  then have "block_ok (k + ?n) s4 ?b"
    using fs(1,4,6) n sz(1) s1(4) new assms(4,6) p4 by (auto simp: block_ok_def)
  moreover have "blocks_ok (k + ?n) B s4"
    using new remapped_page [OF s1(2) Q] assms(4) fs(4) p4 by (intro blocks_ok_keep [OF h(4)]) auto
  moreover have "blk_page c + length (blk_frames c) \<le> k" "frame_no ` set (blk_frames c) \<subseteq> used_frames (pmm s)" if "c \<in> set B" for c
    using h(4) that by (auto simp: blocks_ok_def block_ok_def)
  ultimately have "blocks_ok (k + ?n) (?b # B) s4"
    using fs(2,3) by (fastforce simp: blocks_ok_def)
  then have "large_heap (k + ?n) (?b # B) fl s4"
    using r4(1,5) p4 u fs(4,5) assms(4) s4(4,5) h(6,7) by (auto simp: large_heap_def s2_def)
  moreover have "same_queue s s4"
    using large_steps_queue(1) [OF s1(2)] large_steps_queue(2) [OF s4(3)] by (auto simp: same_queue_def s2_def)
  ultimately show ?thesis using run p4 keep by blast
qed

lemma kmalloc_large_fails:
  assumes "large_heap k B fl s" and "unat sz \<le> 148 * 4096" and "k + pages_of sz \<le> 148"
    and "alloc_frames (pages_of sz) (pmm s) = Inr (fs, p)" and "0 \<in> set fs"
  shows "\<exists>s'. kmalloc_large sv sz s = Inr (0, s') \<and> large_heap k B fl s' \<and> used_frames (pmm s') = used_frames (pmm s)
     \<and> (\<forall>j < 1024. pt s' j = pt s j \<or> pt s' j = 0 \<and> j \<in> large_index ` {k ..< k + pages_of sz}) \<and> same_queue s s'"
proof -
  let ?n = "pages_of sz"
  have h: "rec_space s" "pmm_ok (pmm s)" "current_large_heap_addr (heap s) = large_page k" "blocks_ok k B s"
      "slab_holds s (slab_page 0) (slab_frame 0) (map (object_at 16) fl)" "\<forall>j \<in> set (fl @ objects B). j < 254"
    using assms(1) by (auto simp: large_heap_def)
  obtain l where l: "seg (rec_words s) (large_allocations (heap s)) 0 B 0 l" using assms(1) by (auto simp: large_heap_def)
  have Q: "{k ..< k + ?n} \<subseteq> {..<148}" using assms(3) by auto
  have bs: "boot_space s" using h(1) by (simp add: rec_space_def)
  obtain s1 where s1: "map_large sv 0 ?n s = Inr (False, s1)" "remapped {k ..< k + ?n} s s1" "pmm_ok (pmm s1)"
      "used_frames (pmm s1) = used_frames (pmm s)" "\<forall>q \<in> {k ..< k + ?n}. pt s1 (large_index q) = 0 \<or> pt s1 (large_index q) = pt s (large_index q)"
    using map_large_fails [OF bs h(2,3), of "[]" ?n fs p sv] assms(3-5) by auto
  note r1 = rec_space_remapped [OF h(1) s1(2) Q] and k1 = remapped_keeps [OF s1(2) Q]
  have "blocks_ok k B s1"
    using remapped_page [OF s1(2) Q] assms(3) s1(4) k1(3) by (intro blocks_ok_keep [OF h(4)]) auto
  moreover have "\<forall>b \<in> set B. blk_obj b < 254" using h(6) by simp
  ultimately have "large_heap k B fl s1"
    using assms(1) r1(1) k1(1,3) s1(3,4) l slab_seg_words [OF h(5) rec_space_page [OF r1(1)] r1(2)] by (auto simp: large_heap_def)
  moreover have "pt s1 j = pt s j \<or> pt s1 j = 0 \<and> j \<in> large_index ` {k ..< k + ?n}" if "j < 1024" for j
    using k1(6) [OF that] s1(5) by (cases "j \<in> large_index ` {k ..< k + ?n}") auto
  ultimately show ?thesis
    using s1(1,4) aligned_size_pages(1) [OF assms(2)] large_steps_queue(1) [OF s1(2)] by (auto simp: kmalloc_large_def)
qed

section \<open>Releasing blocks\<close>

lemma find_block:
  assumes "blocks_ok k (xs @ b # ys) s" and "k \<le> 148"
  shows "find (\<lambda>c. large_page (blk_page c) = large_page (blk_page b)) (xs @ b # ys) = Some b"
proof -
  have "large_page (blk_page c) \<noteq> large_page (blk_page b)" if "c \<in> set xs" for c
  proof -
    have ok: "block_ok k s b" "block_ok k s c" using assms(1) that by (auto simp: blocks_ok_def)
    have "blk_page b + length (blk_frames b) \<le> blk_page c" using assms(1) that by (auto simp: blocks_ok_def sorted_wrt_append)
    moreover have "0 < length (blk_frames b)" using ok(1) by (auto simp: block_ok_def)
    ultimately show ?thesis
      using ok assms(2) large_page_inject [of "blk_page c" "blk_page b"] by (auto simp: block_ok_def)
  qed
  then have "find (\<lambda>c. large_page (blk_page c) = large_page (blk_page b)) xs = None" by (simp add: find_None_iff)
  then show ?thesis by (induction xs) (auto split: if_splits)
qed

lemma find_record:
  assumes "blocks_ok k B s" and "k \<le> 148" and "i < 254"
  shows "find (\<lambda>c. large_page (blk_page c) = rec_addr i) B = None"
proof -
  have "large_page (blk_page c) \<noteq> rec_addr i" if "c \<in> set B" for c
  proof -
    have "blk_page c < 916" using assms(1,2) that by (fastforce simp: blocks_ok_def block_ok_def)
    then have "unat (large_page (blk_page c)) < 0x8000000" using large_page_facts(1) [of "blk_page c"] by simp
    then show ?thesis using unat_rec_addr [OF assms(3)] by auto
  qed
  then show ?thesis by (simp add: find_None_iff)
qed

lemma blocks_ok_delete:
  assumes "blocks_ok k (xs @ b # ys) s" and "k \<le> 148" and "pmm s' = pmm s1" and "cr3 s' = cr3 s1" and "cr3 s1 = cr3 s"
    and "used_frames (pmm s1) = used_frames (pmm s) - frame_no ` set (blk_frames b)"
    and "\<And>j. j < 1024 \<Longrightarrow> pt s' j = (if j \<in> large_index ` {blk_page b ..< blk_page b + length (blk_frames b)} then 0 else pt s j)"
  shows "blocks_ok k (xs @ ys) s'"
proof -
  have "block_ok k s' c" if c: "c \<in> set (xs @ ys)" for c
  proof (rule block_ok_cong [of k s])
    show ok: "block_ok k s c" using assms(1) c by (auto simp: blocks_ok_def)
    have okb: "block_ok k s b" using assms(1) by (simp add: blocks_ok_def)
    have apart: "blk_page c + length (blk_frames c) \<le> blk_page b \<or> blk_page b + length (blk_frames b) \<le> blk_page c"
      using assms(1) c by (auto simp: blocks_ok_def sorted_wrt_append)
    show "\<forall>j < length (blk_frames c). pt s' (large_index (blk_page c + j)) = pt s (large_index (blk_page c + j))"
    proof (intro allI impI)
      fix j assume j: "j < length (blk_frames c)"
      have q: "blk_page c + j < 148" using ok j assms(2) by (auto simp: block_ok_def)
      have "large_index (blk_page c + j) \<noteq> large_index q" if "q \<in> {blk_page b ..< blk_page b + length (blk_frames b)}" for q
        using that apart j q okb assms(2) large_index_inject [of "blk_page c + j" q] by (auto simp: block_ok_def)
      then have "large_index (blk_page c + j) \<notin> large_index ` {blk_page b ..< blk_page b + length (blk_frames b)}" by blast
      then show "pt s' (large_index (blk_page c + j)) = pt s (large_index (blk_page c + j))"
        using assms(7) [of "large_index (blk_page c + j)"] large_page_facts(7) [of "blk_page c + j"] q by simp
    qed
    have "frame_no ` set (blk_frames b) \<inter> frame_no ` set (blk_frames c) = {}"
    proof (cases "c \<in> set xs")
      case True
      then have "frame_no ` set (blk_frames c) \<subseteq> frame_no ` (\<Union>a \<in> set xs. set (blk_frames a))" by blast
      moreover have "frame_no ` (\<Union>a \<in> set xs. set (blk_frames a)) \<inter> frame_no ` set (blk_frames b) = {}"
        using assms(1) by (simp add: blocks_ok_def) blast
      ultimately show ?thesis by blast
    next
      case False
      then have "frame_no ` set (blk_frames c) \<subseteq> frame_no ` (\<Union>a \<in> set ys. set (blk_frames a))" using c by auto
      moreover have "frame_no ` set (blk_frames b) \<inter> frame_no ` (\<Union>a \<in> set ys. set (blk_frames a)) = {}"
        using assms(1) by (simp add: blocks_ok_def)
      ultimately show ?thesis by blast
    qed
    then show "\<forall>a \<in> set (blk_frames c). frame_no a \<in> used_frames (pmm s')"
      using ok assms(3,6) by (auto simp: block_ok_def)
  qed (simp_all add: assms(4,5))
  moreover have "distinct (map frame_no (concat (map blk_frames (xs @ ys))))" using assms(1) by (simp add: blocks_ok_def) blast
  moreover have "sorted_wrt (\<lambda>b c. blk_page c + length (blk_frames c) \<le> blk_page b) (xs @ ys)"
    using assms(1) by (simp add: blocks_ok_def sorted_wrt_append)
  ultimately show ?thesis by (simp add: blocks_ok_def)
qed

text \<open>An address above the heap goes to the list of large blocks.\<close>

lemma kfree_above:
  assumes "rec_space s" and "0x406C000 < unat ptr"
  shows "kfree_step sv ptr s = kmalloc_large_free_step sv ptr s"
proof -
  have "KERNEL_HEAP_SIZE = 0x6C000" by (simp add: KERNEL_HEAP_SIZE_def PMM_BLOCK_SIZE_def NUM_CACHES_def EXTRA_BLOCKS_def)
  then have "heap_base s + KERNEL_HEAP_SIZE = 0x406C000" using assms(1) by (simp add: rec_space_def)
  moreover have "0x406C000 < ptr" using assms(2) by (simp add: word_less_nat_alt)
  ultimately show ?thesis by (auto simp: kfree_step_def kmalloc_large_free_step_def)
qed

lemma kfree_large_ok:
  assumes "large_heap k (xs @ b # ys) fl s" and "0 < blk_page b"
  shows "\<exists>s'. kfree sv (large_page (blk_page b)) s = Inr s' \<and> large_heap k (xs @ ys) fl s'
     \<and> used_frames (pmm s') = used_frames (pmm s) - frame_no ` set (blk_frames b)
     \<and> (\<forall>j < 1024. pt s' j = (if j \<in> large_index ` {blk_page b ..< blk_page b + length (blk_frames b)} then 0 else pt s j)) \<and> same_queue s s'"
proof -
  let ?B = "xs @ b # ys" and ?v = "large_page (blk_page b)" and ?o = "blk_obj b" and ?n = "length (blk_frames b)"
  let ?Q = "{blk_page b ..< blk_page b + ?n}"
  have h: "rec_space s" "pmm_ok (pmm s)" "blocks_ok k ?B s" "k \<le> 148" "slab_holds s (slab_page 0) (slab_frame 0) (map (object_at 16) fl)"
      "distinct (fl @ objects ?B)" "\<forall>j \<in> set (fl @ objects ?B). j < 254" "current_large_heap_addr (heap s) = large_page k"
      "{frame_no (cr3 s), frame_no (slab_frame 0)} \<subseteq> used_frames (pmm s)"
    using assms(1) by (auto simp: large_heap_def)
  obtain l where l: "seg (rec_words s) (large_allocations (heap s)) 0 ?B 0 l" using assms(1) by (auto simp: large_heap_def)
  have ok: "block_ok k s b" using h(3) by (simp add: blocks_ok_def)
  have o: "?o < 254" "\<forall>b \<in> set ?B. blk_obj b < 254" using h(7) by auto
  have Q: "?Q \<subseteq> {..<148}" and pg: "blk_page b < 916" using ok h(4) by (auto simp: block_ok_def)
  have v: "0x406C000 < unat ?v" "?v \<noteq> 0" using large_page_facts(1) [OF pg] assms(2) by auto
  have page: "rec_page s" using h(1) by (rule rec_space_page)
  have found: "get_large_alloc_by_ptr ?v s = Inr (rec_addr ?o)"
    using find_large_seg [OF page l o(2), of ?v] find_block [OF h(3,4)] by (simp add: get_large_alloc_by_ptr_def)
  have size: "load (large_size (rec_addr ?o)) s = Inr (blk_size b)"
    using rec_access(1) [OF page o(1), of 0] l by (auto simp: record_fields seg_append node_def)
  have bs: "boot_space s" using h(1) by (simp add: rec_space_def)
  obtain s1 where s1: "unmap_pages sv ?v 0 ?n s = Inr s1" "remapped ?Q s s1" "\<forall>q \<in> ?Q. pt s1 (large_index q) = 0" "pmm_ok (pmm s1)"
      "used_frames (pmm s1) = used_frames (pmm s) - frame_no ` set (blk_frames b)"
    using unmap_pages_ok [OF bs h(2), of "blk_page b" 0 "blk_frames b" sv] ok h(4) by (auto simp: block_ok_def)
  note r1 = rec_space_remapped [OF h(1) s1(2) Q] and k1 = remapped_keeps [OF s1(2) Q]
  note w1 = slab_seg_words [OF h(5) rec_space_page [OF r1(1)] r1(2)]
  have l1: "seg (rec_words s1) (large_allocations (heap s1)) 0 ?B 0 l" using l o(2) w1(2) [of ?B] k1(1) by simp
  have d: "distinct (objects ?B)" "\<forall>j \<in> set (objects ?B). j < 254" using h(6,7) by auto
  obtain s2 l2 where s2: "large_alloc_unlink (rec_addr ?o) s1 = Inr s2" "recorded s1 s2" "rec_page s2" "rec_words s2 = unlinked xs b ys (rec_words s1)"
      "seg (rec_words s2) (large_allocations (heap s2)) 0 (xs @ ys) 0 l2"
    using unlink_ok [OF rec_space_page [OF r1(1)] l1 d] by blast
  note r2 = rec_space_recorded [OF r1(1) s2(2)]
  have pages: "pt s2 j = (if j \<in> large_index ` ?Q then 0 else pt s j)" if "j < 1024" for j
    using r2(2) [OF that] k1(6) [OF that] s1(3) by auto
  have "slab_holds s2 (slab_page 0) (slab_frame 0) (map (object_at 16) fl)"
  proof (rule slab_holds_apart [OF w1(1) s2(3)])
    show "rec_words s2 a = rec_words s1 a" if "\<forall>j \<in> blk_obj ` set ?B. \<forall>c < 4. a \<noteq> cell j c" for a
      using that unfolding s2(4) by (rule unlinked_other)
  qed (use h(6,7) in auto)
  moreover have B2: "blocks_ok k (xs @ ys) s2" using h(3,4) r2(3,4) k1(3) s1(5) pages by (rule blocks_ok_delete)
  moreover have free: "distinct (fl @ objects (xs @ ys))" "\<forall>j \<in> set (fl @ objects (xs @ ys)). j < 254" using h(6,7) by auto
  have kept: "{frame_no (cr3 s1), frame_no (slab_frame 0)} \<subseteq> used_frames (pmm s1)"
    using h(9) ok unfolding s1(5) k1(3) by (auto simp: block_ok_def)
  ultimately have heap2: "large_heap k (xs @ ys) fl s2"
    using r2(1) h(4,8) s2(5) free kept unfolding large_heap_def r2(3,4,5) k1(1) by (intro conjI) (auto simp: s1(4))
  have "0x406C000 < unat (rec_addr ?o)" using unat_rec_addr [OF o(1)] by simp
  moreover have "get_large_alloc_by_ptr (rec_addr ?o) s2 = Inr 0"
    using find_large_seg [OF s2(3,5), of "rec_addr ?o"] o find_record [OF B2 h(4) o(1)] by (simp add: get_large_alloc_by_ptr_def)
  ultimately have last: "kfree_step sv (rec_addr ?o) s2 = Inr (None, s2)"
    using kfree_above [OF r2(1)] rec_addr_nz [OF o(1)] by (simp add: kmalloc_large_free_step_def)
  have "kfree_step sv ?v s = Inr (Some (rec_addr ?o), s2)"
    using kfree_above [OF h(1) v(1)] v(2) found rec_addr_nz [OF o(1)] size s1(1) s2(1) ok
    by (simp add: kmalloc_large_free_step_def block_ok_def)
  then have "kfree sv ?v s = Inr s2" using last by (simp add: kfree_def kfree_loop.simps)
  moreover have "same_queue s s2" using large_steps_queue(1) [OF s1(2)] large_steps_queue(2) [OF s2(2)] by (rule same_queue_trans)
  ultimately show ?thesis using heap2 pages r2(3) s1(5) by auto
qed

end
