(* ===== verification/Large_Heap.thy ===== *)
theory Large_Heap
  imports Large_Blocks
begin

text \<open>
  The large allocations of memory/kmalloc.c seen by their callers: from the state the kernel boots into, what
  \<open>kmalloc\<close> and \<open>kfree\<close> do to the list of blocks, to the frames and to the translation of addresses, and the two
  places where it goes wrong: the first block, and the page that has the VGA buffer's index.
\<close>

section \<open>Translation\<close>

lemma booted_page:
  assumes "booted s" and "aligned v" and "get_directory_index v \<noteq> 1023" and "b < 4096"
  shows "translate s (v + b) = (if is_page_present (pt s (get_table_index v)) then Some (get_frame_addr (pt s (get_table_index v)) + b) else None)"
proof -
  have f: "get_frame_addr (v + b) = v" using assms(2,4) by (rule frame_of_sum)
  then have idx: "get_directory_index (v + b) = get_directory_index v" "get_table_index (v + b) = get_table_index v"
    using get_frame_aligned [of v] assms(2) same_page_iff [of "v + b" v] by simp_all
  have "v + b = get_frame_addr (v + b) + get_frame_offset (v + b)" by (simp add: frame_plus_own_offset)
  then have "get_frame_offset (v + b) = b" unfolding f by simp
  then show ?thesis using booted_translate [OF assms(1), of "v + b"] assms(3) idx by simp
qed

lemma large_translate:
  assumes "boot_space s" and "q < 916" and "b < 4096"
  shows "translate s (large_page q + b) =
     (if is_page_present (pt s (large_index q)) then Some (get_frame_addr (pt s (large_index q)) + b) else None)"
  using booted_page [of s "large_page q" b] large_page_facts(3-5) [OF assms(2)] assms(1,3) by (simp add: boot_space_def)

lemma vga_translate:
  assumes "boot_space s" and "b < 4096"
  shows "translate s (0xB8000 + b) =
     (if is_page_present (pt s (large_index 76)) then Some (get_frame_addr (pt s (large_index 76)) + b) else None)"
proof -
  have "get_table_index 0xB8000 = large_index 76" "get_directory_index 0xB8000 = 0" "aligned 0xB8000"
    by (simp_all add: get_table_index_def get_directory_index_def large_index_def aligned_def)
  then show ?thesis using booted_page [of s "0xB8000" b] assms by (simp add: boot_space_def)
qed

lemma large_heap_space: "large_heap k B fl s \<Longrightarrow> boot_space s"
  by (simp add: large_heap_def rec_space_def)

lemma vga_index:
  assumes "k + n \<le> 76"
  shows "large_index 76 \<notin> large_index ` {k ..< k + n}"
proof -
  have "large_index 76 \<noteq> large_index q" if "q \<in> {k ..< k + n}" for q
    using large_index_inject [of 76 q] that assms by auto
  then show ?thesis by blast
qed

lemma pages_of_bound: "pages_of sz \<le> n \<Longrightarrow> unat sz \<le> n * 4096"
  unfolding pages_of_def by linarith

section \<open>Frames left after booting\<close>

lemma alloc_frames_succeed:
  assumes "pmm_ok p" and "n \<le> card ({8 ..< 8 * PMM_BITMAP_SIZE} - used_frames p)"
  shows "\<exists>fs p'. alloc_frames n p = Inr (fs, p') \<and> 0 \<notin> set fs"
  using assms
proof (induction n arbitrary: p)
  case (Suc n)
  let ?U = "{8 ..< 8 * PMM_BITMAP_SIZE} - used_frames p"
  obtain a p1 where a: "pmm_alloc_frame p = (a, p1)" by fastforce
  have nz: "a \<noteq> 0"
  proof
    assume "a = 0"
    then have "?U = {}" unfolding Diff_eq_empty_iff using pmm_alloc_zero [of p p1] a Suc.prems(1) by (auto simp: pmm_ok_def)
    with Suc.prems(2) show False by (simp only: card.empty)
  qed
  note al = pmm_ok_alloc(1,4) [OF Suc.prems(1) a]
  have "?U - {frame_no a} \<subseteq> {8 ..< 8 * PMM_BITMAP_SIZE} - used_frames p1" using al(2) nz by blast
  then have "card (?U - {frame_no a}) \<le> card ({8 ..< 8 * PMM_BITMAP_SIZE} - used_frames p1)" by (intro card_mono) simp_all
  moreover have "n \<le> card (?U - {frame_no a})" using Suc.prems(2) diff_card_le_card_Diff [of "{frame_no a}" ?U] by simp
  ultimately obtain fs p' where "alloc_frames n p1 = Inr (fs, p')" "0 \<notin> set fs" using Suc.IH [OF al(1)] by fastforce
  then show ?case using a nz by auto
qed simp

lemma boot_frames:
  assumes "0x100000 \<le> ke" and "ke \<le> 0x39C000" and "n \<le> 176"
  shows "n \<le> card ({8 ..< 8 * PMM_BITMAP_SIZE} - reserved_frames (kernel_layout ke))"
proof -
  have ke: "ke \<le> 0x3F00000" using assms(2) by (rule order_trans) simp
  have "{8 ..< 184} \<subseteq> {8 ..< 8 * PMM_BITMAP_SIZE} - reserved_frames (kernel_layout ke)"
    by (auto simp: reserved_frames_layout [OF assms(1) ke] PMM_BITMAP_SIZE_def)
  then have "card {8 ..< 184 :: nat} \<le> card ({8 ..< 8 * PMM_BITMAP_SIZE} - reserved_frames (kernel_layout ke))"
    by (intro card_mono) simp_all
  then show ?thesis using assms(3) by simp
qed

section \<open>The booted kernel\<close>

text \<open>The objects of the smallest cache from the \<open>n\<close>th on.\<close>

definition records_from :: "nat \<Rightarrow> nat list" where "records_from n = [n ..< 254]"

lemma records_from_step: "n < 254 \<Longrightarrow> records_from n = n # records_from (Suc n)"
  by (simp only: records_from_def upt_conv_Cons)

lemma first_records: "records_from 0 = 0 # records_from 1" "records_from 1 = 1 # records_from 2"
  using records_from_step [of 0] records_from_step [of 1] by (simp_all flip: Suc_1)

text \<open>After \<open>vmm_init\<close> and \<open>init_kmalloc\<close> there is no block, and every object of the smallest cache is free for a record.\<close>

lemma boot_large_heap:
  assumes "0x100000 \<le> kdir" and "kdir < ke" and "ke \<le> 0x39C000" and "aligned kdir" and "\<not> paging_enabled s"
    and "\<forall>i < 1024. mem s (entry_addr kdir i) = 0" and "heap s = kheap_static" and "pmm s = snd (pmm_init (kernel_layout ke) pmm_static)"
  shows "\<exists>s1 s2. vmm_init sv (kernel_layout ke) kdir s = Inr s1 \<and> init_kmalloc sv s1 = Inr s2 \<and> heap_ready 8 s2 \<and> pmm s2 = pmm s \<and> same_queue s s2
     \<and> large_heap 0 [] (records_from 0) s2"
proof -
  obtain s1 s2 where s: "vmm_init sv (kernel_layout ke) kdir s = Inr s1" "init_kmalloc sv s1 = Inr s2" "heap_ready 8 s2"
      "pmm s2 = pmm s" "same_queue s s2" "cr3 s2 = kdir" "current_large_heap_addr (heap s2) = 0x406C000" "large_allocations (heap s2) = 0"
    using boot_heap [OF assms(1-7), of sv] by blast
  note kd = kernel_directory_facts [OF assms(1-3)]
  have ke: "0x100000 \<le> ke" "ke \<le> 0x3F00000" using assms(1-3) by (auto simp: word_le_nat_alt word_less_nat_alt)
  have "unat (get_table_index kdir) = frame_no kdir" using unat_table_index [of kdir] kd(2) by simp
  then have sp: "rec_space s2"
    using s(3) [unfolded heap_ready_def] kd(1,6) unfolding s(6) rec_space_def boot_space_def
    by (elim conjE) (drule spec [of _ 0], simp)
  have "slab_capacity 16 = 254" "cache_sizes ! 0 = 16" by (simp_all add: slab_capacity_def cache_sizes_def)
  then have "slab_holds s2 (slab_page 0) (slab_frame 0) (map (object_at 16) (records_from 0))"
    using s(3) unfolding heap_ready_def records_from_def by (metis (no_types, lifting) zero_less_numeral)
  moreover have "{frame_no kdir, frame_no (slab_frame 0)} \<subseteq> used_frames (pmm s2)"
    using kd(3) slab_page_facts(8) [of 0] unfolding s(4) assms(8) pmm_init_used by (auto simp: reserved_frames_layout [OF ke])
  moreover have "distinct (records_from 0)" "\<forall>j \<in> set (records_from 0). j < 254" by (auto simp: records_from_def)
  ultimately have "large_heap 0 [] (records_from 0) s2"
    using sp s pmm_init_static by (simp add: large_heap_def blocks_ok_def pmm_ok_def assms(8) large_page_def)
  then show ?thesis using s by blast
qed

section \<open>Properties\<close>

lemma large_block_frames:
  assumes "large_heap k B fl s" and "b \<in> set B" and "j < length (blk_frames b)"
  shows "blk_page b + j < 148" "translate s (large_page (blk_page b + j)) = Some (blk_frames b ! j)"
    "data_page s (large_page (blk_page b + j)) (blk_frames b ! j)" "blk_frames b ! j \<notin> {0, cr3 s, slab_frame 0}"
proof -
  let ?q = "blk_page b + j" and ?f = "blk_frames b ! j"
  have ok: "block_ok k s b" and h: "boot_space s" "k \<le> 148" using assms(1,2) large_heap_space [OF assms(1)] by (auto simp: large_heap_def blocks_ok_def)
  show q: "?q < 148" using ok h(2) assms(3) by (auto simp: block_ok_def)
  have "?f \<in> set (blk_frames b)" using assms(3) by simp
  then show f: "?f \<notin> {0, cr3 s, slab_frame 0}" using ok unfolding block_ok_def by force
  have e: "is_page_present (pt s (large_index ?q))" "get_frame_addr (pt s (large_index ?q)) = ?f" using ok assms(3) by (simp_all add: block_ok_def)
  then show "translate s (large_page ?q) = Some ?f" using large_translate [OF h(1), of ?q 0] q by simp
  show "data_page s (large_page ?q) ?f"
    using e f q h(1) large_page_facts(3-5) [of ?q] by (intro booted_data_page) (simp_all add: boot_space_def)
qed

text \<open>Writes into other frames keep the large heap.\<close>

lemma large_heap_within:
  assumes "large_heap k B fl s" and "within f s s'" and "f \<notin> {0, cr3 s, slab_frame 0}"
  shows "large_heap k B fl s'"
proof -
  have h: "rec_space s" "booted s" "slab_holds s (slab_page 0) (slab_frame 0) (map (object_at 16) fl)" "\<forall>b \<in> set B. blk_obj b < 254" "blocks_ok k B s"
    using assms(1) by (auto simp: large_heap_def rec_space_def boot_space_def)
  obtain m where m: "s' = s\<lparr>mem := m\<rparr>" "\<forall>p. get_frame_addr p \<noteq> f \<longrightarrow> m p = mem s p" using assms(2) by (auto simp: within_def)
  have f: "f \<noteq> 0" "f \<noteq> cr3 s" "slab_frame 0 \<noteq> f" using assms(3) by auto
  note w = booted_within [OF h(2) assms(2) f(1,2)]
  have pt: "pt s' j = pt s j" if "j < 1024" for j using w(2) [of j] that by simp
  have sp: "rec_space s'" using h(1) w(1) pt [of 0] by (simp add: rec_space_def boot_space_def m(1))
  have words: "rec_words s' b = rec_words s b" if "b < 4096" for b
    using m f(3) frame_of_sum [OF slab_page_facts(4) [of 0] that] by (simp add: words_of_def)
  have "k \<le> 148" using assms(1) by (simp add: large_heap_def)
  then have "blocks_ok k B s'" using pt large_page_facts(7) by (intro blocks_ok_keep [OF h(5)]) (simp_all add: m(1))
  then show ?thesis
    using assms(1) sp slab_seg_words [OF h(3) rec_space_page [OF sp] words] h(4) by (auto simp: large_heap_def m(1))
qed

text \<open>
  C10. Allocation of a large block refines the list of blocks. While the block ends before the page with the VGA
  buffer's index, \<open>kmalloc\<close> takes one frame per page; when they are all there it returns the next address, the
  block is in front of the list and its pages translate to the frames; when they run out it returns null and every
  frame it took is given back. In both cases the addresses of the VGA buffer translate as before.
\<close>

theorem large_alloc_refines:
  assumes "large_heap k B (i # fl) s" and "MAX_CACHE_SIZE < sz" and "k + pages_of sz \<le> 76"
    and "alloc_frames (pages_of sz) (pmm s) = Inr (fs, p)"
  shows "\<exists>s'. kmalloc sv sz s = Inr (if 0 \<in> set fs then 0 else large_page k, s')
     \<and> (if 0 \<in> set fs then large_heap k B (i # fl) s' \<and> used_frames (pmm s') = used_frames (pmm s)
        else large_heap (k + pages_of sz) (\<lparr>blk_obj = i, blk_size = sz, blk_page = k, blk_frames = fs\<rparr> # B) fl s' \<and> pmm s' = p
          \<and> (\<forall>j < pages_of sz. translate s' (large_page (k + j)) = Some (fs ! j)))
     \<and> (\<forall>b < 4096. translate s' (0xB8000 + b) = translate s (0xB8000 + b))"
proof -
  let ?n = "pages_of sz" and ?b = "\<lparr>blk_obj = i, blk_size = sz, blk_page = k, blk_frames = fs\<rparr>"
  have sz: "unat sz \<le> 148 * 4096" "0 < sz" "k + ?n \<le> 148"
    using pages_of_bound [of sz 148] assms(2,3) by (auto simp: MAX_CACHE_SIZE_def word_less_nat_alt)
  have kl: "kmalloc sv sz s = kmalloc_large sv sz s" using assms(2) by (simp add: kmalloc_def)
  have vga: "\<forall>b < 4096. translate s' (0xB8000 + b) = translate s (0xB8000 + b)"
    if "boot_space s'" "pt s' (large_index 76) = pt s (large_index 76)" for s'
    using vga_translate [OF that(1)] vga_translate [OF large_heap_space [OF assms(1)]] that(2) by simp
  note i76 = vga_index [OF assms(3)] large_page_facts(7) [of 76]
  show ?thesis
  proof (cases "0 \<in> set fs")
    case True
    then obtain s' where s': "kmalloc_large sv sz s = Inr (0, s')" "large_heap k B (i # fl) s'" "used_frames (pmm s') = used_frames (pmm s)"
        "\<forall>j < 1024. pt s' j = pt s j \<or> pt s' j = 0 \<and> j \<in> large_index ` {k ..< k + ?n}"
      using kmalloc_large_fails [OF assms(1) sz(1,3) assms(4)] by blast
    moreover have "pt s' (large_index 76) = pt s (large_index 76)" using s'(4) i76 by auto
    ultimately show ?thesis using True kl vga [OF large_heap_space] by auto
  next
    case False
    then obtain s' where s': "kmalloc_large sv sz s = Inr (large_page k, s')" "pmm s' = p" "large_heap (k + ?n) (?b # B) fl s'"
        "\<forall>j < 1024. j \<notin> large_index ` {k ..< k + ?n} \<longrightarrow> pt s' j = pt s j"
      using kmalloc_large_ok [OF assms(1) sz assms(4)] by blast
    moreover have "pt s' (large_index 76) = pt s (large_index 76)" using s'(4) i76 by auto
    moreover have "length fs = ?n"
      using pmm.alloc_many_used [OF _ assms(4) False] assms(1) by (auto simp: large_heap_def pmm_ok_def)
    ultimately show ?thesis using False kl vga [OF large_heap_space] large_block_frames(2) [OF s'(3), of ?b] by auto
  qed
qed

text \<open>
  C11. Release of a large block refines deletion from the list, for every block but the one at the first address:
  wherever it is in the list, its record is unlinked, its frames go back to the allocator and no other, none of its
  addresses translates any more, and the other blocks stay. Neither its addresses nor its record are used again:
  the next address \<open>k\<close> and the free objects \<open>fl\<close> are as before.
\<close>

theorem large_free_releases:
  assumes "large_heap k (xs @ b # ys) fl s" and "0 < blk_page b"
  shows "\<exists>s'. kfree sv (large_page (blk_page b)) s = Inr s' \<and> large_heap k (xs @ ys) fl s'
     \<and> used_frames (pmm s') = used_frames (pmm s) - frame_no ` set (blk_frames b)
     \<and> (\<forall>j < length (blk_frames b). \<forall>c < 4096. translate s' (large_page (blk_page b + j) + c) = None)"
proof -
  obtain s' where s': "kfree sv (large_page (blk_page b)) s = Inr s'" "large_heap k (xs @ ys) fl s'"
      "used_frames (pmm s') = used_frames (pmm s) - frame_no ` set (blk_frames b)"
      "\<forall>j < 1024. pt s' j = (if j \<in> large_index ` {blk_page b ..< blk_page b + length (blk_frames b)} then 0 else pt s j)"
    using kfree_large_ok [OF assms, of sv] by blast
  have "translate s' (large_page (blk_page b + j) + c) = None" if "j < length (blk_frames b)" "c < 4096" for j c
  proof -
    have q: "blk_page b + j < 148" using large_block_frames(1) [OF assms(1) _ that(1)] by simp
    then have "pt s' (large_index (blk_page b + j)) = 0" using s'(4) large_page_facts(7) [of "blk_page b + j"] that(1) by auto
    then show ?thesis using large_translate [OF large_heap_space [OF s'(2)], of "blk_page b + j" c] q that(2) by (simp add: is_page_present_def)
  qed
  then show ?thesis using s'(1-3) by blast
qed

text \<open>
  C38. The first large block can not be freed. Its address is the end of the small heap, which the test in \<open>kfree\<close>
  takes for an address of the small heap: no frame is released, the block stays in the list, and the block's own
  bytes are treated as a slab whose free list gets the block itself: words 0, 1 and 3 of its data are overwritten.
\<close>

theorem kfree_first_large_block:
  assumes "large_heap k B fl s" and "b \<in> set B" and "blk_page b = 0"
  shows "\<exists>s' w c. kfree sv (large_page 0) s = Inr s' \<and> large_heap k B fl s' \<and> pmm s' = pmm s
     \<and> load (large_page 0 + 4) s = Inr w \<and> load (large_page 0 + 12) s = Inr c
     \<and> load (large_page 0) s' = Inr w \<and> load (large_page 0 + 4) s' = Inr (large_page 0) \<and> load (large_page 0 + 12) s' = Inr (c + 1)"
proof -
  let ?v = "large_page 0" and ?f = "blk_frames b ! 0"
  have "0 < length (blk_frames b)" using assms(1,2) by (auto simp: large_heap_def blocks_ok_def block_ok_def)
  note bf = large_block_frames [OF assms(1,2) this, unfolded assms(3) add_0]
  have f: "aligned ?f" using bf(3) by (simp add: data_page_def)
  define s1 where "s1 = put_word ?f 0 (words_of ?f s 4) s"
  define s2 where "s2 = put_word ?f 4 ?v s1"
  define s3 where "s3 = put_word ?f 12 (words_of ?f s2 12 + 1) s2"
  have d: "data_page s1 ?v ?f" "data_page s2 ?v ?f" "data_page s3 ?v ?f" using bf(3) by (simp_all add: s1_def s2_def s3_def)
  have "store ?v x s = Inr (put_word ?f 0 x s)" for x using data_page_access(2) [OF bf(3), of 0 x] by simp
  then have "slab_free ?v ?v s = Inr s3"
    using slab_header [OF bf(3)] slab_header [OF d(1)] slab_header [OF d(2)] by (simp add: slab_free_def s1_def s2_def s3_def)
  moreover have "\<not> (?v < heap_base s \<or> heap_base s + KERNEL_HEAP_SIZE < ?v)" "?v \<noteq> 0"
    using assms(1) by (simp_all add: large_heap_def rec_space_def large_page_def KERNEL_HEAP_SIZE_def PMM_BLOCK_SIZE_def NUM_CACHES_def EXTRA_BLOCKS_def)
  moreover have "?v AND NOT (PMM_BLOCK_SIZE - 1) = ?v" by (simp add: large_page_def PMM_BLOCK_SIZE_def)
  ultimately have "kfree_step sv ?v s = Inr (None, s3)" by (simp add: kfree_step_def)
  then have "kfree sv ?v s = Inr s3" by (simp add: kfree_def kfree_loop.simps)
  moreover have "within ?f s s3" unfolding s3_def s2_def s1_def
    using f by (intro within_trans [OF within_trans [OF within_put within_put] within_put]) simp_all
  then have "large_heap k B fl s3" using assms(1) bf(4) by (intro large_heap_within [OF assms(1)])
  moreover have "load ?v s3 = Inr (words_of ?f s3 0)" using data_page_access(1) [OF d(3), of 0] by simp
  ultimately show ?thesis
    using data_page_access(1) [OF bf(3), of 4] data_page_access(1) [OF bf(3), of 12] data_page_access(1) [OF d(3), of 4] data_page_access(1) [OF d(3), of 12]
    by (simp add: s3_def s2_def s1_def put_word_def words_of_def)
qed

text \<open>
  Large blocks take the screen. The page tables are one table, in which page 76 above the heap has the entry of
  the VGA buffer: the block that reaches this page makes the address the screen driver writes to translate to a
  frame of the block.
\<close>

theorem large_heap_captures_screen:
  assumes "large_heap k B (i # fl) s" and "MAX_CACHE_SIZE < sz" and "k \<le> 76" and "76 < k + pages_of sz" and "k + pages_of sz \<le> 148"
    and "alloc_frames (pages_of sz) (pmm s) = Inr (fs, p)" and "0 \<notin> set fs"
  shows "\<exists>s'. kmalloc sv sz s = Inr (large_page k, s')
     \<and> (\<forall>b < 4096. translate s' (0xB8000 + b) = Some (fs ! (76 - k) + b)) \<and> frame_no (fs ! (76 - k)) \<notin> used_frames (pmm s)"
proof -
  let ?n = "pages_of sz" and ?b = "\<lparr>blk_obj = i, blk_size = sz, blk_page = k, blk_frames = fs\<rparr>"
  have sz: "unat sz \<le> 148 * 4096" "0 < sz"
    using pages_of_bound [of sz 148] assms(2,5) by (auto simp: MAX_CACHE_SIZE_def word_less_nat_alt)
  obtain s' where s': "kmalloc_large sv sz s = Inr (large_page k, s')" "large_heap (k + ?n) (?b # B) fl s'"
    using kmalloc_large_ok [OF assms(1) sz assms(5-7)] by blast
  have fs: "length fs = ?n" "frame_no ` set fs \<inter> used_frames (pmm s) = {}"
    using pmm.alloc_many_used [OF _ assms(6,7)] assms(1) by (auto simp: large_heap_def pmm_ok_def)
  have j: "76 - k < length fs" using fs(1) assms(3,4) by simp
  then have "is_page_present (pt s' (large_index 76))" "get_frame_addr (pt s' (large_index 76)) = fs ! (76 - k)"
    using s'(2) assms(3) by (auto simp: large_heap_def blocks_ok_def block_ok_def dest: spec [of _ "76 - k"])
  then have "translate s' (0xB8000 + b) = Some (fs ! (76 - k) + b)" if "b < 4096" for b
    using vga_translate [OF large_heap_space [OF s'(2)] that] by simp
  moreover have "frame_no (fs ! (76 - k)) \<notin> used_frames (pmm s)" using fs(2) j by (metis disjoint_iff imageI nth_mem)
  moreover have "kmalloc sv sz s = kmalloc_large sv sz s" using assms(2) by (simp add: kmalloc_def)
  ultimately show ?thesis using s'(1) by auto
qed

section \<open>Witnesses\<close>

text \<open>Blocks one after the other, while frames are left.\<close>

lemma kmalloc_large_succeeds:
  assumes "large_heap k B (i # fl) s" and "MAX_CACHE_SIZE < sz" and "k + pages_of sz \<le> 148"
    and "pages_of sz + m \<le> card ({8 ..< 8 * PMM_BITMAP_SIZE} - used_frames (pmm s))"
  obtains s' fs where "kmalloc sv sz s = Inr (large_page k, s')" "length fs = pages_of sz"
    "large_heap (k + pages_of sz) (\<lparr>blk_obj = i, blk_size = sz, blk_page = k, blk_frames = fs\<rparr> # B) fl s'"
    "m \<le> card ({8 ..< 8 * PMM_BITMAP_SIZE} - used_frames (pmm s'))" "same_queue s s'"
proof -
  let ?U = "{8 ..< 8 * PMM_BITMAP_SIZE} - used_frames (pmm s)"
  have p: "pmm_ok (pmm s)" using assms(1) by (simp add: large_heap_def)
  obtain fs p' where fs: "alloc_frames (pages_of sz) (pmm s) = Inr (fs, p')" "0 \<notin> set fs"
    using alloc_frames_succeed [OF p, of "pages_of sz"] assms(4) by auto
  have "unat sz \<le> 148 * 4096" "0 < sz"
    using pages_of_bound [of sz 148] assms(2,3) by (auto simp: MAX_CACHE_SIZE_def word_less_nat_alt)
  then obtain s' where s': "kmalloc_large sv sz s = Inr (large_page k, s')" "pmm s' = p'"
      "large_heap (k + pages_of sz) (\<lparr>blk_obj = i, blk_size = sz, blk_page = k, blk_frames = fs\<rparr> # B) fl s'" "same_queue s s'"
    using kmalloc_large_ok [OF assms(1) _ _ assms(3) fs] by blast
  have al: "length fs = pages_of sz" "used_frames p' = frame_no ` set fs \<union> used_frames (pmm s)"
    using pmm.alloc_many_used [OF _ fs] p by (simp_all add: pmm_ok_def)
  have "card (frame_no ` set fs) \<le> pages_of sz" using card_image_le [of "set fs" frame_no] card_length [of fs] al(1) by simp
  moreover have "card ?U - card (frame_no ` set fs) \<le> card (?U - frame_no ` set fs)" by (rule diff_card_le_card_Diff) simp
  moreover have "card (?U - frame_no ` set fs) = card ({8 ..< 8 * PMM_BITMAP_SIZE} - used_frames (pmm s'))"
    using al(2) s'(2) by (intro arg_cong [of _ _ card]) blast
  ultimately have "m \<le> card ({8 ..< 8 * PMM_BITMAP_SIZE} - used_frames (pmm s'))" using assms(4) by linarith
  then show thesis using that s' al(1) assms(2) by (simp add: kmalloc_def)
qed

text \<open>The kernel that has just booted.\<close>

definition boot_kvm_frames :: kvm where
  "boot_kvm_frames = boot_kvm\<lparr>pmm := snd (pmm_init (kernel_layout 0x110000) pmm_static)\<rparr>"

lemma boot_kvm_large:
  obtains s1 s2 where "vmm_init idle_services (kernel_layout 0x110000) 0x108000 boot_kvm_frames = Inr s1" "init_kmalloc idle_services s1 = Inr s2"
    "large_heap 0 [] (records_from 0) s2" "176 \<le> card ({8 ..< 8 * PMM_BITMAP_SIZE} - used_frames (pmm s2))" "page_queue s2 []"
proof -
  obtain s1 s2 where s: "vmm_init idle_services (kernel_layout 0x110000) 0x108000 boot_kvm_frames = Inr s1" "init_kmalloc idle_services s1 = Inr s2"
      "pmm s2 = pmm boot_kvm_frames" "same_queue boot_kvm_frames s2" "large_heap 0 [] (records_from 0) s2"
    using boot_large_heap [of "0x108000" "0x110000" boot_kvm_frames idle_services] by (auto simp: boot_kvm_frames_def boot_kvm_def aligned_def)
  have "page_queue boot_kvm_frames []" by (simp add: page_queue_def boot_kvm_frames_def boot_kvm_def)
  then have "page_queue s2 []" using page_queue_same(1) [OF s(4)] by simp
  then show thesis using that s(1,2,5) boot_frames [of "0x110000" 176] s(3) by (simp add: boot_kvm_frames_def pmm_init_used)
qed

lemma pages_of_examples: "pages_of 4096 = 1" "pages_of 5000 = 2" "pages_of 0x50000 = 80"
  by (simp_all add: pages_of_def)

lemma large_page_examples: "large_page 0 = 0x406C000" "large_page (Suc 0) = 0x406D000"
  by (simp_all add: large_page_def)

lemma diff_psubset: "A \<subseteq> B \<Longrightarrow> A \<noteq> {} \<Longrightarrow> B - A \<subset> B"
  by blast

lemma first_large_block:
  obtains s1 s2 s3 a where "vmm_init idle_services (kernel_layout 0x110000) 0x108000 boot_kvm_frames = Inr s1"
    "init_kmalloc idle_services s1 = Inr s2" "kmalloc idle_services 4096 s2 = Inr (0x406C000, s3)"
    "large_heap 1 [a] (records_from 1) s3" "blk_page a = 0" "page_queue s3 []"
    "100 \<le> card ({8 ..< 8 * PMM_BITMAP_SIZE} - used_frames (pmm s3))"
proof -
  obtain s1 s2 where s2: "vmm_init idle_services (kernel_layout 0x110000) 0x108000 boot_kvm_frames = Inr s1" "init_kmalloc idle_services s1 = Inr s2"
      "large_heap 0 [] (records_from 0) s2" "176 \<le> card ({8 ..< 8 * PMM_BITMAP_SIZE} - used_frames (pmm s2))" "page_queue s2 []"
    by (rule boot_kvm_large)
  have "large_heap 0 [] (0 # (records_from 1)) s2" using s2(3) unfolding first_records(1) .
  then obtain s3 fs where "kmalloc idle_services 4096 s2 = Inr (large_page 0, s3)" "same_queue s2 s3"
      "large_heap (0 + pages_of 4096) [\<lparr>blk_obj = 0, blk_size = 4096, blk_page = 0, blk_frames = fs\<rparr>] (records_from 1) s3"
      "100 \<le> card ({8 ..< 8 * PMM_BITMAP_SIZE} - used_frames (pmm s3))"
    using s2(4) by (elim kmalloc_large_succeeds [where m = 100 and sv = idle_services and sz = 4096]) (auto simp: pages_of_examples MAX_CACHE_SIZE_def)
  then show thesis using that s2(1,2,5) page_queue_same(1) [of s2 s3] by (simp add: pages_of_examples large_page_examples)
qed

lemma two_large_blocks:
  obtains s1 s2 s3 s4 a b where "vmm_init idle_services (kernel_layout 0x110000) 0x108000 boot_kvm_frames = Inr s1"
    "init_kmalloc idle_services s1 = Inr s2" "kmalloc idle_services 4096 s2 = Inr (0x406C000, s3)" "kmalloc idle_services 5000 s3 = Inr (0x406D000, s4)"
    "large_heap 3 [b, a] (records_from 2) s4" "blk_page b = 1" "length (blk_frames b) = 2" "page_queue s4 []"
    "50 \<le> card ({8 ..< 8 * PMM_BITMAP_SIZE} - used_frames (pmm s4))"
proof -
  obtain s1 s2 s3 a where s3: "vmm_init idle_services (kernel_layout 0x110000) 0x108000 boot_kvm_frames = Inr s1" "init_kmalloc idle_services s1 = Inr s2"
      "kmalloc idle_services 4096 s2 = Inr (0x406C000, s3)" "large_heap 1 [a] (records_from 1) s3" "page_queue s3 []"
      "100 \<le> card ({8 ..< 8 * PMM_BITMAP_SIZE} - used_frames (pmm s3))" by (rule first_large_block)
  have "large_heap 1 [a] (1 # (records_from 2)) s3" using s3(4) unfolding first_records(2) .
  then obtain s4 gs where s4: "kmalloc idle_services 5000 s3 = Inr (large_page 1, s4)" "length gs = pages_of 5000" "same_queue s3 s4"
      "large_heap (1 + pages_of 5000) [\<lparr>blk_obj = 1, blk_size = 5000, blk_page = 1, blk_frames = gs\<rparr>, a] (records_from 2) s4"
      "50 \<le> card ({8 ..< 8 * PMM_BITMAP_SIZE} - used_frames (pmm s4))"
    using s3(6) by (elim kmalloc_large_succeeds [where m = 50 and sv = idle_services and sz = 5000]) (auto simp: pages_of_examples MAX_CACHE_SIZE_def)
  then show thesis
    using that [OF s3(1-3), of s4 "\<lparr>blk_obj = 1, blk_size = 5000, blk_page = 1, blk_frames = gs\<rparr>" a] s3(5) page_queue_same(1) [of s3 s4]
    by (simp add: pages_of_examples large_page_examples numeral_3_eq_3)
qed

theorem large_alloc_refines_witness:
  "\<exists>s1 s2 s3. vmm_init idle_services (kernel_layout 0x110000) 0x108000 boot_kvm_frames = Inr s1 \<and> init_kmalloc idle_services s1 = Inr s2
     \<and> kmalloc idle_services 5000 s2 = Inr (0x406C000, s3) \<and> translate s3 0x406D000 \<noteq> None \<and> translate s3 0xB8000 = translate s2 0xB8000"
proof -
  obtain s1 s2 where s2: "vmm_init idle_services (kernel_layout 0x110000) 0x108000 boot_kvm_frames = Inr s1" "init_kmalloc idle_services s1 = Inr s2"
      "large_heap 0 [] (records_from 0) s2" "176 \<le> card ({8 ..< 8 * PMM_BITMAP_SIZE} - used_frames (pmm s2))" by (rule boot_kvm_large)
  have "large_heap 0 [] (0 # (records_from 1)) s2" using s2(3) unfolding first_records(1) .
  moreover obtain fs p where fs: "alloc_frames (pages_of 5000) (pmm s2) = Inr (fs, p)" "0 \<notin> set fs"
    using alloc_frames_succeed [of "pmm s2" "pages_of 5000"] s2(3,4) by (auto simp: large_heap_def pages_of_examples)
  ultimately obtain s3 where s3: "kmalloc idle_services 5000 s2 = Inr (large_page 0, s3)" "\<forall>j < 2. translate s3 (large_page j) = Some (fs ! j)"
      "\<forall>b < 4096. translate s3 (0xB8000 + b) = translate s2 (0xB8000 + b)"
    using large_alloc_refines [of 0 "[]" 0 "records_from 1" s2 5000 fs p idle_services] by (auto simp: pages_of_examples MAX_CACHE_SIZE_def)
  have "translate s3 0x406D000 = Some (fs ! 1)" "translate s3 0xB8000 = translate s2 0xB8000"
    using s3(2) [rule_format, of 1] s3(3) [rule_format, of 0] by (simp_all add: large_page_examples)
  then show ?thesis using s2(1,2) s3(1) by (simp add: large_page_examples)
qed

theorem large_free_releases_witness:
  "\<exists>s1 s2 s3 s4 s5. vmm_init idle_services (kernel_layout 0x110000) 0x108000 boot_kvm_frames = Inr s1 \<and> init_kmalloc idle_services s1 = Inr s2
     \<and> kmalloc idle_services 4096 s2 = Inr (0x406C000, s3) \<and> kmalloc idle_services 5000 s3 = Inr (0x406D000, s4)
     \<and> kfree idle_services 0x406D000 s4 = Inr s5 \<and> translate s5 0x406D000 = None \<and> used_frames (pmm s5) \<subset> used_frames (pmm s4)"
proof -
  obtain s1 s2 s3 s4 a b where s4: "vmm_init idle_services (kernel_layout 0x110000) 0x108000 boot_kvm_frames = Inr s1" "init_kmalloc idle_services s1 = Inr s2"
      "kmalloc idle_services 4096 s2 = Inr (0x406C000, s3)" "kmalloc idle_services 5000 s3 = Inr (0x406D000, s4)"
      "large_heap 3 [b, a] (records_from 2) s4" "blk_page b = 1" "length (blk_frames b) = 2" by (rule two_large_blocks)
  obtain s5 where s5: "kfree idle_services (large_page 1) s4 = Inr s5" "used_frames (pmm s5) = used_frames (pmm s4) - frame_no ` set (blk_frames b)"
      "\<forall>j < 2. \<forall>c < 4096. translate s5 (large_page (1 + j) + c) = None"
    using large_free_releases [of 3 "[]" b "[a]" "records_from 2" s4 idle_services] s4(5-7) by auto
  have "frame_no ` set (blk_frames b) \<subseteq> used_frames (pmm s4) \<and> frame_no ` set (blk_frames b) \<noteq> {}"
    using s4(5,7) by (auto simp: large_heap_def blocks_ok_def block_ok_def)
  then have "used_frames (pmm s5) \<subset> used_frames (pmm s4)" unfolding s5(2) by (elim conjE) (rule diff_psubset)
  moreover have "translate s5 0x406D000 = None" using s5(3) [rule_format, of 0 0] by (simp add: large_page_examples)
  ultimately show ?thesis using s4(1-4) s5(1) by (simp add: large_page_examples)
qed

theorem kfree_first_large_block_witness:
  "\<exists>s1 s2 s3 s4. vmm_init idle_services (kernel_layout 0x110000) 0x108000 boot_kvm_frames = Inr s1 \<and> init_kmalloc idle_services s1 = Inr s2
     \<and> kmalloc idle_services 4096 s2 = Inr (0x406C000, s3) \<and> kfree idle_services 0x406C000 s3 = Inr s4 \<and> pmm s4 = pmm s3
     \<and> load 0x406C004 s4 = Inr 0x406C000"
proof -
  obtain s1 s2 s3 a where s3: "vmm_init idle_services (kernel_layout 0x110000) 0x108000 boot_kvm_frames = Inr s1" "init_kmalloc idle_services s1 = Inr s2"
      "kmalloc idle_services 4096 s2 = Inr (0x406C000, s3)" "large_heap 1 [a] (records_from 1) s3" "blk_page a = 0" by (rule first_large_block)
  then show ?thesis
    using kfree_first_large_block [OF s3(4), of a idle_services] by (auto simp: large_page_examples)
qed

theorem large_heap_captures_screen_witness:
  "\<exists>s1 s2 s3 a. vmm_init idle_services (kernel_layout 0x110000) 0x108000 boot_kvm_frames = Inr s1 \<and> init_kmalloc idle_services s1 = Inr s2
     \<and> kmalloc idle_services 0x50000 s2 = Inr (0x406C000, s3) \<and> translate s3 0xB8000 = Some a \<and> frame_no a \<notin> used_frames (pmm s2)"
proof -
  obtain s1 s2 where s2: "vmm_init idle_services (kernel_layout 0x110000) 0x108000 boot_kvm_frames = Inr s1" "init_kmalloc idle_services s1 = Inr s2"
      "large_heap 0 [] (records_from 0) s2" "176 \<le> card ({8 ..< 8 * PMM_BITMAP_SIZE} - used_frames (pmm s2))" by (rule boot_kvm_large)
  have "large_heap 0 [] (0 # (records_from 1)) s2" using s2(3) unfolding first_records(1) .
  moreover obtain fs p where fs: "alloc_frames (pages_of 0x50000) (pmm s2) = Inr (fs, p)" "0 \<notin> set fs"
    using alloc_frames_succeed [of "pmm s2" "pages_of 0x50000"] s2(3,4) by (auto simp: large_heap_def pages_of_examples)
  ultimately obtain s3 where s3: "kmalloc idle_services 0x50000 s2 = Inr (large_page 0, s3)" "frame_no (fs ! 76) \<notin> used_frames (pmm s2)"
      "\<forall>b < 4096. translate s3 (0xB8000 + b) = Some (fs ! 76 + b)"
    using large_heap_captures_screen [of 0 "[]" 0 "records_from 1" s2 "0x50000" fs p idle_services] by (auto simp: pages_of_examples MAX_CACHE_SIZE_def)
  have "translate s3 0xB8000 = Some (fs ! 76)" using s3(3) [rule_format, of 0] by simp
  then show ?thesis using s2(1,2) s3(1,2) by (simp add: large_page_examples)
qed

end
