(* ===== verification/Startup.thy ===== *)
theory Startup
  imports System Large_Heap
begin

text \<open>
  The whole of \<open>kernel_main\<close>: whatever the devices answer, the kernel comes up and hands a well-formed machine to
  the shell. The drives may send any bytes, which \<open>init_disk_driver\<close> prints, so the first part shows that
  output never fails whatever is printed.
\<close>

section \<open>Output keeps the screen intact\<close>

lemma put_chars_keeps: "screen_inv s \<Longrightarrow> run_ok (put_chars t s) screen_inv"
  using put_chars_inv by (simp add: run_ok_def)

lemma put_string_keeps:
  assumes "0 \<in> set b" and "screen_inv s"
  shows "run_ok (put_string b s) screen_inv"
proof -
  obtain t rest where "b = t @ 0 # rest" "0 \<notin> set t" using split_list_first [OF assms(1)] by blast
  then have "holds_str b t" by (simp add: holds_str_append)
  then show ?thesis using put_chars_keeps [OF assms(2)] by (simp add: put_string_chars)
qed

lemma put_char_keeps: "screen_inv s \<Longrightarrow> run_ok (put_char c s) screen_inv"
  using put_char_inv by (simp add: run_ok_def)

lemma int_to_string_terminates: "12 \<le> length str \<Longrightarrow> run_ok (int_to_string num str) (\<lambda>b. 0 \<in> set b)"
  using int_to_string_spec(1) [of num str] int_to_string_INT_MIN [of str]
  by (cases "num = 0x80000000") (auto simp: run_ok_def)

lemma put_int_keeps: "screen_inv s \<Longrightarrow> run_ok (put_int num s) screen_inv"
  unfolding put_int_def
  by (rule run_ok_bind [OF int_to_string_terminates]) (simp_all add: put_string_keeps)

lemma hex_terminates: "run_ok (int_to_hex_string num (replicate 9 0)) (\<lambda>b. 0 \<in> set b)"
  using hex_loop_spec [of 9 "replicate 9 0" num]
  by (auto simp: int_to_hex_string_def wr_def set_update_memI)

lemma put_hexa_keeps: "screen_inv s \<Longrightarrow> run_ok (put_hexa num s) screen_inv" "screen_inv s \<Longrightarrow> run_ok (put_addr num s) screen_inv"
  unfolding put_hexa_def put_addr_def
  by (rule run_ok_bind [OF hex_terminates], rule put_string_keeps, assumption+)+

lemma ascii_terminates: "0 \<in> set (ascii t)"
  by (simp add: ascii_def)

lemmas output_keeps = put_string_keeps [OF ascii_terminates] put_char_keeps put_int_keeps put_hexa_keeps

lemma put_bool_keeps: "screen_inv s \<Longrightarrow> run_ok (put_bool b s) screen_inv"
  by (simp add: put_bool_def output_keeps)

lemma va_arg32_ok: "ap + 4 \<le> length args \<Longrightarrow> run_ok (va_arg32 args ap) (\<lambda>(v, ap'). ap' = ap + 4)"
  by (simp add: va_arg32_def rd_def)

text \<open>A conversion consumes at most one argument of four bytes.\<close>

lemma printf_conv_keeps:
  assumes "d = 115 \<longrightarrow> (\<forall>p. 0 \<in> set (strs p))" and "ap + 4 \<le> length args" and "screen_inv s"
  shows "run_ok (printf_conv strs d args ap s) (\<lambda>(ap', s'). ap' \<le> ap + 4 \<and> screen_inv s')"
proof -
  have out: "run_ok (bind_run m (\<lambda>s'. Inr (ap', s'))) (\<lambda>(ap', s'). ap' \<le> ap + 4 \<and> screen_inv s')"
    if "run_ok m screen_inv" "ap' \<le> ap + 4" for m ap'
    using that by (auto simp: run_ok_def)
  have arg: "run_ok (bind_run (va_arg32 args ap) (\<lambda>(v, ap). bind_run (f v) (\<lambda>s'. Inr (ap, s'))))
      (\<lambda>(ap', s'). ap' \<le> ap + 4 \<and> screen_inv s')" if "\<And>v. run_ok (f v) screen_inv" for f
    by (rule run_ok_bind2 [OF va_arg32_ok [OF assms(2)]]) (simp add: out that)
  have prefix: "run_ok (bind_run (put_string (ascii ''0x'') s) f) screen_inv" if "\<And>s. screen_inv s \<Longrightarrow> run_ok (f s) screen_inv" for f
    by (rule run_ok_bind [OF output_keeps(1) [OF assms(3)]]) (rule that)
  have byte: "va_arg8 args ap = Inr (args ! ap, ap + 1)" using assms(2) by (simp add: va_arg8_def rd_def)
  have pct: "run_ok (bind_run (put_char (of_char CHR ''%'') s) (put_char d)) screen_inv"
    by (rule run_ok_bind [OF put_char_keeps [OF assms(3)]]) (rule put_char_keeps)
  show ?thesis
    unfolding printf_conv_def Let_def
    using assms(1,3)
    by (auto intro!: arg out prefix put_string_keeps put_bool_keeps output_keeps pct [simplified] simp: byte)
qed

text \<open>The format has a \<open>%s\<close>. The conversions still to come need their arguments.\<close>

definition has_string :: "u8 list \<Rightarrow> bool" where
  "has_string f \<longleftrightarrow> (37, 115) \<in> set (zip f (tl f))"

lemma has_string_tail: "has_string (d # f) \<Longrightarrow> has_string (c # d # f)"
  by (simp add: has_string_def)

lemma printf_loop_keeps:
  "0 \<in> set (drop i format) \<Longrightarrow> has_string (drop i format) \<longrightarrow> (\<forall>p. 0 \<in> set (strs p)) \<Longrightarrow> ap + 4 * count_list (drop i format) 37 \<le> length args \<Longrightarrow>
     screen_inv s \<Longrightarrow> run_ok (printf_loop strs format i args ap s) screen_inv"
proof (induction "length format - i" arbitrary: i ap s rule: less_induct)
  case less
  have i: "i < length format" using less.prems(1) by (cases "i < length format") auto
  then have d: "drop i format = format ! i # drop (Suc i) format" by (simp add: Cons_nth_drop_Suc)
  show ?case
  proof (cases "format ! i = 0")
    case True
    with i less.prems(4) show ?thesis by (subst printf_loop.simps) (simp add: rd_def)
  next
    case False
    then have nz: "0 \<in> set (drop (Suc i) format)" using less.prems(1) d by auto
    then have i1: "Suc i < length format" by (cases "Suc i < length format") auto
    have d1: "drop (Suc i) format = format ! Suc i # drop (Suc (Suc i)) format" using i1 by (simp add: Cons_nth_drop_Suc)
    have s1: "has_string (drop (Suc i) format) \<longrightarrow> (\<forall>p. 0 \<in> set (strs p))"
      using less.prems(2) has_string_tail d d1 by metis
    show ?thesis
    proof (cases "format ! i = 37")
      case lit: False
      have "run_ok (put_char (format ! i) s) screen_inv" using less.prems(4) by (rule put_char_keeps)
      then have "run_ok (bind_run (put_char (format ! i) s) (\<lambda>s'. printf_loop strs format (i + 1) args ap s')) screen_inv"
        by (rule run_ok_bind) (use less.hyps [of "Suc i"] i nz s1 less.prems(3) lit d in simp)
      with i False lit show ?thesis by (subst printf_loop.simps) (simp add: rd_def)
    next
      case pct: True
      have "run_ok (bind_run (printf_conv strs (format ! Suc i) args ap s) (\<lambda>(ap', s'). printf_loop strs format (i + 2) args ap' s')) screen_inv"
        if "format ! Suc i \<noteq> 0"
      proof (rule run_ok_bind2 [OF printf_conv_keeps])
        show "format ! Suc i = 115 \<longrightarrow> (\<forall>p. 0 \<in> set (strs p))"
          using less.prems(2) pct unfolding d d1 by (simp add: has_string_def)
        show "ap + 4 \<le> length args" "screen_inv s" using less.prems(3,4) d pct by simp_all
        fix ap' s' assume "ap' \<le> ap + 4 \<and> screen_inv s'"
        moreover have "0 \<in> set (drop (i + 2) format)" using nz d1 that by simp
        moreover have "has_string (drop (i + 2) format) \<longrightarrow> (\<forall>p. 0 \<in> set (strs p))"
          using s1 d1 has_string_tail [of "hd (drop (i + 2) format)" "tl (drop (i + 2) format)"]
          by (cases "drop (i + 2) format") (auto simp: has_string_def)
        moreover have "count_list (drop (i + 2) format) 37 \<le> count_list (drop (Suc i) format) 37" using d1 by simp
        ultimately show "run_ok (printf_loop strs format (i + 2) args ap' s') screen_inv"
          using less.hyps [of "i + 2"] i less.prems(3) d d1 pct by simp
      qed
      with i i1 pct less.prems(4) show ?thesis by (subst printf_loop.simps) (simp add: rd_def)
    qed
  qed
qed

text \<open>Whatever the format: \<open>printf\<close> returns when it has four bytes of arguments for every percent sign.\<close>

lemma printf_keeps:
  "0 \<in> set format \<Longrightarrow> has_string format \<longrightarrow> (\<forall>p. 0 \<in> set (strs p)) \<Longrightarrow> 4 * count_list format 37 \<le> length args \<Longrightarrow> screen_inv s \<Longrightarrow>
     run_ok (printf strs format args s) screen_inv"
  using printf_loop_keeps [of 0 format strs 0 args s] by (simp add: printf_def)

section \<open>The drives\<close>

text \<open>The buffers of a drive's description have their sizes, and those printed are strings.\<close>

definition text_field :: "nat \<Rightarrow> bool \<Rightarrow> buffer \<Rightarrow> bool" where
  "text_field n v b \<longleftrightarrow> length b = Suc n \<and> (v \<longrightarrow> 0 \<in> set b)"

definition drive_ok :: "identifyDeviceData \<Rightarrow> bool" where
  "drive_ok d \<longleftrightarrow> text_field 20 (valid d) (serial_number d) \<and> text_field 8 (valid d) (firmware_revision d)
     \<and> text_field 40 (valid d) (model_number d)"

lemma extract_loop_length:
  "i + n \<le> length source \<Longrightarrow> 2 * (i + n) \<le> length dest \<Longrightarrow>
     run_ok (extract_loop source i n dest) (\<lambda>d. length d = length dest)"
proof (induction n arbitrary: i dest)
  case (Suc n)
  let ?d = "dest[i * 2 := ucast (drop_bit 8 (source ! i)), i * 2 + 1 := ucast (source ! i AND 0xFF)]"
  have "run_ok (extract_loop source (Suc i) n ?d) (\<lambda>d. length d = length dest)"
    using Suc.IH [of "Suc i" ?d] Suc.prems by simp
  with Suc.prems show ?case by (simp add: wr_def)
qed simp

lemma trim_loop_keeps:
  "n < length dest \<Longrightarrow> dest ! n = 0 \<Longrightarrow> run_ok (trim_loop m dest) (\<lambda>d. length d = length dest \<and> 0 \<in> set d)"
  if "m \<le> n" for m
  using that
proof (induction m arbitrary: dest)
  case 0
  then show ?case by simp (metis nth_mem)
next
  case (Suc m)
  moreover have "0 \<in> set dest" using Suc.prems by (metis nth_mem)
  moreover have "run_ok (trim_loop m (dest[m := 0])) (\<lambda>d. length d = length dest \<and> 0 \<in> set d)"
    using Suc.IH [of "dest[m := 0]"] Suc.prems by simp
  ultimately show ?case by (simp add: rd_def wr_def)
qed

lemma extract_string_text:
  assumes "n div 2 \<le> length source" and "even n" and "length dest = Suc n"
  shows "run_ok (ata_extract_string source dest n) (text_field n True)"
  unfolding ata_extract_string_def
proof (rule run_ok_bind [OF extract_loop_length])
  show "0 + n div 2 \<le> length source" "2 * (0 + n div 2) \<le> length dest" using assms by simp_all
  fix d :: buffer assume "length d = length dest"
  then show "run_ok (bind_run (wr n 0 d) (trim_loop n)) (text_field n True)"
    using trim_loop_keeps [of n n "d[n := 0]"] assms(3) by (simp add: wr_def) (auto simp: text_field_def run_ok_def)
qed

lemma in_words_length: "in_words dev p n io = (w, io') \<Longrightarrow> length w = n"
  by (induction n arbitrary: io w io') (auto simp: Let_def split: prod.splits)

lemma fill_identify_ok:
  assumes "length w = 256" and "drive_ok data"
  shows "run_ok (fill_identify_data w base_port drive data) drive_ok"
proof -
  have "run_ok (ata_extract_string (drop 10 w) (serial_number data) 20) (text_field 20 True)"
    "run_ok (ata_extract_string (drop 23 w) (firmware_revision data) 8) (text_field 8 True)"
    "run_ok (ata_extract_string (drop 27 w) (model_number data) 40) (text_field 40 True)"
    using assms by (auto intro!: extract_string_text simp: drive_ok_def text_field_def)
  then show ?thesis by (auto simp: fill_identify_data_def run_ok_def drive_ok_def)
qed

lemma say_keeps:
  assumes "0 \<notin> set (chars text)" and "37 \<notin> set (chars text)" and "screen_inv s"
  shows "run_ok (say text s) screen_inv"
  using printf_literal_inv [of "chars text @ [10]" s "\<lambda>_. []" "[]"] assms by (simp add: say_def run_ok_def)

text \<open>Whatever the device answers.\<close>

lemma identify_drive_ok:
  assumes "drive_ok data" and "screen_inv scr"
  shows "run_ok (identify_drive dev base_port drive data scr io) (\<lambda>(ok, data, scr, io). drive_ok data \<and> screen_inv scr)"
proof -
  define Q :: "bool \<times> identifyDeviceData \<times> screen \<times> io \<Rightarrow> bool"
    where "Q = (\<lambda>(ok, data, scr, io). drive_ok data \<and> screen_inv scr)"
  have no: "run_ok (bind_run (say msg scr) (\<lambda>scr. Inr (False, data, scr, io))) Q"
    if "0 \<notin> set (chars msg)" "37 \<notin> set (chars msg)" for msg io
    by (rule run_ok_bind [OF say_keeps [OF that assms(2)]]) (use assms(1) in \<open>simp add: Q_def\<close>)
  have msgs: "0 \<notin> set (chars msg)" "37 \<notin> set (chars msg)"
    if "msg \<in> {''Drive does not exist.'', ''Timeout waiting for BSY=0.'', ''Not an ATA drive.'', ''Timeout waiting for DRQ=1.''}" for msg
    using that by (auto simp: chars_def)
  have yes: "run_ok (bind_run (fill_identify_data w base_port drive data) (\<lambda>data. Inr (True, data, scr, io))) Q"
    if "length w = 256" for w io
    by (rule run_ok_bind [OF fill_identify_ok [OF that assms(1)]]) (use assms(2) in \<open>simp add: Q_def\<close>)
  have "run_ok (identify_drive dev base_port drive data scr io) Q"
    unfolding identify_drive_def Let_def
    by (auto intro!: no [OF msgs] yes in_words_length split: prod.split)
  then show ?thesis by (simp add: Q_def)
qed

lemma identify_into_ok:
  assumes "length (disks st) = 4" and "list_all drive_ok (disks st)" and "screen_inv scr" and "i < 4"
  shows "run_ok (identify_into dev i base_port drive (st, scr, io))
     (\<lambda>(st, scr, io). length (disks st) = 4 \<and> list_all drive_ok (disks st) \<and> screen_inv scr)"
proof -
  have "drive_ok (disks st ! i)" using assms by (simp add: list_all_length)
  from identify_drive_ok [OF this assms(3), of dev base_port drive io] obtain ok data scr' io' where
    "identify_drive dev base_port drive (disks st ! i) scr io = Inr (ok, data, scr', io')" "drive_ok data" "screen_inv scr'"
    by (auto simp: run_ok_def)
  with assms show ?thesis by (auto simp: identify_into_def list_all_length nth_list_update)
qed

lemma report_keeps:
  assumes "count_list (chars text) 37 \<le> length args" and "has_string (chars text @ [10, 0]) \<longrightarrow> 0 \<in> set str" and "screen_inv s"
  shows "run_ok (report text str args s) screen_inv"
proof -
  have "length (concat (map word_bytes args)) = 4 * length args" by (induction args) (simp_all add: word_bytes_def)
  with assms show ?thesis
    unfolding report_def by (intro printf_keeps) auto
qed

lemma print_disk_keeps:
  assumes "drive_ok d" and "valid d" and "screen_inv s"
  shows "run_ok (print_disk i d s) screen_inv"
proof -
  have str: "0 \<in> set (model_number d)" "0 \<in> set (serial_number d)" "0 \<in> set (firmware_revision d)"
    using assms(1,2) by (simp_all add: drive_ok_def text_field_def)
  have last: "run_ok (printf (\<lambda>_. []) (chars ''Slave: %d'' @ [10, 10, 0]) (word_bytes w) s) screen_inv" if "screen_inv s" for w s
    using that by (intro printf_keeps) (simp_all add: chars_def has_string_def word_bytes_def)
  show ?thesis
    unfolding print_disk_def
    by (intro run_ok_bind [OF report_keeps] last) (simp_all add: chars_def has_string_def str assms(3))
qed

lemma print_disks_keeps:
  "list_all drive_ok ds \<Longrightarrow> screen_inv s \<Longrightarrow> run_ok (print_disks i ds s) screen_inv"
proof (induction ds arbitrary: i s)
  case (Cons d ds)
  have "run_ok (if valid d then print_disk i d s else Inr s) screen_inv"
    using print_disk_keeps [of d s i] Cons.prems by simp
  then show ?case unfolding print_disks.simps by (rule run_ok_bind) (use Cons in simp)
qed simp

lemma init_disk_driver_ok:
  assumes "length (disks st) = 4" and "list_all drive_ok (disks st)" and "screen_inv scr"
  shows "run_ok (init_disk_driver dev st scr io) (\<lambda>(st, scr, io). list_all drive_ok (disks st) \<and> screen_inv scr)"
proof -
  have into: "run_ok (identify_into dev i port drive x) (\<lambda>(st, scr, io). length (disks st) = 4 \<and> list_all drive_ok (disks st) \<and> screen_inv scr)"
    if "case x of (st, scr, io) \<Rightarrow> length (disks st) = 4 \<and> list_all drive_ok (disks st) \<and> screen_inv scr" "i < 4" for i port drive x
    using that identify_into_ok by (cases x) auto
  have start: "case (st, scr, io) of (st, scr, io) \<Rightarrow> length (disks st) = 4 \<and> list_all drive_ok (disks st) \<and> screen_inv scr"
    using assms by simp
  show ?thesis
    unfolding init_disk_driver_def
    by ((rule run_ok_bind [OF into], (rule start | assumption), simp)+)
      (auto intro!: run_ok_bind [OF print_disks_keeps] split: prod.split)
qed

section \<open>Start\<close>

text \<open>The kernel's memory as the loader leaves it: zeroed static data; the screen may show anything.\<close>

definition loaded :: "u32 \<Rightarrow> kernel \<Rightarrow> bool" where
  "loaded kdir m \<longleftrightarrow> length (fst (k_gdt m)) = 6 \<and> length (fst (k_idt m)) = 256 \<and> k_ata m = ata_static
     \<and> screen_inv (m_screen m) \<and> keyboard_inv (m_keyboard m) \<and> m_sched m = sched_static \<and> \<not> paging_enabled (m_vm m)
     \<and> heap (m_vm m) = kheap_static \<and> pmm (m_vm m) = pmm_static \<and> page_queue (m_vm m) [] \<and> (\<forall>i < 1024. mem (m_vm m) (entry_addr kdir i) = 0)"

definition welcome_text :: "u8 list" where
  "welcome_text = chars ''Welcome to Enhanced Shell!'' @ 10 # chars ''Type '' @ [39] @ chars ''help'' @ [39]
     @ chars '' to see available commands.'' @ [10, 10]"

lemma static_drives: "length (disks ata_static) = 4" "list_all drive_ok (disks ata_static)"
  by (simp_all add: ata_static_def disk_static_def drive_ok_def text_field_def list_all_iff)

text \<open>The banner on an empty screen.\<close>

lemma welcome_shows:
  assumes "screen_inv s"
  shows "run_ok (shell_welcome_message s) (\<lambda>s'. \<exists>k. shows_rows (fold (tput (color s)) welcome_text []) k s')"
proof -
  let ?s = "s\<lparr>video_memory := replicate 2000 EMPTY_LETTER, pos_on_screen := 0\<rparr>"
  have c: "clear_screen s = Inr ?s" using assms by (simp add: clear_screen_spec screen_inv_def)
  have e: "shows_rows [] 0 ?s" by (simp add: shows_rows_def)
  let ?a = "chars ''Welcome to Enhanced Shell!'' @ [10]"
    and ?b = "chars ''Type '' @ [39] @ chars ''help'' @ [39] @ chars '' to see available commands.'' @ [10, 10]"
  have h: "holds_str (chars ''Welcome to Enhanced Shell!'' @ [10, 0]) ?a"
      "holds_str (chars ''Type '' @ [39] @ chars ''help'' @ [39] @ chars '' to see available commands.'' @ [10, 10, 0]) ?b"
    by (simp_all add: holds_str_def chars_def)
  from prints_seq [OF prints_put_string [OF h(1)] prints_put_string [OF h(2)]] e
  show ?thesis unfolding shell_welcome_message_def c welcome_text_def by (force simp: prints_def run_ok_def)
qed

text \<open>The first part of \<open>kernel_main\<close>.\<close>

lemma table_pointers:
  "gdtr (load_gdt (init_gdt_ptr a)) = \<lparr>gdt_limit = 47, gdt_base = a\<rparr>"
  "snd (init_idt b isr idt) = \<lparr>idt_limit = 2047, idt_base = b\<rparr>"
  by (simp_all add: load_gdt_def init_gdt_ptr_def GDT_ENTRIES_def init_idt_def load_idt_def init_idt_ptr_def IDT_ENTRIES_def)

lemma slab_object_nonzero: "i < 8 \<Longrightarrow> slab_page i + 20 \<noteq> 0"
  using below_8 [of i] by (auto simp: slab_page_def)

lemma kernel_init_ok:
  assumes "0x100000 \<le> kdir" and "kdir < ke" and "ke \<le> 0x39C000" and "aligned kdir" and "loaded kdir m"
  shows "run_ok (kernel_init dev sv (kernel_layout ke) gdt_addr idt_addr kdir isr m)
     (\<lambda>m'. k_interrupts m' \<and> k_gdt m' = (fst (k_gdt m'), load_gdt (init_gdt_ptr gdt_addr)) \<and> k_idt m' = init_idt idt_addr isr (fst (k_idt m))
        \<and> heap_ready 8 (m_vm m') \<and> large_heap 0 [] (records_from 0) (m_vm m') \<and> pmm (m_vm m') = snd (pmm_init (kernel_layout ke) pmm_static)
        \<and> page_queue (m_vm m') [] \<and> screen_inv (m_screen m') \<and> m_keyboard m' = m_keyboard m \<and> m_sched m' = m_sched m
        \<and> list_all drive_ok (disks (k_ata m')))"
proof -
  have m: "length (fst (k_gdt m)) = 6" "k_ata m = ata_static" "screen_inv (m_screen m)" using assms(5) by (simp_all add: loaded_def)
  have gdt: "\<exists>g. init_gdt gdt_addr (fst (k_gdt m)) = Inr (g, load_gdt (init_gdt_ptr gdt_addr))"
    using setup_gdt_entries_spec [OF m(1)] by (simp add: init_gdt_def)
  obtain st scr io where disk: "init_disk_driver dev ata_static (m_screen m) (remap_pic dev (m_io m)) = Inr (st, scr, io)"
      "list_all drive_ok (disks st)" "screen_inv scr"
    using init_disk_driver_ok [OF static_drives m(3), of dev "remap_pic dev (m_io m)"] by (auto simp: run_ok_def)
  let ?v = "(m_vm m)\<lparr>pmm := snd (pmm_init (kernel_layout ke) (pmm (m_vm m)))\<rparr>"
  have "\<not> paging_enabled ?v" "\<forall>i < 1024. mem ?v (entry_addr kdir i) = 0" "heap ?v = kheap_static"
      "pmm ?v = snd (pmm_init (kernel_layout ke) pmm_static)"
    using assms(5) by (simp_all add: loaded_def)
  from boot_large_heap [OF assms(1-4) this, of sv] obtain v1 v2 where
    vm: "vmm_init sv (kernel_layout ke) kdir ?v = Inr v1" "init_kmalloc sv v1 = Inr v2" "heap_ready 8 v2" "large_heap 0 [] (records_from 0) v2"
    "pmm v2 = pmm ?v" "same_queue ?v v2" by blast
  have "page_queue ?v []" using assms(5) by (simp add: loaded_def page_queue_def)
  then have queue: "page_queue v2 []" using page_queue_same(1) [OF vm(6)] by blast
  let ?scr = "scr\<lparr>video_memory := replicate 2000 EMPTY_LETTER, pos_on_screen := 0\<rparr>"
  have clear: "clear_screen scr = Inr ?scr" "screen_inv ?scr"
    using disk(3) by (simp_all add: clear_screen_spec screen_inv_def)
  obtain scr' where "printf (\<lambda>_. []) (chars ''Kernel loaded successfully. its yoav kernel'' @ [10, 0]) [] ?scr = Inr scr'" "screen_inv scr'"
    using printf_literal_inv [OF _ _ clear(2), of "chars ''Kernel loaded successfully. its yoav kernel'' @ [10]" "\<lambda>_. []" "[]"]
    by (auto simp: chars_def)
  with gdt disk vm clear(1) m(2) queue \<open>pmm ?v = _\<close> show ?thesis
    by (auto simp: kernel_init_def Let_def)
qed

lemma loaded_interrupts [simp]: "loaded kdir (m\<lparr>k_interrupts := b\<rparr>) \<longleftrightarrow> loaded kdir m"
  by (simp add: loaded_def)

text \<open>From the entry point to the shell.\<close>

lemma start_entry_ok:
  assumes "0x100000 \<le> kdir" and "kdir < ke" and "ke \<le> 0x39C000" and "aligned kdir" and "loaded kdir m"
  obtains m' col k where "start_entry dev sv (kernel_layout ke) gdt_addr idt_addr kdir isr m = Inr (0x3FFFFFB, m')" "k_interrupts m'"
    "gdtr (snd (k_gdt m')) = \<lparr>gdt_limit = 47, gdt_base = gdt_addr\<rparr>" "snd (k_idt m') = \<lparr>idt_limit = 2047, idt_base = idt_addr\<rparr>"
    "heap_ready 8 (m_vm m')" "large_heap 0 [] (records_from 0) (m_vm m')" "pmm (m_vm m') = snd (pmm_init (kernel_layout ke) pmm_static)"
    "page_queue (m_vm m') []" "shows_rows (fold (tput col) welcome_text []) k (m_screen m')" "m_keyboard m' = m_keyboard m" "m_sched m' = m_sched m"
proof -
  obtain m1 where m1: "kernel_init dev sv (kernel_layout ke) gdt_addr idt_addr kdir isr (m\<lparr>k_interrupts := False\<rparr>) = Inr m1" "k_interrupts m1"
      "k_gdt m1 = (fst (k_gdt m1), load_gdt (init_gdt_ptr gdt_addr))" "k_idt m1 = init_idt idt_addr isr (fst (k_idt m))"
      "heap_ready 8 (m_vm m1)" "large_heap 0 [] (records_from 0) (m_vm m1)" "pmm (m_vm m1) = snd (pmm_init (kernel_layout ke) pmm_static)"
      "page_queue (m_vm m1) []" "screen_inv (m_screen m1)" "m_keyboard m1 = m_keyboard m" "m_sched m1 = m_sched m"
    using kernel_init_ok [OF assms(1-4), of "m\<lparr>k_interrupts := False\<rparr>" dev sv gdt_addr idt_addr isr] assms(5) by (auto simp: run_ok_def)
  obtain scr k where scr: "shell_welcome_message (m_screen m1) = Inr scr"
      "shows_rows (fold (tput (color (m_screen m1))) welcome_text []) k scr"
    using welcome_shows [OF m1(9)] by (auto simp: run_ok_def)
  have "start_entry dev sv (kernel_layout ke) gdt_addr idt_addr kdir isr m = Inr (0x3FFFFFB, m1\<lparr>m_screen := scr\<rparr>)"
    using m1(1) scr(1) by (simp add: start_entry_def kernel_main_def Let_def kernel_layout_def)
  moreover have "gdtr (snd (k_gdt m1)) = \<lparr>gdt_limit = 47, gdt_base = gdt_addr\<rparr>" "snd (k_idt m1) = \<lparr>idt_limit = 2047, idt_base = idt_addr\<rparr>"
    using table_pointers m1(3,4) by (metis snd_conv)+
  ultimately show thesis
    using that [of "m1\<lparr>m_screen := scr\<rparr>" "color (m_screen m1)" k] m1(2,5-8,10,11) scr(2) by simp
qed

section \<open>Properties\<close>

text \<open>
  C1. The kernel comes up and stays up. From the memory the loader leaves, on the build's layout and whatever the
  devices answer to whatever is asked, the entry point reaches \<open>kernel_main\<close>, which returns from all its initialisations
  and enters the shell with interrupts enabled: the processor's table registers point to the two tables, every request
  of at most 2048 bytes is served by the heap, the large heap is empty and ready, and the screen shows the welcome text. From there, however timer
  interrupts, keyboard interrupts and steps of the shell interleave, the machine stays well formed, every such interrupt
  returns and the shell's next step is defined.
\<close>

theorem kernel_comes_up:
  assumes "0x100000 \<le> kdir" and "kdir < ke" and "ke \<le> 0x39C000" and "aligned kdir" and "loaded kdir m"
    and "length input = 128" and "switches_current switch"
  shows "\<exists>m'. start_entry dev sv (kernel_layout ke) gdt_addr idt_addr kdir isr m = Inr (0x3FFFFFB, m') \<and> k_interrupts m'
     \<and> gdtr (snd (k_gdt m')) = \<lparr>gdt_limit = 47, gdt_base = gdt_addr\<rparr> \<and> snd (k_idt m') = \<lparr>idt_limit = 2047, idt_base = idt_addr\<rparr>
     \<and> (\<forall>n \<le> 2048. \<exists>p s'. kmalloc sv n (m_vm m') = Inr (p, s') \<and> p \<noteq> 0) \<and> large_heap 0 [] (records_from 0) (m_vm m')
     \<and> (\<exists>col k. shows_rows (fold (tput col) welcome_text []) k (m_screen m'))
     \<and> (\<forall>m1 sh. (kstep dev sv switch)\<^sup>*\<^sup>* (machine.truncate m', \<lparr>sh_phase = Prompting, sh_input = input\<rparr>) (m1, sh) \<longrightarrow>
          system_ok (m1, sh) \<and> (\<exists>m2. isr_handler dev sv switch fault_addr 32 0 m1 = Inr m2)
          \<and> (\<exists>m2. isr_handler dev sv switch fault_addr 33 0 m1 = Inr m2)
          \<and> (\<exists>sh' k s. shell_step sh (m_keyboard m1) (m_screen m1) = Inr (sh', k, s)))"
proof -
  obtain m' col k where m': "start_entry dev sv (kernel_layout ke) gdt_addr idt_addr kdir isr m = Inr (0x3FFFFFB, m')" "k_interrupts m'"
    "gdtr (snd (k_gdt m')) = \<lparr>gdt_limit = 47, gdt_base = gdt_addr\<rparr>" "snd (k_idt m') = \<lparr>idt_limit = 2047, idt_base = idt_addr\<rparr>"
    "heap_ready 8 (m_vm m')" "large_heap 0 [] (records_from 0) (m_vm m')" "shows_rows (fold (tput col) welcome_text []) k (m_screen m')"
    "m_keyboard m' = m_keyboard m" "m_sched m' = m_sched m"
    by (rule start_entry_ok [OF assms(1-5)])
  let ?sh = "\<lparr>sh_phase = Prompting, sh_input = input\<rparr>"
  have "system_ok (machine.truncate m', ?sh)"
    using m'(8,9) assms(5,6) shows_rows_inv [OF m'(7)]
    by (simp add: system_ok_def machine.truncate_def loaded_def sched_ok_def sched_static_def)
  note never = reachable_never_stuck [OF assms(7) this]
  have heap: "\<exists>p s'. kmalloc sv n (m_vm m') = Inr (p, s') \<and> p \<noteq> 0" if "n \<le> 2048" for n
    using kmalloc_ready [OF m'(5) that, of sv] slab_object_nonzero by metis
  show ?thesis
    using m'(1-4,6,7) heap never by (intro exI [of _ m']) auto
qed

text \<open>A machine as the loader leaves it.\<close>

definition loaded_kernel :: kernel where
  "loaded_kernel = \<lparr>m_keyboard = keyboard_boot, m_screen = screen_boot (replicate 2000 EMPTY_LETTER), m_io = [], m_sched = sched_static,
     m_vm = boot_kvm, k_gdt = (replicate 6 (gdt_encode 0 0 0 0), load_gdt \<lparr>gdt_limit = 0, gdt_base = 0\<rparr>),
     k_idt = (replicate 256 (idt_encode 0 0 0), \<lparr>idt_limit = 0, idt_base = 0\<rparr>), k_ata = ata_static, k_interrupts = False\<rparr>"

theorem kernel_comes_up_witness:
  "\<exists>m' p s'. start_entry (\<lambda>_ _. 0) idle_services (kernel_layout 0x110000) 0x2000 0x3000 0x108000 (\<lambda>n. 0x100000 + of_nat n) loaded_kernel
       = Inr (0x3FFFFFB, m') \<and> k_interrupts m' \<and> kmalloc idle_services 100 (m_vm m') = Inr (p, s') \<and> p \<noteq> 0
     \<and> (\<exists>m2. isr_handler (\<lambda>_ _. 0) idle_services plain_switch 0 32 0 (machine.truncate m') = Inr m2)"
proof -
  have "loaded 0x108000 loaded_kernel"
    by (simp add: loaded_def loaded_kernel_def boot_kvm_def page_queue_def screen_inv_def screen_boot_def keyboard_inv_def keyboard_boot_def)
  moreover have "aligned (0x108000 :: u32)" by (simp add: aligned_def)
  moreover have "switches_current plain_switch" by (simp add: switches_current_def plain_switch_def)
  ultimately show ?thesis
    using kernel_comes_up [of "0x108000" "0x110000" loaded_kernel "replicate 128 0" plain_switch "\<lambda>_ _. 0" idle_services
        "0x2000" "0x3000" "\<lambda>n. 0x100000 + of_nat n" 0]
    by (auto 0 4)
qed

end
