(* ===== verification/Demand_Paging.thy ===== *)
theory Demand_Paging
  imports Large_Heap
begin

text \<open>
  Demand paging in the kernel that has come up, on its own heap: the handler of memory/vmm.c takes a frame from the
  frame allocator and an object of the smallest cache for the queue of pages.
\<close>

section \<open>The large heap under the steps of the handler\<close>

text \<open>An object of the smallest cache is taken.\<close>

lemma large_heap_take:
  assumes "large_heap k B (i # fl) s" and "sz \<le> 16"
  shows "\<exists>s'. kmalloc sv sz s = Inr (rec_addr i, s') \<and> recorded s s' \<and> large_heap k B fl s'"
proof -
  have h: "rec_space s" "slab_holds s (slab_page 0) (slab_frame 0) (map (object_at 16) (i # fl))" "i < 254" "\<forall>b \<in> set B. blk_obj b < 254"
      "blocks_ok k B s" "k \<le> 148"
    using assms(1) by (auto simp: large_heap_def)
  have c: "get_cache sz = Some 0" "\<not> MAX_CACHE_SIZE < sz"
    using assms(2) by (auto simp: get_cache_def cache_sizes_def MAX_CACHE_SIZE_def word_le_nat_alt word_less_nat_alt)
  obtain s' where s': "kmalloc_small sv sz s = Inr (rec_addr i, s')" "recorded s s'" "heap s' = heap s"
      "slab_holds s' (slab_page 0) (slab_frame 0) (map (object_at 16) fl)" "\<forall>j < 254. \<forall>c < 4. rec_words s' (cell j c) = rec_words s (cell j c)"
    using kmalloc_record [OF c(1) _ h(2,3), of sv] h(1) by (auto simp: rec_space_def)
  note r = rec_space_recorded [OF h(1) s'(2)]
  have "blocks_ok k B s'" using r(2) h(6) large_page_facts(7) by (intro blocks_ok_keep [OF h(5)]) (simp_all add: r(3,4))
  moreover have "seg (rec_words s') q prev B 0 l \<longleftrightarrow> seg (rec_words s) q prev B 0 l" for q prev l
    using s'(5) h(4) by (intro seg_cong) auto
  ultimately have "large_heap k B fl s'" using assms(1) r(1,3,4) s'(3,4) by (auto simp: large_heap_def)
  then show ?thesis using s'(1,2) c(2) by (auto simp: kmalloc_def)
qed

text \<open>An absent page gets an entry.\<close>

lemma large_heap_set_pt:
  assumes "large_heap k B fl s" and "j < 1024" and "\<not> is_page_present (pt s j)" and "pmm_ok p" and "used_frames (pmm s) \<subseteq> used_frames p"
  shows "large_heap k B fl (s\<lparr>pmm := p, mem := (mem s)(entry_addr 0 j := x)\<rparr>)"
proof -
  let ?s = "s\<lparr>pmm := p, mem := (mem s)(entry_addr 0 j := x)\<rparr>"
  have h: "rec_space s" "slab_holds s (slab_page 0) (slab_frame 0) (map (object_at 16) fl)" "\<forall>b \<in> set B. blk_obj b < 254"
      "blocks_ok k B s" "k \<le> 148"
    using assms(1) by (auto simp: large_heap_def)
  have z: "aligned (0 :: u32)" by (simp add: aligned_def)
  have pt: "pt ?s i = pt s i" if "i < 1024" "is_page_present (pt s i)" for i
    using that assms(2,3) table_entry_inject [OF that(1) assms(2)] by (auto simp: pt_def)
  have "j \<noteq> get_table_index (cr3 s)" using h(1) assms(3) by (auto simp: rec_space_def boot_space_def booted_def)
  then have "booted (s\<lparr>mem := (mem s)(entry_addr 0 j := x)\<rparr>)" using h(1) assms(2) by (intro booted_set_pt) (simp_all add: rec_space_def boot_space_def)
  then have b: "booted ?s" by (simp add: booted_def pde_def pt_def)
  have sp: "rec_space ?s" using h(1) b pt [of 0] by (simp add: rec_space_def boot_space_def)
  have words: "rec_words ?s a = rec_words s a" if "a < 4096" for a
    using frame_of_sum [OF slab_page_facts(4) [of 0] that] entry_frame [OF z assms(2)] slab_page_facts(5) [of 0] by (auto simp: words_of_def)
  have "blocks_ok k B ?s" using pt h(5) large_page_facts(7) assms(5) by (intro blocks_ok_keep [OF h(4)]) simp_all
  then show ?thesis
    using assms(1,4,5) sp slab_seg_words [OF h(2) rec_space_page [OF sp] words] h(3) by (auto simp: large_heap_def)
qed

text \<open>The queue of pages is apart from the heap.\<close>

definition same_space :: "kvm \<Rightarrow> kvm \<Rightarrow> bool" where
  "same_space s s' \<longleftrightarrow> mem s' = mem s \<and> cr3 s' = cr3 s \<and> paging_enabled s' = paging_enabled s \<and> current_directory s' = current_directory s
     \<and> pmm s' = pmm s \<and> heap_base s' = heap_base s \<and> heap s' = heap s"

lemma same_space_keeps:
  assumes "same_space s s'"
  shows "large_heap k B fl s' \<longleftrightarrow> large_heap k B fl s" "translate s' = translate s" "pmm s' = pmm s" "booted s' \<longleftrightarrow> booted s" "pt s' j = pt s j"
proof -
  note e = assms [unfolded same_space_def]
  have pt: "pt s' = pt s" by (simp add: e pt_def fun_eq_iff)
  show tr: "translate s' = translate s" by (rule translate_cong) (simp_all add: e)
  have "translate (s'\<lparr>mem := m\<rparr>) = translate (s\<lparr>mem := m\<rparr>)" for m by (rule translate_cong) (simp_all add: e)
  then have d: "data_page s' v f = data_page s v f" for v f by (simp add: data_page_def e)
  have b: "booted s' = booted s" by (simp add: booted_def pde_def pt) (simp add: e)
  have w: "words_of f s' = words_of f s" for f by (simp add: words_of_def e fun_eq_iff)
  have "rec_space s' = rec_space s" by (simp add: rec_space_def boot_space_def b pt) (simp add: e)
  moreover have "blocks_ok k B s' = blocks_ok k B s" by (simp add: blocks_ok_def block_ok_def pt) (simp add: e)
  moreover have "slab_holds s' v f os = slab_holds s v f os" for v f os by (simp add: slab_holds_def d w)
  ultimately show "large_heap k B fl s' = large_heap k B fl s" by (simp add: large_heap_def w) (simp add: e)
  show "pmm s' = pmm s" by (simp add: e)
  show "booted s' = booted s" "pt s' j = pt s j" using b pt by simp_all
qed

lemma same_space_trans: "same_space s s1 \<Longrightarrow> same_space s1 s2 \<Longrightarrow> same_space s s2"
  by (simp add: same_space_def)

lemma enqueue_same_space: "page_fifo_enqueue nd s = Inr s' \<Longrightarrow> same_space s s'"
  by (auto simp: page_fifo_enqueue_def fifo_node_at_def same_space_def split: if_splits option.splits)

section \<open>The handler\<close>

lemma booted_alloc_permanent:
  assumes "booted s" and "get_directory_index v \<noteq> 1023" and "get_table_index v \<noteq> get_table_index (cr3 s)"
    and "pmm_alloc_frame (pmm s) = (frame, p)" and "frame \<noteq> PMM_NO_FRAME_AVAILABLE"
  shows "vmm_alloc_permanent_page sv (entry_addr (get_page_table_vir_addr (get_directory_index v)) (get_table_index v)) s =
     Inr (True, s\<lparr>pmm := p, mem := (mem s)(entry_addr 0 (get_table_index v) := map_entry 0 frame (pt s (get_table_index v)))\<rparr>)"
proof -
  let ?j = "get_table_index v" and ?s = "s\<lparr>pmm := p\<rparr>"
  have b: "booted ?s" using assms(1) by (simp add: booted_def pde_def pt_def)
  have "update g (entry_addr (get_page_table_vir_addr (get_directory_index v)) ?j) (?s\<lparr>mem := (mem s)(entry_addr 0 ?j := x)\<rparr>) =
      Inr (?s\<lparr>mem := (mem s)(entry_addr 0 ?j := g x)\<rparr>)" for g x
    using update_booted [OF booted_set_pt [OF b index_range(2), of v x] assms(2), of g] assms(3) by (simp add: pt_def)
  then show ?thesis
    using update_booted [OF b assms(2)] assms(4,5)
    by (simp add: vmm_alloc_permanent_page_def frame_or_swap_def vmm_alloc_frame_def page_entry_set_frame_def page_entry_add_attrib_def
        map_entry_def pt_def)
qed

text \<open>
  C16. Demand paging in the running kernel. With the kernel's own heap as the source of queue nodes: a fault on a page
  that is neither present nor swapped out, while a frame and an object of the smallest cache are left, is repaired.
  The handler returns; every address of the page translates into the frame that was taken, and so, the page tables
  being one table, does every address with the same table index, while the others translate as before; the page is the
  youngest of the queue, and the large blocks are as they were.
\<close>

theorem page_fault_in_kernel:
  assumes "large_heap k B (i # fl) s" and "get_directory_index v \<noteq> 1023"
    and "\<not> is_page_present (pt s (get_table_index v))" and "\<not> is_swapped (pt s (get_table_index v))" and "\<not> is_page_present_error err"
    and "pmm_alloc_frame (pmm s) = (frame, p)" and "frame \<noteq> PMM_NO_FRAME_AVAILABLE"
    and "page_queue s as" and "length as + 1 < 2 ^ 32" and "rec_addr i \<notin> set as"
  shows "\<exists>s'. page_fault_handler (heap_services sv) v err s = Inr s'
     \<and> (\<forall>v'. get_directory_index v' \<noteq> 1023 \<longrightarrow>
          translate s' v' = (if get_table_index v' = get_table_index v then Some (frame + get_frame_offset v') else translate s v'))
     \<and> pmm s' = p \<and> page_queue s' (as @ [rec_addr i]) \<and> queued_pages s' (as @ [rec_addr i]) = queued_pages s as @ [v]
     \<and> large_heap k B fl s'"
proof -
  let ?j = "get_table_index v" and ?e = "entry_addr (get_page_table_vir_addr (get_directory_index v)) (get_table_index v)"
  define s1 where "s1 = s\<lparr>pmm := p, mem := (mem s)(entry_addr 0 ?j := map_entry 0 frame (pt s ?j))\<rparr>"
  have b: "booted s" and pm: "pmm_ok (pmm s)" and i: "i < 254" using assms(1) by (auto simp: large_heap_def rec_space_def boot_space_def)
  have "?j \<noteq> get_table_index (cr3 s)" using b assms(3) by (auto simp: booted_def)
  then have alloc: "vmm_alloc_permanent_page (heap_services sv) ?e s = Inr (True, s1)"
    unfolding s1_def using b assms(2,6,7) by (intro booted_alloc_permanent)
  have fr: "frame \<noteq> 0" using assms(7) by (simp add: PMM_NO_FRAME_AVAILABLE_def)
  note pa = pmm_ok_alloc [OF pm assms(6)]
  have h1: "large_heap k B (i # fl) s1"
    unfolding s1_def using assms(1,3) pa(1,4) fr by (intro large_heap_set_pt) auto
  obtain s2 where s2: "kmalloc sv 8 s1 = Inr (rec_addr i, s2)" "recorded s1 s2" "large_heap k B fl s2"
    using large_heap_take [OF h1, of 8 sv] by auto
  have q2: "page_queue s2 as" "queued_pages s2 as = queued_pages s as"
    using page_queue_same [of s s2] s2(2) assms(8) by (auto simp: same_queue_def recorded_def s1_def)
  let ?s3 = "s2\<lparr>fifo_nodes := (fifo_nodes s2)(rec_addr i \<mapsto> \<lparr>pf_vir_addr = v, pf_next = 0\<rparr>)\<rparr>"
  obtain s' where s': "page_fifo_enqueue (rec_addr i) ?s3 = Inr s'" "page_queue s' (as @ [rec_addr i])"
      "queued_pages s' (as @ [rec_addr i]) = queued_pages s as @ [v]"
    using enqueue_appends [OF q2(1) rec_addr_nz [OF i] assms(10,9), of v] q2(2) by auto
  have "same_space s2 ?s3" by (simp add: same_space_def)
  note keeps = same_space_keeps [OF same_space_trans [OF this enqueue_same_space [OF s'(1)]]]
  have "rec_space s1" using h1 by (simp add: large_heap_def)
  note rr = rec_space_recorded [OF this s2(2)]
  have r2: "booted s2" "pmm s2 = p" "pt s2 j = pt s1 j" if "j < 1024" for j
    using rr(1-3) that by (simp_all add: rec_space_def boot_space_def s1_def)
  have "pt s1 j = (if j = ?j then map_entry 0 frame (pt s ?j) else pt s j)" if "j < 1024" for j
    using table_entry_inject [OF that index_range(2)] by (simp add: s1_def pt_def)
  then have tr: "translate s' v' = (if get_table_index v' = ?j then Some (frame + get_frame_offset v') else translate s v')"
    if "get_directory_index v' \<noteq> 1023" for v'
    unfolding keeps(2) booted_translate [OF r2(1) that, OF index_range(2)] booted_translate [OF b that] r2(3) [OF index_range(2)]
    using map_entry_frame(1,2) [of 0 frame] pa(6) fr index_range(2) by auto
  have "page_enqueue (heap_services sv) v s1 = Inr (True, s')"
    using s2(1) s'(1) rec_addr_nz [OF i] by (simp add: page_enqueue_def heap_services_def Let_def)
  then have "vmm_alloc_page (heap_services sv) ?e v s = Inr (True, s')" using alloc by (simp add: vmm_alloc_page_def)
  moreover have "vmm_get_page_entry (heap_services sv) v s = Inr (?e, s)" "load ?e s = Inr (pt s ?j)"
    using booted_window [OF b assms(2)] by (simp_all add: load_def pt_def)
  ultimately have "page_fault_handler (heap_services sv) v err s = Inr s'"
    using assms(4,5) by (simp add: page_fault_handler_def)
  then show ?thesis using tr s'(2,3) keeps(1,3) s2(3) r2(2) [of 0] by auto
qed

text \<open>A page that was freed is touched again.\<close>

theorem page_fault_in_kernel_witness:
  "\<exists>s1 s2 s3 s4 s5 s6. vmm_init idle_services (kernel_layout 0x110000) 0x108000 boot_kvm_frames = Inr s1 \<and> init_kmalloc idle_services s1 = Inr s2
     \<and> kmalloc idle_services 4096 s2 = Inr (0x406C000, s3) \<and> kmalloc idle_services 5000 s3 = Inr (0x406D000, s4)
     \<and> kfree idle_services 0x406D000 s4 = Inr s5 \<and> page_fault_handler (heap_services idle_services) 0x406D008 2 s5 = Inr s6
     \<and> translate s5 0x406D010 = None \<and> translate s6 0x406D010 \<noteq> None"
proof -
  obtain s1 s2 s3 s4 a b where s4: "vmm_init idle_services (kernel_layout 0x110000) 0x108000 boot_kvm_frames = Inr s1" "init_kmalloc idle_services s1 = Inr s2"
      "kmalloc idle_services 4096 s2 = Inr (0x406C000, s3)" "kmalloc idle_services 5000 s3 = Inr (0x406D000, s4)"
      "large_heap 3 [b, a] (records_from 2) s4" "blk_page b = 1" "length (blk_frames b) = 2" "page_queue s4 []"
      "50 \<le> card ({8 ..< 8 * PMM_BITMAP_SIZE} - used_frames (pmm s4))" by (rule two_large_blocks)
  obtain s5 where s5: "kfree idle_services (large_page 1) s4 = Inr s5" "large_heap 3 [a] (records_from 2) s5"
      "used_frames (pmm s5) = used_frames (pmm s4) - frame_no ` set (blk_frames b)"
      "\<forall>j < 1024. pt s5 j = (if j \<in> large_index ` {1 ..< 1 + 2} then 0 else pt s4 j)" "same_queue s4 s5"
    using kfree_large_ok [of 3 "[]" b "[a]" "records_from 2" s4 idle_services] s4(5-7) by auto
  let ?v = "0x406D008 :: u32"
  have v: "get_directory_index ?v \<noteq> 1023" "get_table_index ?v = large_index 1" "get_table_index 0x406D010 = large_index 1"
      "get_directory_index 0x406D010 \<noteq> 1023"
    by (simp_all add: get_directory_index_def get_table_index_def large_index_def)
  have z: "pt s5 (get_table_index ?v) = 0" using s5(4) large_page_facts(7) [of 1] by (simp add: v(2))
  obtain f p where f: "pmm_alloc_frame (pmm s5) = (f, p)" by fastforce
  have nz: "f \<noteq> PMM_NO_FRAME_AVAILABLE"
  proof
    assume "f = PMM_NO_FRAME_AVAILABLE"
    then have "{8 ..< 8 * PMM_BITMAP_SIZE} \<subseteq> used_frames (pmm s5)"
      using pmm_alloc_zero [of "pmm s5" p] f s5(2) by (auto simp: large_heap_def pmm_ok_def PMM_NO_FRAME_AVAILABLE_def)
    then have "{8 ..< 8 * PMM_BITMAP_SIZE} - used_frames (pmm s4) = {}" unfolding s5(3) by blast
    then show False using s4(9) by (simp only: card.empty)
  qed
  have q: "page_queue s5 []" using page_queue_same(1) [OF s5(5)] s4(8) by simp
  have h5: "large_heap 3 [a] (2 # records_from 3) s5" using s5(2) records_from_step [of 2] by (simp add: numeral_3_eq_3)
  obtain s6 where s6: "page_fault_handler (heap_services idle_services) ?v 2 s5 = Inr s6"
      "translate s6 0x406D010 = Some (f + get_frame_offset 0x406D010)"
    using page_fault_in_kernel [OF h5 v(1) _ _ _ f nz q, of 2 idle_services] z v(2-4)
    by (auto simp: is_page_present_def is_swapped_def is_page_present_error_def)
  have "booted s5" using s5(2) by (simp add: large_heap_def rec_space_def boot_space_def)
  then have "translate s5 0x406D010 = None"
    using booted_translate [of s5 "0x406D010"] v(3,4) z by (simp add: v(2) is_page_present_def)
  then show ?thesis using s4(1-4) s5(1) s6 by (auto simp: large_page_examples)
qed

end
