(* ===== verification/Large_Run.thy ===== *)
theory Large_Run
  imports Startup Demand_Paging
begin

text \<open>
  Histories of large allocations, writes and page faults in the kernel that start.asm brings up: what a client that only
  sees pointers and sizes may rely on.
\<close>

section \<open>Histories\<close>

text \<open>The memory of a kernel that has come up, with its image ending at \<open>ke\<close>.\<close>

definition started :: "kheap services \<Rightarrow> u32 \<Rightarrow> kvm \<Rightarrow> bool" where
  "started sv ke s \<longleftrightarrow> (\<exists>dev gdt_addr idt_addr kdir isr m esp m'. 0x100000 \<le> kdir \<and> kdir < ke \<and> ke \<le> 0x39C000 \<and> aligned kdir
     \<and> loaded kdir m \<and> start_entry dev sv (kernel_layout ke) gdt_addr idt_addr kdir isr m = Inr (esp, m') \<and> s = m_vm m')"

text \<open>
  A client asks for blocks, is told that there is no memory, frees blocks it holds other than the one at the first
  address, and writes to blocks it holds; in between, pages that are neither present nor swapped out are touched, while
  there are frames. \<open>k\<close> counts the pages asked for so far, \<open>H\<close> is what the client holds.
\<close>

definition demandable :: "u32 \<Rightarrow> kvm \<Rightarrow> bool" where
  "demandable v s \<longleftrightarrow> get_directory_index v \<noteq> 1023 \<and> \<not> is_page_present (pt s (get_table_index v)) \<and> \<not> is_swapped (pt s (get_table_index v))
     \<and> fst (pmm_alloc_frame (pmm s)) \<noteq> PMM_NO_FRAME_AVAILABLE \<and> fifo_count s < 170"

inductive large_run :: "kheap services \<Rightarrow> u32 \<Rightarrow> kvm \<Rightarrow> nat \<Rightarrow> (u32 \<times> u32) list \<Rightarrow> bool" for sv ke where
  started: "started sv ke s \<Longrightarrow> large_run sv ke s 0 []"
| alloc: "large_run sv ke s k H \<Longrightarrow> MAX_CACHE_SIZE < sz \<Longrightarrow> k + pages_of sz \<le> 76 \<Longrightarrow> kmalloc sv sz s = Inr (ptr, s') \<Longrightarrow> ptr \<noteq> 0
    \<Longrightarrow> large_run sv ke s' (k + pages_of sz) ((ptr, sz) # H)"
| exhausted: "large_run sv ke s k H \<Longrightarrow> MAX_CACHE_SIZE < sz \<Longrightarrow> k + pages_of sz \<le> 76 \<Longrightarrow> kmalloc sv sz s = Inr (0, s')
    \<Longrightarrow> large_run sv ke s' k H"
| free: "large_run sv ke s k H \<Longrightarrow> (ptr, sz) \<in> set H \<Longrightarrow> ptr \<noteq> large_page 0 \<Longrightarrow> kfree sv ptr s = Inr s'
    \<Longrightarrow> large_run sv ke s' k (filter (\<lambda>h. fst h \<noteq> ptr) H)"
| written: "large_run sv ke s k H \<Longrightarrow> (ptr, sz) \<in> set H \<Longrightarrow> i < sz \<Longrightarrow> store (ptr + i) x s = Inr s' \<Longrightarrow> large_run sv ke s' k H"
| faulted: "large_run sv ke s k H \<Longrightarrow> demandable v s \<Longrightarrow> \<not> is_page_present_error err \<Longrightarrow> page_fault_handler (heap_services sv) v err s = Inr s'
    \<Longrightarrow> large_run sv ke s' k H"

section \<open>The blocks behind the pointers\<close>

definition held_block :: "block \<Rightarrow> u32 \<times> u32" where
  "held_block b = (large_page (blk_page b), blk_size b)"

definition blocks_held :: "u32 \<Rightarrow> kvm \<Rightarrow> block list \<Rightarrow> bool" where
  "blocks_held ke s B \<longleftrightarrow> reserved_frames (kernel_layout ke) \<subseteq> used_frames (pmm s)
     \<and> (\<forall>b \<in> set B. pages_of (blk_size b) = length (blk_frames b) \<and> frame_no ` set (blk_frames b) \<inter> reserved_frames (kernel_layout ke) = {})"

text \<open>The queue of pages holds the other objects that were taken from the smallest cache.\<close>

definition queue_objects :: "nat \<Rightarrow> nat \<Rightarrow> kvm \<Rightarrow> bool" where
  "queue_objects k n s \<longleftrightarrow> (\<exists>as. page_queue s as \<and> set as \<subseteq> rec_addr ` {..<n} \<and> length as \<le> 170 \<and> n \<le> k + length as)"

definition run_inv :: "u32 \<Rightarrow> kvm \<Rightarrow> nat \<Rightarrow> (u32 \<times> u32) list \<Rightarrow> bool" where
  "run_inv ke s k H \<longleftrightarrow> (\<exists>B n. large_heap k B (records_from n) s \<and> queue_objects k n s \<and> k \<le> 76 \<and> H = map held_block B \<and> blocks_held ke s B)"

lemma run_invE:
  assumes "run_inv ke s k H"
  obtains B n where "large_heap k B (records_from n) s" "queue_objects k n s" "k \<le> 76" "H = map held_block B" "blocks_held ke s B"
  using assms unfolding run_inv_def by blast

lemma run_invI:
  "large_heap k B (records_from n) s \<Longrightarrow> queue_objects k n s \<Longrightarrow> k \<le> 76 \<Longrightarrow> blocks_held ke s B \<Longrightarrow> run_inv ke s k (map held_block B)"
  unfolding run_inv_def by blast

lemma queue_objects_same: "same_queue s s' \<Longrightarrow> queue_objects k n s' \<longleftrightarrow> queue_objects k n s"
  by (simp add: queue_objects_def page_queue_same(1))

lemma queue_objects_mono:
  assumes "queue_objects k n s" and "n \<le> n'" and "n' + k \<le> n + k'"
  shows "queue_objects k' n' s"
proof -
  obtain as where as: "page_queue s as" "set as \<subseteq> rec_addr ` {..<n}" "length as \<le> 170" "n \<le> k + length as"
    using assms(1) unfolding queue_objects_def by blast
  moreover have "rec_addr ` {..<n} \<subseteq> rec_addr ` {..<n'}" using assms(2) by (intro image_mono) auto
  ultimately show ?thesis unfolding queue_objects_def using assms(2,3) by (intro exI [of _ as] conjI) auto
qed

lemma queue_objects_bound: "queue_objects k n s \<Longrightarrow> n \<le> k + 170"
  unfolding queue_objects_def by fastforce

lemma started_large:
  assumes "started sv ke s"
  shows "large_heap 0 [] (records_from 0) s" "used_frames (pmm s) = reserved_frames (kernel_layout ke)" "page_queue s []"
proof -
  obtain dev gdt_addr idt_addr kdir isr m esp m' where st: "0x100000 \<le> kdir" "kdir < ke" "ke \<le> 0x39C000" "aligned kdir" "loaded kdir m"
      "start_entry dev sv (kernel_layout ke) gdt_addr idt_addr kdir isr m = Inr (esp, m')" "s = m_vm m'"
    using assms unfolding started_def by blast
  obtain m1 where "start_entry dev sv (kernel_layout ke) gdt_addr idt_addr kdir isr m = Inr (0x3FFFFFB, m1)"
      "large_heap 0 [] (records_from 0) (m_vm m1)" "pmm (m_vm m1) = snd (pmm_init (kernel_layout ke) pmm_static)" "page_queue (m_vm m1) []"
    by (rule start_entry_ok [OF st(1-5), of dev sv gdt_addr idt_addr isr])
  then show "large_heap 0 [] (records_from 0) s" "used_frames (pmm s) = reserved_frames (kernel_layout ke)" "page_queue s []"
    using st(6,7) by (simp_all add: pmm_init_used)
qed

lemma started_inv:
  assumes "started sv ke s"
  shows "run_inv ke s 0 []"
proof -
  note st = started_large [OF assms]
  have "queue_objects 0 0 s" using st(3) by (auto simp: queue_objects_def intro!: exI [of _ "[]"])
  moreover have "blocks_held ke s []" by (simp add: blocks_held_def st(2))
  ultimately show ?thesis using run_invI [OF st(1)] by simp
qed

lemma alloc_frames_total: "\<exists>fs p'. alloc_frames n p = Inr (fs, p')"
proof (induction n arbitrary: p)
  case (Suc n)
  obtain a p1 where "pmm_alloc_frame p = (a, p1)" by fastforce
  then show ?case using Suc.IH [of p1] by auto
qed simp

lemma pages_of_pos: "MAX_CACHE_SIZE < sz \<Longrightarrow> 0 < pages_of sz"
  by (simp add: pages_of_def MAX_CACHE_SIZE_def word_less_nat_alt)

lemma run_alloc:
  assumes "run_inv ke s k H" and "MAX_CACHE_SIZE < sz" and "k + pages_of sz \<le> 76"
  shows "\<exists>ptr s'. kmalloc sv sz s = Inr (ptr, s')
     \<and> (if ptr = 0 then run_inv ke s' k H else run_inv ke s' (k + pages_of sz) ((ptr, sz) # H))"
proof -
  obtain B n where B: "large_heap k B (records_from n) s" "queue_objects k n s" "k \<le> 76" "H = map held_block B" "blocks_held ke s B"
    using assms(1) by (rule run_invE)
  have sz: "unat sz \<le> 148 * 4096" "0 < sz" "k + pages_of sz \<le> 148" "0 < pages_of sz"
    using pages_of_bound [of sz 148] pages_of_pos [OF assms(2)] assms(2,3) by (auto simp: MAX_CACHE_SIZE_def word_less_nat_alt)
  have n: "records_from n = n # records_from (Suc n)" using queue_objects_bound [OF B(2)] assms(3) sz(4) by (intro records_from_step) simp
  have kl: "kmalloc sv sz s = kmalloc_large sv sz s" using assms(2) by (simp add: kmalloc_def)
  obtain fs p where fs: "alloc_frames (pages_of sz) (pmm s) = Inr (fs, p)" using alloc_frames_total by blast
  show ?thesis
  proof (cases "0 \<in> set fs")
    case True
    obtain s' where s': "kmalloc_large sv sz s = Inr (0, s')" "large_heap k B (records_from n) s'" "used_frames (pmm s') = used_frames (pmm s)"
        "same_queue s s'"
      using kmalloc_large_fails [OF B(1) sz(1,3) fs True] by blast
    then have "run_inv ke s' k H" unfolding B(4)
      using B(2,3,5) queue_objects_same [OF s'(4)] by (intro run_invI [OF s'(2)]) (simp_all add: blocks_held_def)
    then show ?thesis using kl s'(1) by auto
  next
    case False
    let ?b = "\<lparr>blk_obj = n, blk_size = sz, blk_page = k, blk_frames = fs\<rparr>"
    obtain s' where s': "kmalloc_large sv sz s = Inr (large_page k, s')" "pmm s' = p" "large_heap (k + pages_of sz) (?b # B) (records_from (Suc n)) s'"
        "same_queue s s'"
      using kmalloc_large_ok [OF B(1) [unfolded n] sz(1-3) fs False] by blast
    have new: "length fs = pages_of sz" "frame_no ` set fs \<inter> used_frames (pmm s) = {}" "used_frames p = frame_no ` set fs \<union> used_frames (pmm s)"
      using pmm.alloc_many_used [OF _ fs False] B(1) by (auto simp: large_heap_def pmm_ok_def)
    have "queue_objects (k + pages_of sz) (Suc n) s'"
      using queue_objects_mono [OF B(2), of "Suc n" "k + pages_of sz"] queue_objects_same [OF s'(4)] sz(4) by simp
    moreover have "blocks_held ke s' (?b # B)" using B(5) new s'(2) unfolding blocks_held_def by auto
    ultimately have "run_inv ke s' (k + pages_of sz) (map held_block (?b # B))" using assms(3) by (intro run_invI [OF s'(3)])
    moreover have "large_page k \<noteq> 0" using large_page_facts(1) [of k] assms(3) by auto
    ultimately show ?thesis using s'(1) kl B(4) by (auto simp: held_block_def)
  qed
qed

text \<open>Different blocks start at different pages.\<close>

lemma block_pages_distinct:
  assumes "large_heap k B fl s"
  shows "distinct (map (\<lambda>b. fst (held_block b)) B)"
proof -
  have ok: "\<forall>b \<in> set B. blk_page b < 148 \<and> 0 < length (blk_frames b)"
  proof
    fix b assume "b \<in> set B"
    then have "block_ok k s b" "k \<le> 148" using assms by (simp_all add: large_heap_def blocks_ok_def)
    then show "blk_page b < 148 \<and> 0 < length (blk_frames b)" by (cases "blk_frames b") (simp_all add: block_ok_def)
  qed
  have "sorted_wrt (\<lambda>b c. blk_page c + length (blk_frames c) \<le> blk_page b) B" using assms by (simp add: large_heap_def blocks_ok_def)
  then show ?thesis using ok
  proof (induction B)
    case (Cons b B)
    have "large_page (blk_page c) \<noteq> large_page (blk_page b)" if "c \<in> set B" for c
      proof -
      have "blk_page c < 148" "blk_page b < 148" "blk_page c + length (blk_frames c) \<le> blk_page b" "0 < length (blk_frames c)"
        using Cons.prems that by simp_all
      then have "blk_page c < 916" "blk_page b < 916" "blk_page c \<noteq> blk_page b" by linarith+
      then show ?thesis by (simp only: large_page_inject not_False_eq_True)
    qed
    then have "large_page (blk_page b) \<notin> (\<lambda>c. large_page (blk_page c)) ` set B" by (metis imageE)
    then show ?case using Cons by (simp add: held_block_def)
  qed simp
qed

lemma filter_remove1:
  assumes "distinct (map f (xs @ b # ys))"
  shows "filter (\<lambda>x. f x \<noteq> f b) (xs @ b # ys) = xs @ ys"
proof -
  have "f b \<notin> f ` set xs" "f b \<notin> f ` set ys" using assms by simp_all
  then have "\<forall>x \<in> set xs. f x \<noteq> f b" "\<forall>x \<in> set ys. f x \<noteq> f b" by (metis imageI)+
  then show ?thesis by simp
qed

lemma run_free:
  assumes "run_inv ke s k H" and "(ptr, sz) \<in> set H" and "ptr \<noteq> large_page 0"
  shows "\<exists>s'. kfree sv ptr s = Inr s' \<and> run_inv ke s' k (filter (\<lambda>h. fst h \<noteq> ptr) H)"
proof -
  obtain B n where B: "large_heap k B (records_from n) s" "queue_objects k n s" "k \<le> 76" "H = map held_block B" "blocks_held ke s B"
    using assms(1) by (rule run_invE)
  obtain b where "b \<in> set B" and b: "ptr = large_page (blk_page b)" using assms(2) B(4) by (auto simp: held_block_def)
  then obtain xs ys where xs: "B = xs @ b # ys" by (meson split_list)
  have "0 < blk_page b" using b assms(3) by (cases "blk_page b") auto
  then obtain s' where s': "kfree sv ptr s = Inr s'" "large_heap k (xs @ ys) (records_from n) s'"
      "used_frames (pmm s') = used_frames (pmm s) - frame_no ` set (blk_frames b)" "same_queue s s'"
    using kfree_large_ok [OF B(1) [unfolded xs], of sv] b by blast
  have "filter (\<lambda>c. fst (held_block c) \<noteq> fst (held_block b)) (xs @ b # ys) = xs @ ys"
    using block_pages_distinct [OF B(1)] unfolding xs by (rule filter_remove1)
  then have rest: "filter (\<lambda>h. fst h \<noteq> ptr) H = map held_block (xs @ ys)"
    unfolding B(4) xs filter_map comp_def b by (simp add: held_block_def)
  have "blocks_held ke s' (xs @ ys)" using B(5) xs s'(3) unfolding blocks_held_def by auto
  then have "run_inv ke s' k (filter (\<lambda>h. fst h \<noteq> ptr) H)" unfolding rest
    using B(2,3) queue_objects_same [OF s'(4)] by (intro run_invI [OF s'(2)]) simp_all
  then show ?thesis using s'(1) by blast
qed

section \<open>The bytes of a block\<close>

lemma split_offset: "i = of_nat (unat i div 4096) * 4096 + of_nat (unat i mod 4096)" for i :: u32
proof -
  have "i = of_nat (unat i)" by simp
  also have "\<dots> = of_nat (unat i div 4096 * 4096 + unat i mod 4096)" by (simp only: div_mult_mod_eq)
  finally show ?thesis by (simp only: of_nat_add of_nat_mult of_nat_numeral)
qed

lemma block_byte:
  assumes "large_heap k B fl s" and "b \<in> set B" and "pages_of (blk_size b) = length (blk_frames b)" and "i < blk_size b"
  shows "unat i div 4096 < length (blk_frames b)"
    "translate s (large_page (blk_page b) + i) = Some (blk_frames b ! (unat i div 4096) + of_nat (unat i mod 4096))"
proof -
  let ?j = "unat i div 4096" and ?o = "of_nat (unat i mod 4096) :: u32"
  have "unat i < unat (blk_size b)" using assms(4) by (simp add: word_less_nat_alt)
  then show j: "?j < length (blk_frames b)" using assms(3) unfolding pages_of_def by linarith
  have "?o < 4096" by (simp add: word_less_nat_alt unat_of_nat_exact)
  then have "translate s (large_page (blk_page b + ?j) + ?o) = Some (blk_frames b ! ?j + ?o)"
    using large_block_frames(3) [OF assms(1,2) j] by (intro data_page_translate)
  moreover have "i = of_nat ?j * 4096 + ?o"  by (rule split_offset)
  then have "large_page (blk_page b) + i = large_page (blk_page b + ?j) + ?o"
    by (subst \<open>i = _\<close>) (simp add: large_page_def algebra_simps)
  ultimately show "translate s (large_page (blk_page b) + i) = Some (blk_frames b ! ?j + ?o)" by simp
qed

lemma concat_owner: "distinct (concat (map f B)) \<Longrightarrow> x \<in> set B \<Longrightarrow> y \<in> set B \<Longrightarrow> a \<in> set (f x) \<Longrightarrow> a \<in> set (f y) \<Longrightarrow> x = y"
  by (induction B) auto

lemma frame_no_in_page:
  assumes "is_valid_frame_addr a" and "n < 4096"
  shows "frame_no (a + of_nat n) = frame_no a" "get_frame_addr (a + of_nat n) = a"
proof -
  have "aligned a" using valid_frame_aligned [OF assms(1)] get_frame_aligned [of a] by simp
  moreover have "(of_nat n :: u32) < 4096" using assms(2) by (simp add: word_less_nat_alt unat_of_nat_exact)
  ultimately show "get_frame_addr (a + of_nat n) = a" by (rule frame_of_sum)
  then show "frame_no (a + of_nat n) = frame_no a" using valid_frame_aligned [OF assms(1)] by (metis frame_addr_iff_frame_no)
qed

lemma frame_offset_inject:
  assumes "is_valid_frame_addr a" and "is_valid_frame_addr b" and "n < 4096" and "m < 4096" and "a + of_nat n = b + of_nat m"
  shows "a = b" "n = m"
proof -
  show ab: "a = b" using frame_no_in_page(2) [OF assms(1,3)] frame_no_in_page(2) [OF assms(2,4)] assms(5) by simp
  then have "unat (of_nat n :: u32) = unat (of_nat m :: u32)" using assms(5) by simp
  moreover have "unat (of_nat n :: u32) = n" "unat (of_nat m :: u32) = m" using assms(3,4) by (simp_all add: unat_of_nat_exact)
  ultimately show "n = m" by simp
qed

lemma block_bytes_apart:
  assumes "large_heap k B fl s" and "b \<in> set B" "c \<in> set B"
    and "pages_of (blk_size b) = length (blk_frames b)" "pages_of (blk_size c) = length (blk_frames c)"
    and "i < blk_size b" "j < blk_size c" and "translate s (large_page (blk_page b) + i) = translate s (large_page (blk_page c) + j)"
  shows "b = c \<and> i = j"
proof -
  note bi = block_byte [OF assms(1,2,4,6)] and cj = block_byte [OF assms(1,3,5,7)]
  let ?f = "blk_frames b ! (unat i div 4096)" and ?g = "blk_frames c ! (unat j div 4096)"
  have B: "distinct (concat (map (\<lambda>b. map frame_no (blk_frames b)) B))" "block_ok k s b" "block_ok k s c"
    using assms(1-3) by (simp_all add: large_heap_def blocks_ok_def map_concat comp_def)
  have fg: "?f \<in> set (blk_frames b)" "?g \<in> set (blk_frames c)" using bi(1) cj(1) by simp_all
  have v: "is_valid_frame_addr ?f" "is_valid_frame_addr ?g" using B(2,3) fg by (auto simp: block_ok_def)
  have e: "?f + of_nat (unat i mod 4096) = ?g + of_nat (unat j mod 4096)" using assms(8) bi(2) cj(2) by simp
  have f: "?f = ?g" and off: "unat i mod 4096 = unat j mod 4096"
    using frame_offset_inject [OF v _ _ e] by (meson mod_less_divisor zero_less_numeral)+
  have "frame_no ?f \<in> set (map frame_no (blk_frames b))" "frame_no ?f \<in> set (map frame_no (blk_frames c))" using fg f by auto
  then have bc: "b = c" using concat_owner [OF B(1) assms(2,3)] by blast
  have "distinct (map frame_no (blk_frames b))" using B(1) assms(2) by (simp add: distinct_concat_iff)
  then have "distinct (blk_frames b)" by (rule distinct_map [THEN iffD1, THEN conjunct1])
  then have "unat i div 4096 = unat j div 4096" using f bi(1) cj(1) bc by (simp add: nth_eq_iff_index_eq)
  then have "unat i = unat j" using off by (metis div_mult_mod_eq)
  then show ?thesis using bc by (simp add: word_unat_eq_iff)
qed

text \<open>A write to a byte of a block is seen at that byte and nowhere else in the blocks.\<close>

lemma block_store:
  assumes "large_heap k B fl s" and "b \<in> set B" and "pages_of (blk_size b) = length (blk_frames b)" and "i < blk_size b"
  shows "\<exists>s' a. store (large_page (blk_page b) + i) x s = Inr s' \<and> translate s (large_page (blk_page b) + i) = Some a
     \<and> s' = s\<lparr>mem := (mem s)(a := x)\<rparr> \<and> large_heap k B fl s' \<and> same_queue s s'"
proof -
  let ?j = "unat i div 4096" and ?o = "of_nat (unat i mod 4096) :: u32"
  note bi = block_byte [OF assms] and bf = large_block_frames [OF assms(1,2) block_byte(1) [OF assms]]
  let ?s = "s\<lparr>mem := (mem s)(blk_frames b ! ?j + ?o := x)\<rparr>"
  have "?o < 4096" by (simp add: word_less_nat_alt unat_of_nat_exact)
  moreover have "aligned (blk_frames b ! ?j)" using bf(3) by (simp add: data_page_def)
  ultimately have "within (blk_frames b ! ?j) s ?s" using within_put [of _ ?o s x] by (simp add: put_word_def)
  then have "large_heap k B fl ?s" using bf(4) by (rule large_heap_within [OF assms(1)])
  moreover have "same_queue s ?s" by (simp add: same_queue_def)
  ultimately show ?thesis using bi(2) by (auto simp: store_def)
qed

section \<open>Every step keeps the invariant\<close>

lemma run_write:
  assumes "run_inv ke s k H" and "(ptr, sz) \<in> set H" and "i < sz"
  shows "\<exists>s'. store (ptr + i) x s = Inr s' \<and> run_inv ke s' k H
     \<and> (\<forall>(q, tz) \<in> set H. \<forall>j < tz. load (q + j) s' = (if q = ptr \<and> j = i then Inr x else load (q + j) s))"
proof -
  obtain B n where B: "large_heap k B (records_from n) s" "queue_objects k n s" "k \<le> 76" "H = map held_block B" "blocks_held ke s B"
    using assms(1) by (rule run_invE)
  obtain b where b: "b \<in> set B" "ptr = large_page (blk_page b)" "sz = blk_size b" using assms(2) B(4) by (auto simp: held_block_def)
  have pg: "pages_of (blk_size c) = length (blk_frames c)" if "c \<in> set B" for c using B(5) that by (simp add: blocks_held_def)
  obtain s' a where s': "store (ptr + i) x s = Inr s'" "translate s (ptr + i) = Some a" "s' = s\<lparr>mem := (mem s)(a := x)\<rparr>"
      "large_heap k B (records_from n) s'" "same_queue s s'"
    using block_store [OF B(1) b(1) pg [OF b(1)], of i x] assms(3) b(2,3) by auto
  have "load (q + j) s' = (if q = ptr \<and> j = i then Inr x else load (q + j) s)" if qt: "(q, tz) \<in> set H" "j < tz" for q tz j
  proof -
    obtain c where c: "c \<in> set B" "q = large_page (blk_page c)" "tz = blk_size c" using qt(1) B(4) by (auto simp: held_block_def)
    have j: "j < blk_size c" using qt(2) c(3) by simp
    note cs = block_byte(2) [OF B(1) c(1) pg [OF c(1)] j] and cs' = block_byte(2) [OF s'(4) c(1) pg [OF c(1)] j]
    show ?thesis
    proof (cases "translate s (q + j) = translate s (ptr + i)")
      case True
      then have "c = b \<and> j = i" using block_bytes_apart [OF B(1) c(1) b(1) pg [OF c(1)] pg [OF b(1)] j] assms(3) b(2,3) c(2) by simp
      then show ?thesis using cs cs' s'(2,3) b(2) c(2) True by (simp add: load_def)
    next
      case False
      then have "\<not> (q = ptr \<and> j = i)" by auto
      moreover have "translate s' (q + j) = translate s (q + j)" using cs cs' c(2) by simp
      ultimately show ?thesis using False s'(2,3) cs c(2) by (auto simp: load_def)
    qed
  qed
  moreover have "run_inv ke s' k H" unfolding B(4)
    using B(2,3,5) queue_objects_same [OF s'(5)] s'(3) by (intro run_invI [OF s'(4)]) (simp_all add: blocks_held_def)
  ultimately show ?thesis using s'(1) by blast
qed

lemma rec_addr_inject: "i < 254 \<Longrightarrow> j < 254 \<Longrightarrow> rec_addr i = rec_addr j \<longleftrightarrow> i = j"
  using cell_inject [of i 0 j 0] by (simp add: rec_addr_def)

lemma run_fault:
  assumes "run_inv ke s k H" and "demandable v s" and "\<not> is_page_present_error err"
  shows "\<exists>s'. page_fault_handler (heap_services sv) v err s = Inr s' \<and> run_inv ke s' k H \<and> translate s' v \<noteq> None"
proof -
  obtain B n where B: "large_heap k B (records_from n) s" "queue_objects k n s" "k \<le> 76" "H = map held_block B" "blocks_held ke s B"
    using assms(1) by (rule run_invE)
  obtain as where as: "page_queue s as" "set as \<subseteq> rec_addr ` {..<n}" "n \<le> k + length as"
    using B(2) unfolding queue_objects_def by blast
  obtain f p where f: "pmm_alloc_frame (pmm s) = (f, p)" by fastforce
  have v: "get_directory_index v \<noteq> 1023" "\<not> is_page_present (pt s (get_table_index v))" "\<not> is_swapped (pt s (get_table_index v))"
      "f \<noteq> PMM_NO_FRAME_AVAILABLE" "length as < 170"
    using assms(2) f as(1) by (auto simp: demandable_def page_queue_def word_less_nat_alt)
  have n: "n < 254" using as(3) B(3) v(5) by simp
  have h: "large_heap k B (n # records_from (Suc n)) s" using B(1) records_from_step [OF n] by simp
  have "rec_addr n \<notin> set as" using as(2) n rec_addr_inject by force
  then obtain s' where s': "page_fault_handler (heap_services sv) v err s = Inr s'"
      "\<forall>v'. get_directory_index v' \<noteq> 1023 \<longrightarrow>
          translate s' v' = (if get_table_index v' = get_table_index v then Some (f + get_frame_offset v') else translate s v')"
      "pmm s' = p" "page_queue s' (as @ [rec_addr n])" "large_heap k B (records_from (Suc n)) s'"
    using page_fault_in_kernel [OF h v(1-3) assms(3) f v(4) as(1)] v(5) by auto
  have "set (as @ [rec_addr n]) \<subseteq> rec_addr ` {..<Suc n}" using as(2) by auto
  then have "queue_objects k (Suc n) s'"
    using s'(4) v(5) as(3) unfolding queue_objects_def by (intro exI [of _ "as @ [rec_addr n]"]) simp
  moreover have "used_frames (pmm s) \<subseteq> used_frames (pmm s')"
    using pmm_ok_alloc(4) [OF _ f] v(4) B(1) s'(3) by (auto simp: large_heap_def PMM_NO_FRAME_AVAILABLE_def)
  then have "blocks_held ke s' B" using B(5) by (auto simp: blocks_held_def)
  ultimately have "run_inv ke s' k H" unfolding B(4) using B(3) by (intro run_invI [OF s'(5)])
  then show ?thesis using s'(1,2) v(1) by auto
qed

lemma large_run_inv: "large_run sv ke s k H \<Longrightarrow> run_inv ke s k H"
proof (induction rule: large_run.induct)
  case (started s)
  then show ?case by (rule started_inv)
next
  case (alloc s k H sz ptr s')
  then show ?case using run_alloc [of ke s k H sz sv] by auto
next
  case (exhausted s k H sz s')
  then show ?case using run_alloc [of ke s k H sz sv] by auto
next
  case (free s k H ptr sz s')
  then show ?case using run_free [of ke s k H ptr sz sv] by auto
next
  case (written s k H ptr sz i x s')
  then show ?case using run_write [of ke s k H ptr sz i x] by auto
next
  case (faulted s k H v err s')
  then show ?case using run_fault [of ke s k H v err sv] by auto
qed

section \<open>Properties\<close>


text \<open>Two blocks of a kernel that has come up.\<close>

lemma started_example: "\<exists>s. started idle_services 0x110000 s"
proof -
  have l: "loaded 0x108000 loaded_kernel"
    by (simp add: loaded_def loaded_kernel_def boot_kvm_def screen_inv_def screen_boot_def keyboard_inv_def keyboard_boot_def page_queue_def)
  obtain m' where "start_entry (\<lambda>_ _. 0) idle_services (kernel_layout 0x110000) 0x2000 0x3000 0x108000 (\<lambda>n. 0x100000 + of_nat n) loaded_kernel
      = Inr (0x3FFFFFB, m')"
    by (rule start_entry_ok [of "0x108000" "0x110000" loaded_kernel "\<lambda>_ _. 0" idle_services "0x2000" "0x3000" "\<lambda>n. 0x100000 + of_nat n"])
      (use l in \<open>simp_all add: aligned_def\<close>)
  then show ?thesis using l unfolding started_def
    by (intro exI [of _ "m_vm m'"] exI [of _ "\<lambda>_ _. 0"] exI [of _ "0x2000"] exI [of _ "0x3000"] exI [of _ "0x108000"]
        exI [of _ "\<lambda>n. 0x100000 + of_nat n"] exI [of _ loaded_kernel] exI [of _ "0x3FFFFFB"] exI [of _ m']) (simp add: aligned_def)
qed


end
