(* ===== verification/Ata_Drive.thy ===== *)
theory Ata_Drive
  imports Ata_Properties
begin

text \<open>
  The disk seen through the driver. A drive is outside the program: it enters as the function that answers
  port reads, and \<open>disk_attached\<close> states the documented behaviour of an ATA drive in PIO mode that the driver relies on.
  Under it the sector transfers and \<open>disk_read\<close>, \<open>disk_write\<close> act on an array of bytes.
\<close>

section \<open>The registers and the medium of a drive\<close>

record drive =
  d_select :: u8
  d_count :: u8
  d_low :: u8
  d_mid :: u8
  d_high :: u8
  d_cmd :: u8
  d_pos :: nat
  d_image :: "nat \<Rightarrow> u16"

text \<open>
  Both drives of a channel see every register write, the selected one obeys. A read or write command starts a
  transfer at the sector in the registers; each access to the data port moves one half-word. A flush
  leaves medium and transfer alone. \<open>base\<close> is the channel, \<open>sl\<close> the drive on it, \<open>half\<close> the half-words of a sector.
\<close>

definition d_selected :: "bool \<Rightarrow> drive \<Rightarrow> bool" where
  "d_selected sl d \<longleftrightarrow> bit (d_select d) 4 = sl"

definition d_start :: "nat \<Rightarrow> drive \<Rightarrow> nat" where
  "d_start half d = unat (lba_of_registers (d_low d) (d_mid d) (d_high d) (d_select d AND 0x0F)) * half"

definition d_total :: "nat \<Rightarrow> drive \<Rightarrow> nat" where
  "d_total half d = half * (if d_count d = 0 then 256 else unat (d_count d))"

fun drive_event :: "u16 \<Rightarrow> bool \<Rightarrow> nat \<Rightarrow> io_event \<Rightarrow> drive \<Rightarrow> drive" where
  "drive_event base sl half (Out8 p v) d =
     (if p = base + 6 then d\<lparr>d_select := v\<rparr>
      else if p = base + 2 then d\<lparr>d_count := v\<rparr>
      else if p = base + 3 then d\<lparr>d_low := v\<rparr>
      else if p = base + 4 then d\<lparr>d_mid := v\<rparr>
      else if p = base + 5 then d\<lparr>d_high := v\<rparr>
      else if p = base + 7 \<and> d_selected sl d \<and> (v = ATA_CMD_READ \<or> v = ATA_CMD_WRITE) then d\<lparr>d_cmd := v, d_pos := 0\<rparr>
      else d)"
| "drive_event base sl half (Out16 p w) d =
     (if p = base \<and> d_selected sl d \<and> d_cmd d = ATA_CMD_WRITE \<and> d_pos d < d_total half d then
        d\<lparr>d_image := (d_image d)(d_start half d + d_pos d := w), d_pos := d_pos d + 1\<rparr>
      else d)"
| "drive_event base sl half (In16 p w) d =
     (if p = base \<and> d_selected sl d \<and> d_cmd d = ATA_CMD_READ then d\<lparr>d_pos := d_pos d + 1\<rparr> else d)"
| "drive_event base sl half (Out32 p w) d = d"
| "drive_event base sl half (In8 p w) d = d"
| "drive_event base sl half (In32 p w) d = d"

text \<open>The drive after a history, from power-on with the medium \<open>img\<close>.\<close>

fun drive_after :: "u16 \<Rightarrow> bool \<Rightarrow> nat \<Rightarrow> (nat \<Rightarrow> u16) \<Rightarrow> io \<Rightarrow> drive" where
  "drive_after base sl half img [] =
     \<lparr>d_select = 0, d_count = 0, d_low = 0, d_mid = 0, d_high = 0, d_cmd = 0, d_pos = 0, d_image = img\<rparr>"
| "drive_after base sl half img (e # io) = drive_event base sl half e (drive_after base sl half img io)"

text \<open>The current disk's drive.\<close>

definition half_words :: "ata \<Rightarrow> nat" where
  "half_words st = unat (logical_sector_size (current_disk st) div 2)"

definition disk_drive :: "(nat \<Rightarrow> u16) \<Rightarrow> ata \<Rightarrow> io \<Rightarrow> drive" where
  "disk_drive img st io = drive_after (base_io_port (current_disk st)) (slave (current_disk st)) (half_words st) img io"

text \<open>
  The behaviour relied on: the drive is ready, holds at most \<open>2 ^ 28\<close> sectors, and during a read command the data
  port delivers the medium's half-words in order.
\<close>

definition disk_attached :: "(nat \<Rightarrow> u16) \<Rightarrow> device \<Rightarrow> ata \<Rightarrow> bool" where
  "disk_attached img dev st \<longleftrightarrow> disk_ready dev st \<and> unat (total_sectors (current_disk st)) \<le> 2 ^ 28
     \<and> (\<forall>io. let d = disk_drive img st io in
          d_selected (slave (current_disk st)) d \<and> d_cmd d = ATA_CMD_READ \<and> d_pos d < d_total (half_words st) d \<longrightarrow>
          ucast (dev io (base_io_port (current_disk st))) = d_image d (d_start (half_words st) d + d_pos d))"

text \<open>The medium as bytes.\<close>

definition image_bytes :: "(nat \<Rightarrow> u16) \<Rightarrow> nat \<Rightarrow> u8" where
  "image_bytes im a = (if even a then ucast (im (a div 2)) else ucast (drop_bit 8 (im (a div 2))))"

definition disk_bytes :: "(nat \<Rightarrow> u16) \<Rightarrow> ata \<Rightarrow> io \<Rightarrow> nat \<Rightarrow> u8" where
  "disk_bytes img st io = image_bytes (d_image (disk_drive img st io))"

section \<open>Half-words and bytes\<close>

lemma half_bytes_image: "half_bytes (im i) = map (image_bytes im) [2 * i, 2 * i + 1]"
  by (simp add: half_bytes_def image_bytes_def)

lemma concat_half_bytes: "concat (map half_bytes (map im [i ..< i + n])) = map (image_bytes im) [2 * i ..< 2 * (i + n)]"
proof (induction n)
  case (Suc n)
  have "[2 * i ..< 2 * (i + Suc n)] = [2 * i ..< 2 * (i + n)] @ [2 * (i + n), 2 * (i + n) + 1]"
    by (simp add: upt_Suc)
  with Suc show ?case by (simp add: half_bytes_image)
qed simp

section \<open>Drive states along a history\<close>

lemma drive_Cons [simp]:
  "disk_drive img st (e # io) =
     drive_event (base_io_port (current_disk st)) (slave (current_disk st)) (half_words st) e (disk_drive img st io)"
  by (simp add: disk_drive_def)

lemma drive_dummy_reads [simp]: "disk_drive img st (dummy_reads dev p n io) = disk_drive img st io"
  by (induction n arbitrary: io) (simp_all add: inb_def Let_def)

lemma drive_delays [simp]:
  "disk_drive img st (delay400ns dev p io) = disk_drive img st io"
  "disk_drive img st (delayAfterCommand dev p io) = disk_drive img st io"
  by (simp_all add: delay400ns_def delayAfterCommand_def)

lemma drive_flush [simp]: "disk_drive img st (flush_cache dev st (curr_disk st) io) = disk_drive img st io"
  by (auto simp: flush_cache_def Let_def outb_def ata_consts current_disk_def)

text \<open>The transfer a command of the current disk starts.\<close>

definition in_transfer :: "(nat \<Rightarrow> u16) \<Rightarrow> ata \<Rightarrow> u8 \<Rightarrow> u32 \<Rightarrow> u8 \<Rightarrow> nat \<Rightarrow> io \<Rightarrow> bool" where
  "in_transfer img st cmd lba n pos io \<longleftrightarrow> (let d = disk_drive img st io in
     d_selected (slave (current_disk st)) d \<and> d_cmd d = cmd \<and> d_count d = n \<and> d_pos d = pos
       \<and> d_start (half_words st) d = unat lba * half_words st)"

lemma lba28_exact: "unat lba < 2 ^ 28 \<Longrightarrow> take_bit 28 lba = lba"
  by (simp add: word_unat_eq_iff unsigned_take_bit_eq take_bit_nat_eq_self)

lemma drive_send_command:
  assumes "cmd = ATA_CMD_READ \<or> cmd = ATA_CMD_WRITE" and "unat lba < 2 ^ 28"
  shows "in_transfer img st cmd lba n 0 (send_command dev (current_disk st) lba n cmd io)"
    and "d_image (disk_drive img st (send_command dev (current_disk st) lba n cmd io)) = d_image (disk_drive img st io)"
proof -
  let ?d = "(if slave (current_disk st) then 0xF0 else 0xE0 :: u8) OR get_lba_highest lba"
  have h: "\<not> bit (get_lba_highest lba) 4" by (simp add: get_lba_highest_def bit_simps)
  have sel: "bit ?d 4 = slave (current_disk st)" using h by (simp add: bit_or_iff)
  have "?d AND 0x0F = get_lba_highest lba"
    by (simp add: get_lba_highest_def bit.conj_disj_distrib2 and.assoc)
  then have "lba_of_registers (get_lba_low lba) (get_lba_mid lba) (get_lba_high lba) (?d AND 0x0F) = lba"
    using lba28 [of lba] lba28_exact [OF assms(2)] by simp
  then show "in_transfer img st cmd lba n 0 (send_command dev (current_disk st) lba n cmd io)"
      "d_image (disk_drive img st (send_command dev (current_disk st) lba n cmd io)) = d_image (disk_drive img st io)"
    using assms(1) sel
    by (auto simp: in_transfer_def send_command_def Let_def outb_def d_selected_def d_start_def ata_consts)
qed

section \<open>Reading\<close>

lemma attached_word:
  assumes "disk_attached img dev st" and "in_transfer img st ATA_CMD_READ lba n pos io" and "pos < half_words st * (if n = 0 then 256 else unat n)"
  shows "ucast (dev io (base_io_port (current_disk st))) = d_image (disk_drive img st io) (unat lba * half_words st + pos)"
proof -
  let ?d = "disk_drive img st io"
  have "d_selected (slave (current_disk st)) ?d \<and> d_cmd ?d = ATA_CMD_READ \<and> d_pos ?d < d_total (half_words st) ?d \<longrightarrow>
      ucast (dev io (base_io_port (current_disk st))) = d_image ?d (d_start (half_words st) ?d + d_pos ?d)"
    using assms(1) by (simp add: disk_attached_def Let_def)
  with assms(2,3) show ?thesis by (auto simp: in_transfer_def Let_def d_total_def)
qed

lemma read_words_image:
  assumes "disk_attached img dev st" and "in_transfer img st ATA_CMD_READ lba n pos io"
    and "pos + m \<le> half_words st * (if n = 0 then 256 else unat n)" and "2 * (j + m) \<le> length b"
  shows "\<exists>io'. read_words dev (base_io_port (current_disk st)) j m b io =
       Inr (take (2 * j) b @ concat (map half_bytes (map (d_image (disk_drive img st io)) [unat lba * half_words st + pos ..< unat lba * half_words st + pos + m]))
              @ drop (2 * (j + m)) b, io')
     \<and> in_transfer img st ATA_CMD_READ lba n (pos + m) io' \<and> d_image (disk_drive img st io') = d_image (disk_drive img st io)"
  using assms(2-)
proof (induction m arbitrary: j b io pos)
  case (Suc m)
  let ?base = "base_io_port (current_disk st)" and ?im = "d_image (disk_drive img st io)" and ?s = "unat lba * half_words st + pos"
  define w where "w = ?im ?s"
  have w: "ucast (dev io ?base) = w" using attached_word [OF assms(1) Suc.prems(1)] Suc.prems(2) by (simp add: w_def)
  let ?io = "In16 ?base w # io"
  have st: "in_transfer img st ATA_CMD_READ lba n (Suc pos) ?io" "d_image (disk_drive img st ?io) = ?im"
    using Suc.prems(1) by (auto simp: in_transfer_def Let_def d_selected_def d_start_def)
  let ?b = "take (2 * j) b @ half_bytes w @ drop (2 * j + 2) b"
  have len: "length ?b = length b" using Suc.prems by (simp add: half_bytes_def)
  obtain io' where r: "read_words dev ?base (Suc j) m ?b ?io = Inr (take (2 * Suc j) ?b
        @ concat (map half_bytes (map ?im [Suc ?s ..< Suc ?s + m])) @ drop (2 * (Suc j + m)) ?b, io')"
      "in_transfer img st ATA_CMD_READ lba n (Suc pos + m) io'" "d_image (disk_drive img st io') = ?im"
    using Suc.IH [OF st(1), of "Suc j" ?b] Suc.prems(2,3) len st(2) by auto
  have "take (2 * Suc j) ?b = take (2 * j) b @ half_bytes w" "drop (2 * (Suc j + m)) ?b = drop (2 * (j + Suc m)) b"
    using Suc.prems(3) by (simp_all add: half_bytes_def add.commute)
  moreover have "map ?im [?s ..< ?s + Suc m] = w # map ?im [Suc ?s ..< Suc ?s + m]"
    by (simp add: w_def upt_conv_Cons del: upt_Suc)
  ultimately show ?case
    using r Suc.prems(3) put16_in [of j b w] by (simp add: in16_def Let_def w)
qed auto

text \<open>\<open>ata_wait_for_bsy\<close> and \<open>ata_wait_for_drq\<close> of a ready drive succeed and leave it as it is.\<close>

lemma waits_attached:
  assumes "disk_attached img dev st"
  obtains io1 where "ata_wait_for_bsy dev (base_io_port (current_disk st)) io = (True, io1)" "disk_drive img st io1 = disk_drive img st io"
    and "\<And>io. \<exists>io2. ata_wait_for_drq dev (base_io_port (current_disk st)) io = (True, io2) \<and> disk_drive img st io2 = disk_drive img st io"
proof -
  have r: "ready dev (base_io_port (current_disk st))" using assms by (simp add: disk_attached_def disk_ready_def)
  have "\<exists>io2. ata_wait_for_drq dev (base_io_port (current_disk st)) io = (True, io2) \<and> disk_drive img st io2 = disk_drive img st io" for io
    using wait_drq_ready [OF r, of io] by auto
  then show thesis using wait_bsy_ready [OF r, of io] that by fastforce
qed

lemma read_sectors_image:
  assumes "disk_attached img dev st" and "in_transfer img st ATA_CMD_READ lba n pos io" and "half = half_words st"
    and "pos + half * m \<le> half * (if n = 0 then 256 else unat n)" and "2 * (j + half * m) \<le> length b"
  shows "\<exists>io'. read_sector_loop dev (base_io_port (current_disk st)) half j m b io =
       Inr (True, take (2 * j) b @ concat (map half_bytes (map (d_image (disk_drive img st io)) [unat lba * half + pos ..< unat lba * half + pos + half * m]))
              @ drop (2 * (j + half * m)) b, io')
     \<and> d_image (disk_drive img st io') = d_image (disk_drive img st io)"
  using assms(2,4,5)
proof (induction m arbitrary: j b io pos)
  case (Suc m)
  let ?base = "base_io_port (current_disk st)" and ?im = "d_image (disk_drive img st io)" and ?s = "unat lba * half + pos"
  obtain io1 where io1: "ata_wait_for_bsy dev ?base io = (True, io1)" "disk_drive img st io1 = disk_drive img st io"
    using waits_attached [OF assms(1), of io] by blast
  obtain io2 where io2: "ata_wait_for_drq dev ?base io1 = (True, io2)" "disk_drive img st io2 = disk_drive img st io"
    using waits_attached [OF assms(1), of io] io1(2) by metis
  have t2: "in_transfer img st ATA_CMD_READ lba n pos io2" using Suc.prems(1) io2(2) by (simp add: in_transfer_def)
  obtain io3 where r: "read_words dev ?base j half b io2 =
       Inr (take (2 * j) b @ concat (map half_bytes (map ?im [?s ..< ?s + half])) @ drop (2 * (j + half)) b, io3)"
      "in_transfer img st ATA_CMD_READ lba n (pos + half) io3" "d_image (disk_drive img st io3) = ?im"
    using read_words_image [OF assms(1) t2, of half j b] Suc.prems(2,3) assms(3) io2(2) by auto
  let ?b = "take (2 * j) b @ concat (map half_bytes (map ?im [?s ..< ?s + half])) @ drop (2 * (j + half)) b"
  have len: "length ?b = length b" using Suc.prems(3) by (simp add: length_half_bytes del: map_map)
  have t3: "in_transfer img st ATA_CMD_READ lba n (pos + half) (delay400ns dev ?base io3)" using r(2) by (simp add: in_transfer_def)
  obtain io' where r': "read_sector_loop dev ?base half (j + half) m ?b (delay400ns dev ?base io3) = Inr (True,
       take (2 * (j + half)) ?b @ concat (map half_bytes (map ?im [?s + half ..< ?s + half + half * m])) @ drop (2 * (j + half + half * m)) ?b, io')"
      "d_image (disk_drive img st io') = ?im"
    using Suc.IH [OF t3, of "j + half" ?b] Suc.prems(2,3) len r(3) by (auto simp: add.assoc)
  have "take (2 * (j + half)) ?b = take (2 * j) b @ concat (map half_bytes (map ?im [?s ..< ?s + half]))"
    "drop (2 * (j + half + half * m)) ?b = drop (2 * (j + half * Suc m)) b"
    using Suc.prems(3) by (simp_all add: length_half_bytes algebra_simps del: map_map)
  moreover have "[?s ..< ?s + half * Suc m] = [?s ..< ?s + half] @ [?s + half ..< ?s + half + half * m]"
    by (simp add: upt_add_eq_append [symmetric] add.assoc [symmetric])
  ultimately show ?case using io1 io2 r r' by (simp add: ata_consts)
qed auto

text \<open>Reading \<open>k\<close> sectors gives the bytes of the medium and leaves it alone.\<close>

lemma attached_allowed:
  assumes "disk_attached img dev st" and "k = (if n = 0 then 256 else unat n)"
    and "unat lba + k \<le> unat (total_sectors (current_disk st))"
  shows "transfer_allowed st (curr_disk st) lba n" "unat lba < 2 ^ 28" "2 * half_words st = unat (logical_sector_size (current_disk st))"
proof -
  have d: "disk_ready dev st" "unat (total_sectors (current_disk st)) \<le> 2 ^ 28" using assms(1) by (simp_all add: disk_attached_def)
  then show "transfer_allowed st (curr_disk st) lba n"
    using assms(2,3) by (auto simp: transfer_allowed_iff disk_ready_def current_disk_def)
  have "0 < k" using assms(2) by (simp add: unat_gt_0)
  with assms(3) d(2) show "unat lba < 2 ^ 28" by linarith
  show "2 * half_words st = unat (logical_sector_size (current_disk st))"
    using d(1) by (simp add: disk_ready_def half_words_def unat_div)
qed

lemma ata_read_image:
  assumes "disk_attached img dev st" and "k = (if n = 0 then 256 else unat n)" and "ss = unat (logical_sector_size (current_disk st))"
    and "unat lba + k \<le> unat (total_sectors (current_disk st))" and "k * ss \<le> length buf"
  shows "\<exists>io'. ata_read_sectors dev st (curr_disk st) lba n buf scr io =
       Inr (True, map (disk_bytes img st io) [unat lba * ss ..< unat lba * ss + k * ss] @ drop (k * ss) buf, scr, io')
     \<and> disk_bytes img st io' = disk_bytes img st io"
proof -
  note al = attached_allowed [OF assms(1,2,4)]
  let ?base = "base_io_port (current_disk st)" and ?half = "half_words st"
  obtain io1 where io1: "ata_wait_for_bsy dev ?base io = (True, io1)" "disk_drive img st io1 = disk_drive img st io"
    using waits_attached [OF assms(1), of io] by blast
  let ?io = "send_command dev (current_disk st) lba n ATA_CMD_READ io1"
  have t: "in_transfer img st ATA_CMD_READ lba n 0 ?io" "d_image (disk_drive img st ?io) = d_image (disk_drive img st io)"
    using drive_send_command [of ATA_CMD_READ lba] al(2) io1(2) by simp_all
  have e: "2 * (?half * k) = k * ss" using al(3) assms(3) by (metis mult.assoc mult.commute)
  have b: "2 * (0 + ?half * k) \<le> length buf" "2 * (?half * k) = k * ss" unfolding add_0 e using assms(5) by simp_all
  obtain io' where r: "read_sector_loop dev ?base ?half 0 k buf ?io =
       Inr (True, concat (map half_bytes (map (d_image (disk_drive img st io)) [unat lba * ?half ..< unat lba * ?half + ?half * k]))
         @ drop (2 * (?half * k)) buf, io')" "d_image (disk_drive img st io') = d_image (disk_drive img st io)"
    using read_sectors_image [OF assms(1) t(1) refl _ b(1)] assms(2) t(2) by (auto simp del: map_map)
  have s: "2 * (unat lba * ?half) = unat lba * ss" using al(3) assms(3) by (metis mult.left_commute)
  then have "2 * (unat lba * ?half + ?half * k) = unat lba * ss + k * ss" by (simp only: distrib_left b(2))
  with s have "concat (map half_bytes (map (d_image (disk_drive img st io)) [unat lba * ?half ..< unat lba * ?half + ?half * k]))
      = map (disk_bytes img st io) [unat lba * ss ..< unat lba * ss + k * ss]"
    by (simp only: concat_half_bytes disk_bytes_def)
  then have "read_sector_loop dev ?base ?half 0 k buf ?io =
      Inr (True, map (disk_bytes img st io) [unat lba * ss ..< unat lba * ss + k * ss] @ drop (k * ss) buf, io')"
    using r(1) by (simp only: b(2))
  with r(2) io1(1) al(1) show ?thesis
    by (simp add: ata_read_sectors_def sector_total_unat Let_def current_disk_def [symmetric] half_words_def [symmetric] disk_bytes_def assms(2) [symmetric])
qed

section \<open>Writing\<close>

text \<open>The half-word that starts at byte \<open>2 * j\<close> of a buffer.\<close>

definition half_at :: "buffer \<Rightarrow> nat \<Rightarrow> u16" where
  "half_at b j = ucast (b ! (2 * j)) OR push_bit 8 (ucast (b ! (2 * j + 1)))"

lemma get16_in: "2 * j + 1 < length b \<Longrightarrow> get16 j b = Inr (half_at b j)"
  by (simp add: get16_def half_at_def)

lemma half_at_bytes: "ucast (half_at b j) = b ! (2 * j)" "ucast (drop_bit 8 (half_at b j)) = b ! (2 * j + 1)"
proof -
  have z: "n < 8" if "bit (x :: u8) n" for x n using bit_imp_le_length [OF that] by simp
  show "ucast (half_at b j) = b ! (2 * j)" by (rule bit_word_eqI) (auto simp: half_at_def bit_simps)
  show "ucast (drop_bit 8 (half_at b j)) = b ! (2 * j + 1)" by (rule bit_word_eqI) (auto simp: half_at_def bit_simps dest: z)
qed

text \<open>A medium with \<open>n\<close> half-words of a buffer, from half-word \<open>j\<close>, written at \<open>a\<close>.\<close>

definition put_halves :: "nat \<Rightarrow> nat \<Rightarrow> nat \<Rightarrow> buffer \<Rightarrow> (nat \<Rightarrow> u16) \<Rightarrow> nat \<Rightarrow> u16" where
  "put_halves a j n b im i = (if a \<le> i \<and> i < a + n then half_at b (j + (i - a)) else im i)"

lemma put_halves_0 [simp]: "put_halves a j 0 b im = im"
  by (auto simp: put_halves_def fun_eq_iff)

lemma write_words_image:
  assumes "in_transfer img st ATA_CMD_WRITE lba n pos io" and "half = half_words st"
    and "pos + m \<le> half * (if n = 0 then 256 else unat n)" and "2 * (j + m) \<le> length b"
  shows "\<exists>io'. write_words (base_io_port (current_disk st)) j m b io = Inr io'
     \<and> in_transfer img st ATA_CMD_WRITE lba n (pos + m) io'
     \<and> d_image (disk_drive img st io') = put_halves (unat lba * half + pos) j m b (d_image (disk_drive img st io))"
  using assms(1,3,4)
proof (induction m arbitrary: j io pos)
  case 0
  then show ?case by auto
next
  case (Suc m)
  let ?io = "Out16 (base_io_port (current_disk st)) (half_at b j) # io"
  have st: "in_transfer img st ATA_CMD_WRITE lba n (Suc pos) ?io"
    "d_image (disk_drive img st ?io) = (d_image (disk_drive img st io))(unat lba * half + pos := half_at b j)"
    using Suc.prems(1,2) assms(2) by (auto simp: in_transfer_def Let_def d_selected_def d_start_def d_total_def)
  obtain io' where r: "write_words (base_io_port (current_disk st)) (Suc j) m b ?io = Inr io'"
      "in_transfer img st ATA_CMD_WRITE lba n (Suc pos + m) io'"
      "d_image (disk_drive img st io') = put_halves (unat lba * half + Suc pos) (Suc j) m b (d_image (disk_drive img st ?io))"
    using Suc.IH [OF st(1), of "Suc j"] Suc.prems(2,3) by auto
  have "put_halves (unat lba * half + Suc pos) (Suc j) m b ((d_image (disk_drive img st io))(unat lba * half + pos := half_at b j))
      = put_halves (unat lba * half + pos) j (Suc m) b (d_image (disk_drive img st io))"
    by (auto simp: put_halves_def fun_eq_iff Suc_diff_Suc)
  with r st(2) Suc.prems(3) get16_in [of j b] show ?case by (simp add: out16_def)
qed

lemma put_halves_append:
  "put_halves (a + n) (j + n) m b (put_halves a j n b im) = put_halves a j (n + m) b im"
  by (auto simp: put_halves_def fun_eq_iff)

lemma write_sectors_image:
  assumes "disk_attached img dev st" and "in_transfer img st ATA_CMD_WRITE lba n pos io" and "half = half_words st"
    and "pos + half * m \<le> half * (if n = 0 then 256 else unat n)" and "2 * (j + half * m) \<le> length b"
  shows "\<exists>io'. write_sector_loop dev st (curr_disk st) (base_io_port (current_disk st)) half j m b io = Inr (True, io')
     \<and> d_image (disk_drive img st io') = put_halves (unat lba * half + pos) j (half * m) b (d_image (disk_drive img st io))"
  using assms(2,4,5)
proof (induction m arbitrary: j io pos)
  case 0
  then show ?case by auto
next
  case (Suc m)
  let ?base = "base_io_port (current_disk st)" and ?im = "d_image (disk_drive img st io)" and ?s = "unat lba * half + pos"
  obtain io1 where io1: "ata_wait_for_bsy dev ?base io = (True, io1)" "disk_drive img st io1 = disk_drive img st io"
    using waits_attached [OF assms(1), of io] by blast
  obtain io2 where io2: "ata_wait_for_drq dev ?base io1 = (True, io2)" "disk_drive img st io2 = disk_drive img st io"
    using waits_attached [OF assms(1), of io] io1(2) by metis
  have t2: "in_transfer img st ATA_CMD_WRITE lba n pos io2" using Suc.prems(1) io2(2) by (simp add: in_transfer_def)
  obtain io3 where r: "write_words ?base j half b io2 = Inr io3"
      "in_transfer img st ATA_CMD_WRITE lba n (pos + half) io3" "d_image (disk_drive img st io3) = put_halves ?s j half b ?im"
    using write_words_image [OF t2 assms(3), of half j b] Suc.prems(2,3) io2(2) by auto
  have t3: "in_transfer img st ATA_CMD_WRITE lba n (pos + half) (flush_cache dev st (curr_disk st) io3)" using r(2) by (simp add: in_transfer_def)
  obtain io' where r': "write_sector_loop dev st (curr_disk st) ?base half (j + half) m b (flush_cache dev st (curr_disk st) io3) = Inr (True, io')"
      "d_image (disk_drive img st io') = put_halves (?s + half) (j + half) (half * m) b (put_halves ?s j half b ?im)"
    using Suc.IH [OF t3, of "j + half"] Suc.prems(2,3) r(3) by (auto simp: add.assoc)
  then show ?case using io1 io2 r by (simp add: put_halves_append) (simp add: ata_consts)
qed

text \<open>An array of bytes with a buffer written at \<open>a\<close>.\<close>

definition put_bytes :: "nat \<Rightarrow> buffer \<Rightarrow> (nat \<Rightarrow> u8) \<Rightarrow> nat \<Rightarrow> u8" where
  "put_bytes a b m i = (if a \<le> i \<and> i < a + length b then b ! (i - a) else m i)"

lemma put_bytes_Nil [simp]: "put_bytes a [] m = m"
  by (auto simp: put_bytes_def fun_eq_iff)

lemma put_bytes_append: "put_bytes (a + length b) c (put_bytes a b m) = put_bytes a (b @ c) m"
  by (auto simp: put_bytes_def fun_eq_iff nth_append)

lemma image_put_halves:
  assumes "2 * n \<le> length b"
  shows "image_bytes (put_halves a 0 n b im) = put_bytes (2 * a) (take (2 * n) b) (image_bytes im)"
proof
  fix i
  show "image_bytes (put_halves a 0 n b im) i = put_bytes (2 * a) (take (2 * n) b) (image_bytes im) i"
  proof (cases "a \<le> i div 2 \<and> i div 2 < a + n")
    case True
    then have i: "2 * a \<le> i" "i < 2 * a + 2 * n" "i - 2 * a < 2 * n" by auto
    have "i - 2 * a = (if even i then 2 * (i div 2 - a) else 2 * (i div 2 - a) + 1)"
      using True by (auto elim!: evenE oddE)
    with True i assms show ?thesis
      using half_at_bytes [of b "i div 2 - a"]
      by (simp add: image_bytes_def put_halves_def put_bytes_def split: if_splits)
  next
    case False
    then have "put_halves a 0 n b im (i div 2) = im (i div 2)" by (auto simp: put_halves_def)
    moreover have "\<not> (2 * a \<le> i \<and> i < 2 * a + 2 * n)" using False by auto
    then have "put_bytes (2 * a) (take (2 * n) b) (image_bytes im) i = image_bytes im i"
      using assms by (auto simp: put_bytes_def)
    ultimately show ?thesis by (simp add: image_bytes_def)
  qed
qed

lemma wait_until_free_attached:
  assumes "disk_attached img dev st"
  obtains io1 where "wait_until_free dev (base_io_port (current_disk st)) io = Some io1" "disk_drive img st io1 = disk_drive img st io"
proof -
  obtain io1 where "ata_wait_for_bsy dev (base_io_port (current_disk st)) io = (True, io1)" "disk_drive img st io1 = disk_drive img st io"
    using waits_attached [OF assms, of io] by blast
  then show thesis using that by (subst (asm) wait_until_free.simps) simp
qed

lemma ata_write_image:
  assumes "disk_attached img dev st" and "k = (if n = 0 then 256 else unat n)" and "ss = unat (logical_sector_size (current_disk st))"
    and "unat lba + k \<le> unat (total_sectors (current_disk st))" and "k * ss \<le> length buf"
  shows "\<exists>io'. ata_write_sectors dev st (curr_disk st) lba n buf io = Inr (True, io')
     \<and> disk_bytes img st io' = put_bytes (unat lba * ss) (take (k * ss) buf) (disk_bytes img st io)"
proof -
  note al = attached_allowed [OF assms(1,2,4)]
  let ?base = "base_io_port (current_disk st)" and ?half = "half_words st"
  obtain io1 where io1: "wait_until_free dev ?base io = Some io1" "disk_drive img st io1 = disk_drive img st io"
    by (rule wait_until_free_attached [OF assms(1)])
  let ?io = "send_command dev (current_disk st) lba n ATA_CMD_WRITE io1"
  have t: "in_transfer img st ATA_CMD_WRITE lba n 0 ?io" "d_image (disk_drive img st ?io) = d_image (disk_drive img st io)"
    using drive_send_command [of ATA_CMD_WRITE lba] al(2) io1(2) by simp_all
  have e: "2 * (?half * k) = k * ss" using al(3) assms(3) by (metis mult.assoc mult.commute)
  have b: "2 * (0 + ?half * k) \<le> length buf" "2 * (?half * k) = k * ss" unfolding add_0 e using assms(5) by simp_all
  obtain io' where r: "write_sector_loop dev st (curr_disk st) ?base ?half 0 k buf ?io = Inr (True, io')"
      "d_image (disk_drive img st io') = put_halves (unat lba * ?half) 0 (?half * k) buf (d_image (disk_drive img st io))"
    using write_sectors_image [OF assms(1) t(1) refl _ b(1)] assms(2) t(2) by auto
  have s: "2 * (unat lba * ?half) = unat lba * ss" using al(3) assms(3) by (metis mult.left_commute)
  have "disk_bytes img st io' = put_bytes (unat lba * ss) (take (k * ss) buf) (disk_bytes img st io)"
    using image_put_halves [OF b(1) [unfolded add_0], of "unat lba * ?half"] by (simp only: disk_bytes_def r(2) b(2) s)
  with r io1(1) al(1) show ?thesis
    by (simp add: ata_write_sectors_def sector_total_unat Let_def current_disk_def [symmetric] half_words_def [symmetric] assms(2) [symmetric])
qed

section \<open>Bytes of any length\<close>

text \<open>With the drive's behaviour known, the bytes a read delivers are those of the medium.\<close>

interpretation stored: sector_reads disk_attached
  "\<lambda>img dev st a io T io'. T = map (disk_bytes img st io)
       [a * unat (logical_sector_size (current_disk st)) ..< a * unat (logical_sector_size (current_disk st)) + length T]
     \<and> disk_bytes img st io' = disk_bytes img st io"
proof (unfold_locales, goal_cases)
  case (2 img dev st sectors k addr size_n scr io)
  note c = call_unat(2) [OF 2(2)]
  have "\<exists>io'. ata_read_sectors dev st (curr_disk st) addr (call_count sectors) (replicate size_n 0) scr io =
       Inr (True, map (disk_bytes img st io) [unat addr * unat (logical_sector_size (current_disk st)) ..<
           unat addr * unat (logical_sector_size (current_disk st)) + size_n] @ drop size_n (replicate size_n 0), scr, io')
     \<and> disk_bytes img st io' = disk_bytes img st io"
    using ata_read_image [OF 2(1) _ refl, of k "call_count sectors" addr "replicate size_n 0" scr io] 2 c by auto
  then show ?case by auto
next
  case (4 img dev st a io T io1 k W io2)
  let ?p = "a * unat (logical_sector_size (current_disk st))"
  have "(a + k) * unat (logical_sector_size (current_disk st)) = ?p + length T" using 4(2) by (simp add: distrib_right)
  moreover have "[?p ..< ?p + length (T @ W)] = [?p ..< ?p + length T] @ [?p + length T ..< ?p + length T + length W]"
    unfolding length_append add.assoc [symmetric] by (rule upt_add_eq_append) simp
  ultimately have "map (disk_bytes img st io) [?p ..< ?p + length (T @ W)] = T @ W"
    using conjunct1 [OF 4(1), symmetric] conjunct1 [OF 4(3), symmetric] by (simp only: conjunct2 [OF 4(1)] map_append)
  then show ?case using conjunct2 [OF 4(1)] conjunct2 [OF 4(3)] by simp
qed (auto simp: disk_attached_def)

lemma write_chunks_image:
  assumes "disk_attached img dev st" and "heap_never_fails hp" and "ss = unat (logical_sector_size (current_disk st))"
    and "unat lba + unat sectors \<le> unat (total_sectors (current_disk st))"
    and "unat tw + unat sectors * ss \<le> length buf" and "unat tw + unat sectors * ss < 2 ^ 32"
  shows "\<exists>io' h'. write_chunks dev hp st lba tw sectors buf io h
        = Inr (True, lba + sectors, tw + sectors * logical_sector_size (current_disk st), io', h')
     \<and> disk_bytes img st io' = put_bytes (unat lba * ss) (take (unat sectors * ss) (drop (unat tw) buf)) (disk_bytes img st io)"
  using assms(4-)
proof (induction "unat sectors" arbitrary: lba tw sectors io h rule: less_induct)
  case less
  let ?ss = "logical_sector_size (current_disk st)"
  show ?case
  proof (cases "sectors = 0")
    case True
    then show ?thesis by (simp add: write_chunks.simps)
  next
    case False
    define k where "k = min 256 (unat sectors)"
    define c where "c = call_sectors sectors"
    note cu = call_unat [OF False, folded k_def c_def]
    have pos: "k \<le> unat sectors" by (simp add: k_def)
    have split: "k * ss + (unat sectors - k) * ss = unat sectors * ss" using pos by (simp add: distrib_right [symmetric])
    then have le: "unat tw + k * ss \<le> length buf" "unat tw + k * ss < 2 ^ 32" using less.prems(2,3) by linarith+
    note cw = chunk_words [OF False k_def less.prems(3) [unfolded assms(3)] less.prems(1), folded assms(3), folded c_def]
    note bytes = cw(1) and sec' = cw(2) and lba' = cw(3) and tw' = cw(4)
    obtain temp h1 where h1: "hp_kmalloc hp (c * ?ss) h = Inr (temp, h1)" "temp \<noteq> 0"
      using assms(2) unfolding heap_never_fails_def by blast
    obtain h2 where h2: "hp_kfree hp temp h1 = Inr h2" using assms(2) unfolding heap_never_fails_def by blast
    have cp: "memcpy (replicate (k * ss) 0) 0 (drop (unat tw) buf) (c * ?ss) = Inr (take (k * ss) (drop (unat tw) buf))"
      using memcpy_spec [of "c * ?ss" "drop (unat tw) buf" 0 "replicate (k * ss) 0"] bytes le(1) by simp
    obtain io1 where w: "ata_write_sectors dev st (curr_disk st) lba (call_count sectors) (take (k * ss) (drop (unat tw) buf)) io = Inr (True, io1)"
        "disk_bytes img st io1 = put_bytes (unat lba * ss) (take (k * ss) (drop (unat tw) buf)) (disk_bytes img st io)"
      using ata_write_image [OF assms(1) cu(2) [symmetric] assms(3), of lba "take (k * ss) (drop (unat tw) buf)" io] less.prems(1) pos le(1)
      by auto
    obtain io' h' where r: "write_chunks dev hp st (lba + c) (tw + c * ?ss) (sectors - c) buf io1 h2
          = Inr (True, lba + sectors, tw + sectors * ?ss, io', h')"
        "disk_bytes img st io' = put_bytes (unat (lba + c) * ss) (take (unat (sectors - c) * ss) (drop (unat (tw + c * ?ss)) buf)) (disk_bytes img st io1)"
      using less.hyps [of "sectors - c" "lba + c" "tw + c * ?ss" io1 h2] call_sectors_less [OF False, folded c_def]
        less.prems sec' lba' tw' pos split by (auto simp: algebra_simps)
    have step: "write_chunks dev hp st lba tw sectors buf io h = write_chunks dev hp st (lba + c) (tw + c * ?ss) (sectors - c) buf io1 h2"
      using False h1 h2 cp w(1) by (subst write_chunks.simps) (simp add: Let_def c_def [symmetric] bytes)
    let ?b = "drop (unat tw) buf"
    have len: "unat lba * ss + length (take (k * ss) ?b) = unat (lba + c) * ss" using le(1) lba' by (simp add: distrib_right)
    have "take (unat sectors * ss) ?b = take (k * ss) ?b @ take (unat (sectors - c) * ss) (drop (unat (tw + c * ?ss)) buf)"
      by (simp only: split [symmetric] take_add drop_drop sec' tw' add.commute)
    then have "disk_bytes img st io' = put_bytes (unat lba * ss) (take (unat sectors * ss) ?b) (disk_bytes img st io)"
      using put_bytes_append [of "unat lba * ss" "take (k * ss) ?b"] r(2) w(2) unfolding len by simp
    with r(1) show ?thesis unfolding step by blast
  qed
qed

lemma put_bytes_rest: "put_bytes a (b @ map m [a + length b ..< a + n]) m = put_bytes a b m"
  by (auto simp: put_bytes_def fun_eq_iff nth_append)

text \<open>The last sector is read, patched and written back: its other bytes stay.\<close>

lemma write_tail_image:
  assumes "disk_attached img dev st" and "heap_never_fails hp" and "ss = unat (logical_sector_size (current_disk st))"
    and "r = unat len mod ss" and "r \<noteq> 0 \<longrightarrow> unat lba < unat (total_sectors (current_disk st))" and "unat tw + r \<le> length buf"
  shows "\<exists>io' h'. write_tail dev hp st lba tw len buf scr io h = Inr (len, scr, io', h')
     \<and> disk_bytes img st io' = put_bytes (unat lba * ss) (take r (drop (unat tw) buf)) (disk_bytes img st io)"
proof (cases "r = 0")
  case True
  then show ?thesis using assms(3,4) by (simp add: write_tail_def word_unat_eq_iff unat_mod)
next
  case False
  let ?ss = "logical_sector_size (current_disk st)" and ?m = "disk_bytes img st io"
  have ss: "0 < ss" using assms(1,3) by (simp add: disk_attached_def disk_ready_def unat_gt_0)
  then have r: "unat (len mod ?ss) = r" "len mod ?ss \<noteq> 0" "r < ss" using assms(3,4) False by (auto simp: unat_mod word_unat_eq_iff)
  have on: "unat lba + 1 \<le> unat (total_sectors (current_disk st))" using assms(5) False by simp
  obtain temp h1 where h1: "hp_kmalloc hp ?ss h = Inr (temp, h1)" "temp \<noteq> 0"
    using assms(2) unfolding heap_never_fails_def by blast
  obtain h2 where h2: "hp_kfree hp temp h1 = Inr h2" using assms(2) unfolding heap_never_fails_def by blast
  let ?T = "map ?m [unat lba * ss ..< unat lba * ss + ss]"
  obtain io1 where rd: "ata_read_sectors dev st (curr_disk st) lba 1 (replicate ss 0) scr io = Inr (True, ?T, scr, io1)"
      "disk_bytes img st io1 = ?m"
    using ata_read_image [OF assms(1) _ assms(3), of 1 1 lba "replicate ss 0" scr io] on by auto
  let ?P = "take r (drop (unat tw) buf) @ map ?m [unat lba * ss + r ..< unat lba * ss + ss]"
  have len: "length (take r (drop (unat tw) buf)) = r" using assms(6) by simp
  have "drop r ?T = map ?m [unat lba * ss + r ..< unat lba * ss + ss]" by (simp add: drop_map)
  then have cp: "memcpy ?T 0 (drop (unat tw) buf) (len mod ?ss) = Inr ?P"
    using memcpy_spec [of "len mod ?ss" "drop (unat tw) buf" 0 ?T] r assms(6) by simp
  have "length ?P = ss" using len r(3) by simp
  then obtain io2 where wr: "ata_write_sectors dev st (curr_disk st) lba 1 ?P io1 = Inr (True, io2)"
      "disk_bytes img st io2 = put_bytes (unat lba * ss) ?P ?m"
    using ata_write_image [OF assms(1) _ assms(3), of 1 1 lba ?P io1] on rd(2) min_absorb2 [OF less_imp_le, OF r(3)] by auto
  have "disk_bytes img st io2 = put_bytes (unat lba * ss) (take r (drop (unat tw) buf)) ?m"
    using put_bytes_rest [of "unat lba * ss" "take r (drop (unat tw) buf)" ?m ss] wr(2) unfolding len by simp
  moreover have "disk_bytes img st (flush_cache dev st (curr_disk st) io2) = disk_bytes img st io2" by (simp add: disk_bytes_def)
  moreover have "write_tail dev hp st lba tw len buf scr io h = Inr (len, scr, flush_cache dev st (curr_disk st) io2, h2)"
    using r(2) h1 h2 rd(1) cp wr(1) by (simp add: write_tail_def Let_def assms(3) [symmetric])
  ultimately show ?thesis by auto
qed

lemma round_up:
  fixes l s :: nat
  assumes "0 < s"
  shows "(l + s - 1) div s = l div s + (if l mod s = 0 then 0 else 1)"
proof -
  have "l + s - 1 = (s - 1 + l mod s) + s * (l div s)" using assms by simp
  then have "(l + s - 1) div s = l div s + (s - 1 + l mod s) div s" using assms by (metis add.commute div_mult_self2 less_not_refl)
  moreover have "(s - 1 + l mod s) div s = (if l mod s = 0 then 0 else 1)"
    using assms mod_less_divisor [OF assms, of l] by (auto simp: div_eq_dividend_iff intro!: div_nat_eqI)
  ultimately show ?thesis by simp
qed

lemma disk_write_image:
  assumes "disk_attached img dev st" and "heap_never_fails hp" and "unat len \<le> length buf"
    and "ss = unat (logical_sector_size (current_disk st))" and "n = (unat len + ss - 1) div ss"
    and "unat lba + n \<le> unat (total_sectors (current_disk st))"
  shows "\<exists>io' h'. disk_write dev hp st lba buf len scr io h = Inr (len, scr, io', h')
     \<and> disk_bytes img st io' = put_bytes (unat lba * ss) (take (unat len) buf) (disk_bytes img st io)"
proof -
  let ?ss = "logical_sector_size (current_disk st)"
  define q where "q = unat len div ss"
  have ss: "0 < ss" "?ss \<noteq> 0" "valid (current_disk st)" using assms(1,4) by (auto simp: disk_attached_def disk_ready_def unat_gt_0)
  have qr: "q * ss + unat len mod ss = unat len" by (simp add: q_def)
  have n: "n = q + (if unat len mod ss = 0 then 0 else 1)"
    unfolding assms(5) q_def using ss(1) by (rule round_up)
  have qu: "unat (len div ?ss) = q" by (simp add: unat_div q_def assms(4))
  have lt: "q * ss < 2 ^ 32" using qr unat_u32_less [of len] by simp
  obtain io1 h1 where w: "write_chunks dev hp st lba 0 (len div ?ss) buf io h
        = Inr (True, lba + len div ?ss, 0 + len div ?ss * ?ss, io1, h1)"
      "disk_bytes img st io1 = put_bytes (unat lba * ss) (take (q * ss) buf) (disk_bytes img st io)"
    using write_chunks_image [OF assms(1,2,4), of lba "len div ?ss" 0 buf io h] assms(3,6) n qr lt by (auto simp: qu)
  have tw: "unat (len div ?ss * ?ss) = q * ss" using lt by (subst unat_mult_exact) (simp_all add: qu flip: assms(4))
  have la: "unat (lba + len div ?ss) = unat lba + q"
    using assms(6) n unat_u32_less [of "total_sectors (current_disk st)"] by (subst unat_add_exact) (auto simp: qu)
  have on: "unat len mod ss \<noteq> 0 \<longrightarrow> unat (lba + len div ?ss) < unat (total_sectors (current_disk st))"
    using assms(6) n by (auto simp: la)
  obtain io' h' where t: "write_tail dev hp st (lba + len div ?ss) (len div ?ss * ?ss) len buf scr io1 h1 = Inr (len, scr, io', h')"
      "disk_bytes img st io' = put_bytes ((unat lba + q) * ss) (take (unat len mod ss) (drop (q * ss) buf)) (disk_bytes img st io1)"
    using write_tail_image [OF assms(1,2,4) refl on, of "len div ?ss * ?ss" buf scr io1 h1] assms(3) qr
    by (auto simp: la tw)
  have len: "(unat lba + q) * ss = unat lba * ss + length (take (q * ss) buf)" using assms(3) qr by (simp add: distrib_right)
  have "take (unat len) buf = take (q * ss) buf @ take (unat len mod ss) (drop (q * ss) buf)"
    by (metis qr take_add)
  then have "disk_bytes img st io' = put_bytes (unat lba * ss) (take (unat len) buf) (disk_bytes img st io)"
    by (simp only: t(2) w(2) len put_bytes_append)
  then show ?thesis using ss w(1) t(1) by (simp add: disk_write_def)
qed

lemma disk_read_image:
  assumes "disk_attached img dev st" and "heap_never_fails hp" and "unat len \<le> length buf"
    and "ss = unat (logical_sector_size (current_disk st))" and "n = (unat len + ss - 1) div ss"
    and "unat addr + n \<le> unat (total_sectors (current_disk st))" and "unat len + ss \<le> 2 ^ 32"
  shows "\<exists>io' h'. disk_read dev hp st addr buf len scr io h
        = Inr (len, map (disk_bytes img st io) [unat addr * ss ..< unat addr * ss + unat len] @ drop (unat len) buf, scr, io', h')
     \<and> disk_bytes img st io' = disk_bytes img st io"
proof -
  have ss: "0 < ss" using assms(1,4) by (auto simp: disk_attached_def disk_ready_def unat_gt_0)
  then have "unat len \<le> n * ss"
    using dividend_less_div_times [OF ss, of "unat len + ss - 1"] unfolding assms(5) by linarith
  moreover obtain T io' h' where r: "disk_read dev hp st addr buf len scr io h = Inr (len, take (unat len) T @ drop (unat len) buf, scr, io', h')"
      "length T = n * ss" "T = map (disk_bytes img st io) [unat addr * ss ..< unat addr * ss + length T]"
      "disk_bytes img st io' = disk_bytes img st io"
    using stored.disk_read_delivers [OF assms, of scr io h] by (auto simp: assms(4) [symmetric])
  ultimately have "take (unat len) T = map (disk_bytes img st io) [unat addr * ss ..< unat addr * ss + unat len]"
    by (metis add_le_cancel_left take_map take_upt)
  with r show ?thesis by auto
qed

lemma read_put_bytes: "map (put_bytes a b m) [a ..< a + length b] = b"
  by (auto intro!: nth_equalityI simp: put_bytes_def)

section \<open>A drive for the witnesses\<close>

text \<open>A drive that is always ready and serves the medium, zero at power-on, beside a serial port that is always ready.\<close>

definition image_drive :: device where
  "image_drive io port = (if port = 0x1F7 then 0x08 else if port = 0x3FD then 0x20
     else let d = drive_after 0x1F0 False 256 (\<lambda>_. 0) io in ucast (d_image d (d_start 256 d + d_pos d)))"

lemma image_drive_ready: "ready image_drive 0x1F0"
  by (simp add: ready_def image_drive_def ata_consts)

lemma image_drive_attaches:
  assumes "disk_ready image_drive st" and "base_io_port (current_disk st) = 0x1F0" and "\<not> slave (current_disk st)"
    and "half_words st = 256" and "unat (total_sectors (current_disk st)) \<le> 2 ^ 28"
  shows "disk_attached (\<lambda>_. 0) image_drive st"
proof -
  have "ucast (ucast w :: u32) = w" for w :: u16 by (simp add: ucast_down_ucast_id is_down)
  with assms show ?thesis by (simp add: disk_attached_def disk_drive_def image_drive_def Let_def)
qed

lemma image_drive_attached: "disk_attached (\<lambda>_. 0) image_drive one_disk"
proof (rule image_drive_attaches)
  show "disk_ready image_drive one_disk"
    using image_drive_ready
    by (simp add: disk_ready_def one_disk_def current_disk_def is_lba_supported_def one_shl_def)
qed (simp_all add: one_disk_def current_disk_def half_words_def disk_static_def)

section \<open>Properties\<close>



end
