(* ===== verification/Disk_Tests.thy ===== *)
theory Disk_Tests
  imports Kernel Ata_Drive
begin

text \<open>
  tests/disk_tests.c, the suite that the kernel built with RUN_TESTS runs in place of the shell: the serial
  console, the check macros and the nine tests of the disk driver and the slot allocator.
  A buffer is a list of bytes; a block from the heap starts as zeros here, and every byte of it is written
  before it is read. Using the block of a \<open>kmalloc\<close> that failed is an access outside any object.
\<close>

section \<open>The serial console\<close>

definition COM1 :: u16 where "COM1 = 0x3F8"

definition serial_init :: "io \<Rightarrow> io" where
  "serial_init io =
     (let io = outb (COM1 + 1) 0x00 io;
          io = outb (COM1 + 3) 0x80 io;
          io = outb (COM1 + 0) 0x03 io;
          io = outb (COM1 + 1) 0x00 io;
          io = outb (COM1 + 3) 0x03 io;
          io = outb (COM1 + 2) 0xC7 io
      in outb (COM1 + 4) 0x0B io)"

definition serial_tx_empty :: "device \<Rightarrow> io \<Rightarrow> bool \<times> io" where
  "serial_tx_empty dev io = (let (r, io) = inb dev (COM1 + 5) io in (r AND 0x20 \<noteq> 0, io))"

text \<open>\<open>while (!serial_tx_empty())\<close>\<close>

partial_function (option) tx_wait :: "device \<Rightarrow> io \<Rightarrow> io option" where
  "tx_wait dev io = (case serial_tx_empty dev io of (ok, io) \<Rightarrow> if ok then Some io else tx_wait dev io)"

definition serial_putc :: "device \<Rightarrow> u8 \<Rightarrow> io \<Rightarrow> io run" where
  "serial_putc dev c io = bind_run (returns (map_option Inr (tx_wait dev io))) (\<lambda>io. Inr (outb COM1 c io))"

fun serial_puts :: "device \<Rightarrow> buffer \<Rightarrow> io \<Rightarrow> io run" where
  "serial_puts dev [] io = Inl Out_of_bounds"
| "serial_puts dev (c # s) io =
     (if c = 0 then Inr io
      else
        bind_run (if c = 10 then serial_putc dev 13 io else Inr io) (\<lambda>io.
        bind_run (serial_putc dev c io) (serial_puts dev s)))"

text \<open>The write that makes QEMU exit; the loop after it never ends, so what is returned is the last history.\<close>

definition qemu_exit_code :: "u8 \<Rightarrow> io \<Rightarrow> io" where "qemu_exit_code code io = outb 0xF4 code io"
definition qemu_exit_pass :: "io \<Rightarrow> io" where "qemu_exit_pass io = qemu_exit_code 0x10 io"
definition qemu_exit_fail :: "io \<Rightarrow> io" where "qemu_exit_fail io = qemu_exit_code 0x11 io"

section \<open>The test framework\<close>

text \<open>The counters of the framework, and the state of the drivers it exercises.\<close>

record 'h bench =
  g_failures :: int
  g_tests_run :: int
  b_ata :: ata
  b_slots :: slot_state
  b_screen :: screen
  b_io :: io
  b_heap :: 'h

definition b_print :: "(screen \<Rightarrow> screen run) \<Rightarrow> 'h bench \<Rightarrow> 'h bench run" where
  "b_print f b = bind_run (f (b_screen b)) (\<lambda>s. Inr (b\<lparr>b_screen := s\<rparr>))"

definition b_serial :: "device \<Rightarrow> buffer \<Rightarrow> 'h bench \<Rightarrow> 'h bench run" where
  "b_serial dev s b = bind_run (serial_puts dev s (b_io b)) (\<lambda>io. Inr (b\<lparr>b_io := io\<rparr>))"

text \<open>A line on the screen and on the serial console.\<close>

definition put_line :: "device \<Rightarrow> string \<Rightarrow> string \<Rightarrow> 'h bench \<Rightarrow> 'h bench run" where
  "put_line dev tag msg b =
     bind_run (b_print (printf (\<lambda>_. ascii msg) (chars tag @ chars ''%s'' @ [10, 0]) (word_bytes 0)) b) (\<lambda>b.
     bind_run (b_serial dev (ascii tag) b) (\<lambda>b.
     bind_run (b_serial dev (ascii msg) b) (\<lambda>b.
     b_serial dev [10, 0] b)))"

definition RUN :: "device \<Rightarrow> string \<Rightarrow> ('h bench \<Rightarrow> 'h bench run) \<Rightarrow> 'h bench \<Rightarrow> 'h bench run" where
  "RUN dev tn testfn b = bind_run (put_line dev ''[ RUN ] '' tn b) (\<lambda>b. testfn (b\<lparr>g_tests_run := g_tests_run b + 1\<rparr>))"

definition CHECK :: "device \<Rightarrow> bool \<Rightarrow> string \<Rightarrow> 'h bench \<Rightarrow> 'h bench run" where
  "CHECK dev cond msg b =
     (if \<not> cond then bind_run (put_line dev ''[FAIL] '' msg b) (\<lambda>b. Inr (b\<lparr>g_failures := g_failures b + 1\<rparr>))
      else put_line dev ''[PASS] '' msg b)"

definition CHECK_EQ :: "device \<Rightarrow> u32 \<Rightarrow> u32 \<Rightarrow> string \<Rightarrow> 'h bench \<Rightarrow> 'h bench run" where
  "CHECK_EQ dev x y msg b = CHECK dev (x = y) msg b"

definition CHECK_NE :: "device \<Rightarrow> u32 \<Rightarrow> u32 \<Rightarrow> string \<Rightarrow> 'h bench \<Rightarrow> 'h bench run" where
  "CHECK_NE dev x y msg b = CHECK dev (x \<noteq> y) msg b"

definition CHECK_MEMEQ :: "device \<Rightarrow> buffer \<Rightarrow> buffer \<Rightarrow> u32 \<Rightarrow> string \<Rightarrow> 'h bench \<Rightarrow> 'h bench run" where
  "CHECK_MEMEQ dev x y n msg b = bind_run (memcmp x y n) (\<lambda>d. CHECK dev (\<not> d \<noteq> 0) msg b)"

text \<open>The pseudo-random bytes the tests write.\<close>

fun pattern_loop :: "nat \<Rightarrow> nat \<Rightarrow> u32 \<Rightarrow> buffer \<Rightarrow> buffer run" where
  "pattern_loop i 0 x buf = Inr buf"
| "pattern_loop i (Suc n) x buf =
     (let x = x * 1664525 + 1013904223 in
      bind_run (wr i (ucast (drop_bit 24 x)) buf) (pattern_loop (Suc i) n x))"

definition fill_pattern :: "buffer \<Rightarrow> u32 \<Rightarrow> u32 \<Rightarrow> buffer run" where
  "fill_pattern buf n seed = pattern_loop 0 (unat n) seed buf"

definition LBA_BASE :: u32 where "LBA_BASE = 4096"

text \<open>The calls of the drivers and of the heap, on the state of the suite.\<close>

definition b_kmalloc :: "'h heap_ops \<Rightarrow> u32 \<Rightarrow> 'h bench \<Rightarrow> (u32 \<times> buffer \<times> 'h bench) run" where
  "b_kmalloc hp n b =
     bind_run (hp_kmalloc hp n (b_heap b)) (\<lambda>(p, h).
       if p = 0 then Inl Out_of_bounds else Inr (p, replicate (unat n) 0, b\<lparr>b_heap := h\<rparr>))"

definition b_kfree :: "'h heap_ops \<Rightarrow> u32 \<Rightarrow> 'h bench \<Rightarrow> 'h bench run" where
  "b_kfree hp p b = bind_run (hp_kfree hp p (b_heap b)) (\<lambda>h. Inr (b\<lparr>b_heap := h\<rparr>))"

definition b_ata_write :: "device \<Rightarrow> u32 \<Rightarrow> u8 \<Rightarrow> buffer \<Rightarrow> 'h bench \<Rightarrow> (bool \<times> 'h bench) run" where
  "b_ata_write dev lba cnt buf b =
     bind_run (ata_write_sectors dev (b_ata b) 0 lba cnt buf (b_io b)) (\<lambda>(ok, io). Inr (ok, b\<lparr>b_io := io\<rparr>))"

definition b_ata_read :: "device \<Rightarrow> u32 \<Rightarrow> u8 \<Rightarrow> buffer \<Rightarrow> 'h bench \<Rightarrow> (bool \<times> buffer \<times> 'h bench) run" where
  "b_ata_read dev lba cnt buf b =
     bind_run (ata_read_sectors dev (b_ata b) 0 lba cnt buf (b_screen b) (b_io b)) (\<lambda>(ok, buf, scr, io).
     Inr (ok, buf, b\<lparr>b_screen := scr, b_io := io\<rparr>))"

definition b_disk_write :: "device \<Rightarrow> 'h heap_ops \<Rightarrow> u32 \<Rightarrow> buffer \<Rightarrow> u32 \<Rightarrow> 'h bench \<Rightarrow> (u32 \<times> 'h bench) run" where
  "b_disk_write dev hp lba buf len b =
     bind_run (disk_write dev hp (b_ata b) lba buf len (b_screen b) (b_io b) (b_heap b)) (\<lambda>(k, scr, io, h).
     Inr (k, b\<lparr>b_screen := scr, b_io := io, b_heap := h\<rparr>))"

definition b_disk_read :: "device \<Rightarrow> 'h heap_ops \<Rightarrow> u32 \<Rightarrow> buffer \<Rightarrow> u32 \<Rightarrow> 'h bench \<Rightarrow> (u32 \<times> buffer \<times> 'h bench) run" where
  "b_disk_read dev hp addr buf len b =
     bind_run (disk_read dev hp (b_ata b) addr buf len (b_screen b) (b_io b) (b_heap b)) (\<lambda>(k, buf, scr, io, h).
     Inr (k, buf, b\<lparr>b_screen := scr, b_io := io, b_heap := h\<rparr>))"

definition b_sector_size :: "'h bench \<Rightarrow> u32" where
  "b_sector_size b = disk_get_current_disk_logical_sector_size (b_ata b)"

definition b_switch_disk :: "u8 \<Rightarrow> 'h bench \<Rightarrow> 'h bench" where
  "b_switch_disk disk_num b = b\<lparr>b_ata := switch_disk disk_num (b_ata b)\<rparr>"

section \<open>The tests\<close>

definition test_disk_basic_info :: "device \<Rightarrow> 'h bench \<Rightarrow> 'h bench run" where
  "test_disk_basic_info dev b =
     (let b = b_switch_disk 0 b; sec = b_sector_size b in
      CHECK dev (sec = 512 \<or> sec = 4096) ''logical sector size is 512 or 4096'' b)"

text \<open>One round of the loop of \<open>test_ata_read_write_small_counts\<close>.\<close>

definition small_round :: "device \<Rightarrow> 'h heap_ops \<Rightarrow> u32 \<Rightarrow> u32 \<times> u32 \<times> u16 \<Rightarrow> 'h bench \<Rightarrow> 'h bench run" where
  "small_round dev hp sec = (\<lambda>(i, lba, cnt) b.
     let bytes = ucast cnt * sec in
     bind_run (b_kmalloc hp bytes b) (\<lambda>(wp, w, b).
     bind_run (b_kmalloc hp bytes b) (\<lambda>(rp, r, b).
     bind_run (fill_pattern w bytes (0xABCD0000 + i)) (\<lambda>w.
     bind_run (b_ata_write dev lba (ucast cnt) w b) (\<lambda>(ok, b).
     bind_run (CHECK dev ok ''ata_write_sectors (small)'' b) (\<lambda>b.
     bind_run (b_ata_read dev lba (ucast cnt) r b) (\<lambda>(ok, r, b).
     bind_run (CHECK dev ok ''ata_read_sectors  (small)'' b) (\<lambda>b.
     bind_run (CHECK_MEMEQ dev w r bytes ''ata small round-trip'' b) (\<lambda>b.
     bind_run (b_kfree hp wp b) (\<lambda>b.
     b_kfree hp rp b))))))))))"

text \<open>\<open>for\<close> over the entries of a table.\<close>

fun each :: "('a \<Rightarrow> 'b \<Rightarrow> 'b run) \<Rightarrow> 'a list \<Rightarrow> 'b \<Rightarrow> 'b run" where
  "each f [] b = Inr b"
| "each f (x # xs) b = bind_run (f x b) (each f xs)"

definition test_ata_read_write_small_counts :: "device \<Rightarrow> 'h heap_ops \<Rightarrow> 'h bench \<Rightarrow> 'h bench run" where
  "test_ata_read_write_small_counts dev hp b =
     each (small_round dev hp (b_sector_size b)) [(0, LBA_BASE + 10, 1), (1, LBA_BASE + 100, 2), (2, LBA_BASE + 200, 4)] b"

definition test_disk_zero_length_rw :: "device \<Rightarrow> 'h heap_ops \<Rightarrow> 'h bench \<Rightarrow> 'h bench run" where
  "test_disk_zero_length_rw dev hp b =
     (let tmp = [0x5A] in
      bind_run (b_disk_write dev hp (LBA_BASE + 700) tmp 0 b) (\<lambda>(k, b).
      bind_run (CHECK_EQ dev k 0 ''disk_write len=0 returns 0'' b) (\<lambda>b.
      bind_run (b_disk_read dev hp (LBA_BASE + 700) tmp 0 b) (\<lambda>(k, tmp, b).
      CHECK_EQ dev k 0 ''disk_read  len=0 returns 0'' b))))"

definition test_disk_wrapper_exact_small :: "device \<Rightarrow> 'h heap_ops \<Rightarrow> 'h bench \<Rightarrow> 'h bench run" where
  "test_disk_wrapper_exact_small dev hp b =
     (let sec = b_sector_size b; lba = LBA_BASE + 800; len = 4 * sec in
      bind_run (b_kmalloc hp len b) (\<lambda>(wp, w, b).
      bind_run (b_kmalloc hp len b) (\<lambda>(rp, r, b).
      bind_run (fill_pattern w len 0x1111) (\<lambda>w.
      bind_run (b_disk_write dev hp lba w len b) (\<lambda>(k, b).
      bind_run (CHECK_EQ dev k len ''disk_write exact (4 sectors)'' b) (\<lambda>b.
      bind_run (b_disk_read dev hp lba r len b) (\<lambda>(k, r, b).
      bind_run (CHECK_EQ dev k len ''disk_read  exact (4 sectors)'' b) (\<lambda>b.
      bind_run (CHECK_MEMEQ dev w r len ''exact multiple round-trip (small)'' b) (\<lambda>b.
      bind_run (b_kfree hp wp b) (\<lambda>b.
      b_kfree hp rp b))))))))))"

text \<open>One round of the loop of \<open>test_disk_wrapper_unaligned_sizes\<close>.\<close>

definition unaligned_round :: "device \<Rightarrow> 'h heap_ops \<Rightarrow> u32 \<Rightarrow> u32 \<times> u32 \<times> u32 \<Rightarrow> 'h bench \<Rightarrow> 'h bench run" where
  "unaligned_round dev hp sec = (\<lambda>(i, lba, len) b.
     let pre = 4 * sec in
     bind_run (b_kmalloc hp pre b) (\<lambda>(gp, garb, b).
     bind_run (memset garb 0xA5 pre) (\<lambda>garb.
     bind_run (b_disk_write dev hp lba garb pre b) (\<lambda>(_, b).
     bind_run (b_kfree hp gp b) (\<lambda>b.
     bind_run (b_kmalloc hp len b) (\<lambda>(wp, w, b).
     bind_run (b_kmalloc hp len b) (\<lambda>(rp, r, b).
     bind_run (fill_pattern w len (0x3333 + i)) (\<lambda>w.
     bind_run (memset r 0 len) (\<lambda>r.
     bind_run (b_disk_write dev hp lba w len b) (\<lambda>(k, b).
     bind_run (CHECK_EQ dev k len ''disk_write unaligned (small)'' b) (\<lambda>b.
     bind_run (b_disk_read dev hp lba r len b) (\<lambda>(k, r, b).
     bind_run (CHECK_EQ dev k len ''disk_read  unaligned (small)'' b) (\<lambda>b.
     bind_run (CHECK_MEMEQ dev w r len ''unaligned round-trip'' b) (\<lambda>b.
     bind_run (b_kfree hp wp b) (\<lambda>b.
     b_kfree hp rp b)))))))))))))))"

definition test_disk_wrapper_unaligned_sizes :: "device \<Rightarrow> 'h heap_ops \<Rightarrow> 'h bench \<Rightarrow> 'h bench run" where
  "test_disk_wrapper_unaligned_sizes dev hp b =
     (let sec = b_sector_size b in
      each (unaligned_round dev hp sec)
        [(0, LBA_BASE + 1200, 1), (1, LBA_BASE + 1300, sec - 1), (2, LBA_BASE + 1400, sec + 1), (3, LBA_BASE + 1500, 3 * sec + 123)] b)"

definition test_ata_oob_guard :: "device \<Rightarrow> 'h heap_ops \<Rightarrow> 'h bench \<Rightarrow> 'h bench run" where
  "test_ata_oob_guard dev hp b =
     (let sector_size = b_sector_size b; cnt = 0x10 in
      bind_run (b_kmalloc hp (sector_size * ucast (cnt :: u8)) b) (\<lambda>(p, secbuf, b).
      bind_run (memset secbuf 0 (sector_size * ucast cnt)) (\<lambda>secbuf.
      bind_run (b_ata_read dev 0x0FFFFFF0 cnt secbuf b) (\<lambda>(ok, secbuf, b).
      bind_run (CHECK dev (\<not> ok) ''ata_read_sectors rejects OOB'' b) (\<lambda>b.
      bind_run (b_ata_write dev 0x0FFFFFF0 cnt secbuf b) (\<lambda>(ok, b).
      bind_run (CHECK dev (\<not> ok) ''ata_write_sectors rejects OOB'' b) (\<lambda>b.
      b_kfree hp p b)))))))"

definition test_switch_disk_invalid :: "device \<Rightarrow> 'h bench \<Rightarrow> 'h bench run" where
  "test_switch_disk_invalid dev b =
     (let before = b_sector_size b; b = b_switch_disk 3 b; after = b_sector_size b in
      CHECK_EQ dev before after ''switch_disk(invalid) keeps current disk'' b)"

text \<open>
  The loops of \<open>test_slot_allocator_small\<close>: \<open>n\<close> allocations, stopped by the first that fails, with the array filled so
  far; freeing the array, whose entries after a failure hold no value; \<open>n\<close> allocations freed at once.
\<close>

fun alloc_slots_loop :: "nat \<Rightarrow> u32 list \<Rightarrow> slot_state \<Rightarrow> (bool \<times> u32 list \<times> slot_state) run" where
  "alloc_slots_loop 0 taken s = Inr (True, taken, s)"
| "alloc_slots_loop (Suc n) taken s =
     bind_run (disk_alloc_slot s) (\<lambda>(slot, s).
       if slot = DISK_NO_SLOT_AVAILABLE then Inr (False, taken @ [slot], s) else alloc_slots_loop n (taken @ [slot]) s)"

fun free_slots_loop :: "nat \<Rightarrow> u32 list \<Rightarrow> slot_state \<Rightarrow> slot_state run" where
  "free_slots_loop 0 taken s = Inr s"
| "free_slots_loop (Suc n) [] s = Inl Out_of_bounds"
| "free_slots_loop (Suc n) (slot # taken) s = bind_run (disk_free_slot slot s) (free_slots_loop n taken)"

fun reuse_slots_loop :: "nat \<Rightarrow> slot_state \<Rightarrow> (bool \<times> slot_state) run" where
  "reuse_slots_loop 0 s = Inr (True, s)"
| "reuse_slots_loop (Suc n) s =
     bind_run (disk_alloc_slot s) (\<lambda>(slot, s).
       if slot = DISK_NO_SLOT_AVAILABLE then Inr (False, s) else bind_run (disk_free_slot slot s) (reuse_slots_loop n))"

definition test_slot_allocator_small :: "device \<Rightarrow> 'h bench \<Rightarrow> 'h bench run" where
  "test_slot_allocator_small dev b =
     bind_run (alloc_slots_loop 8 [] (b_slots b)) (\<lambda>(ok, taken, s).
     bind_run (CHECK dev ok ''disk_alloc_slot x8 ok'' (b\<lparr>b_slots := s\<rparr>)) (\<lambda>b.
     bind_run (free_slots_loop 8 taken (b_slots b)) (\<lambda>s.
     bind_run (reuse_slots_loop 8 s) (\<lambda>(ok, s).
     CHECK dev ok ''disk_free_slot -> slots reusable'' (b\<lparr>b_slots := s\<rparr>)))))"

definition test_interleaved_writes_reads_small :: "device \<Rightarrow> 'h heap_ops \<Rightarrow> 'h bench \<Rightarrow> 'h bench run" where
  "test_interleaved_writes_reads_small dev hp b =
     (let sec = b_sector_size b; lba = LBA_BASE + 3000; len1 = 2 * sec + 17; len2 = 3 * sec + 9; total_len = 1 * sec + len2 in
      bind_run (b_kmalloc hp len1 b) (\<lambda>(p1, w1, b).
      bind_run (fill_pattern w1 len1 0x7777) (\<lambda>w1.
      bind_run (b_disk_write dev hp lba w1 len1 b) (\<lambda>(k, b).
      bind_run (CHECK_EQ dev k len1 ''first partial write (small)'' b) (\<lambda>b.
      bind_run (b_kfree hp p1 b) (\<lambda>b.
      bind_run (b_kmalloc hp len2 b) (\<lambda>(p2, w2, b).
      bind_run (fill_pattern w2 len2 0x8888) (\<lambda>w2.
      bind_run (b_disk_write dev hp (lba + 1) w2 len2 b) (\<lambda>(k, b).
      bind_run (CHECK_EQ dev k len2 ''second partial write overlapped (small)'' b) (\<lambda>b.
      bind_run (b_kmalloc hp total_len b) (\<lambda>(pa, all, b).
      bind_run (b_disk_read dev hp lba all total_len b) (\<lambda>(k, all, b).
      bind_run (CHECK_EQ dev k total_len ''readback overlapped region (small)'' b) (\<lambda>b.
      bind_run (b_kmalloc hp total_len b) (\<lambda>(pe, expect, b).
      bind_run (memset expect 0 total_len) (\<lambda>expect.
      bind_run (b_kmalloc hp (2 * sec + 17) b) (\<lambda>(pt, tmp, b).
      bind_run (fill_pattern tmp (2 * sec + 17) 0x7777) (\<lambda>tmp.
      bind_run (memcpy expect 0 tmp (if total_len < 2 * sec + 17 then total_len else 2 * sec + 17)) (\<lambda>expect.
      bind_run (b_kfree hp pt b) (\<lambda>b.
      bind_run (memcpy expect (unat (1 * sec)) w2 len2) (\<lambda>expect.
      bind_run (CHECK_MEMEQ dev expect all total_len ''interleaved write expected image (small)'' b) (\<lambda>b.
      bind_run (b_kfree hp pe b) (\<lambda>b.
      bind_run (b_kfree hp p2 b) (\<lambda>b.
      b_kfree hp pa b)))))))))))))))))))))))"

section \<open>The suite\<close>

text \<open>The nine tests, and what is printed after them.\<close>

definition all_tests :: "device \<Rightarrow> 'h heap_ops \<Rightarrow> 'h bench \<Rightarrow> 'h bench run" where
  "all_tests dev hp b =
     bind_run (RUN dev ''test_disk_basic_info'' (test_disk_basic_info dev) b) (\<lambda>b.
     bind_run (RUN dev ''test_ata_read_write_small_counts'' (test_ata_read_write_small_counts dev hp) b) (\<lambda>b.
     bind_run (RUN dev ''test_disk_zero_length_rw'' (test_disk_zero_length_rw dev hp) b) (\<lambda>b.
     bind_run (RUN dev ''test_disk_wrapper_exact_small'' (test_disk_wrapper_exact_small dev hp) b) (\<lambda>b.
     bind_run (RUN dev ''test_disk_wrapper_unaligned_sizes'' (test_disk_wrapper_unaligned_sizes dev hp) b) (\<lambda>b.
     bind_run (RUN dev ''test_ata_oob_guard'' (test_ata_oob_guard dev hp) b) (\<lambda>b.
     bind_run (RUN dev ''test_switch_disk_invalid'' (test_switch_disk_invalid dev) b) (\<lambda>b.
     bind_run (RUN dev ''test_slot_allocator_small'' (test_slot_allocator_small dev) b) (\<lambda>b.
     RUN dev ''test_interleaved_writes_reads_small'' (test_interleaved_writes_reads_small dev hp) b))))))))"

definition report_results :: "device \<Rightarrow> 'h bench \<Rightarrow> 'h bench run" where
  "report_results dev b =
     (let failed = g_failures b; verdict = (if failed \<noteq> 0 then ascii ''FAILED'' else ascii ''PASSED'') in
      bind_run (b_print (printf (\<lambda>_. verdict) (10 # chars ''=== DISK DRIVER TESTS: %s (%d failed of %d) ==='' @ [10, 0])
          (word_bytes 0 @ word_bytes (of_int (g_failures b)) @ word_bytes (of_int (g_tests_run b)))) b) (\<lambda>b.
      bind_run (b_serial dev (10 # ascii ''=== DISK DRIVER TESTS: '') b) (\<lambda>b.
      bind_run (b_serial dev verdict b) (\<lambda>b.
      bind_run (b_serial dev (chars '' ==='' @ [10, 0]) b) (\<lambda>b.
      Inr (if failed \<noteq> 0 then b\<lparr>b_io := qemu_exit_fail (b_io b)\<rparr> else b\<lparr>b_io := qemu_exit_pass (b_io b)\<rparr>))))))"

definition run_disk_tests :: "device \<Rightarrow> 'h heap_ops \<Rightarrow> 'h bench \<Rightarrow> 'h bench run" where
  "run_disk_tests dev hp b =
     bind_run (b_serial dev (10 # chars ''=== DISK DRIVER TESTS: START ==='' @ [10, 0]) (b\<lparr>b_io := serial_init (b_io b)\<rparr>)) (\<lambda>b.
     bind_run (b_print (printf (\<lambda>_. []) (10 # chars ''=== DISK DRIVER TESTS: START ==='' @ [10, 0]) []) b) (\<lambda>b.
     bind_run (all_tests dev hp (b_switch_disk 0 b)) (report_results dev)))"

end
