(* ===== verification/Disk_Tests_Properties.thy ===== *)
theory Disk_Tests_Properties
  imports Disk_Tests
begin

text \<open>
  The suite of tests/disk_tests.c passes: on an attached drive every check succeeds, for the reasons the
  properties of the driver and of the slot allocator give.
\<close>

section \<open>What the suite relies on\<close>

text \<open>
  The first drive is attached as primary master, large enough for the sectors the tests use and smaller than the
  28-bit address space, there is no fourth drive, the heap does not fail, and the serial port takes characters.
\<close>

definition suite_ready :: "(nat \<Rightarrow> u16) \<Rightarrow> device \<Rightarrow> 'h heap_ops \<Rightarrow> ata \<Rightarrow> bool" where
  "suite_ready img dev hp st \<longleftrightarrow> curr_disk st = 0 \<and> disk_attached img dev st \<and> heap_never_fails hp
     \<and> base_io_port (current_disk st) = PRIMARY_BASE_PORT \<and> logical_sector_size (current_disk st) \<in> {512, 4096}
     \<and> 8192 \<le> unat (total_sectors (current_disk st)) \<and> unat (total_sectors (current_disk st)) < 2 ^ 28
     \<and> \<not> valid (disks st ! 3) \<and> (\<forall>io. ucast (dev io 0x3FD) AND (0x20 :: u8) \<noteq> 0)"

text \<open>The screen shows some text.\<close>

definition legible :: "screen \<Rightarrow> bool" where
  "legible s \<longleftrightarrow> (\<exists>out k. shows_rows out k s)"

text \<open>Along the suite: no failure so far, \<open>n\<close> tests started, the medium holds the bytes \<open>m\<close>.\<close>

definition calm :: "(nat \<Rightarrow> u16) \<Rightarrow> ata \<Rightarrow> (nat \<Rightarrow> u8) \<Rightarrow> int \<Rightarrow> 'h bench \<Rightarrow> bool" where
  "calm img st m n b \<longleftrightarrow> b_ata b = st \<and> g_failures b = 0 \<and> g_tests_run b = n \<and> legible (b_screen b)
     \<and> slots_inv (b_slots b) \<and> card (used_slots (b_slots b)) + 8 \<le> 800000 \<and> disk_bytes img st (b_io b) = m"

section \<open>Output\<close>

lemma disk_bytes_In8 [simp]: "disk_bytes img st (In8 p v # io) = disk_bytes img st io"
  by (simp add: disk_bytes_def)

lemma disk_bytes_serial:
  assumes "suite_ready img dev hp st" and "p \<in> {0x3F8, 0x3F9, 0x3FA, 0x3FB, 0x3FC}"
  shows "disk_bytes img st (Out8 p v # io) = disk_bytes img st io"
  using assms by (auto simp: disk_bytes_def suite_ready_def PRIMARY_BASE_PORT_def)

lemma serial_putc_ok:
  assumes "suite_ready img dev hp st"
  shows "run_ok (serial_putc dev c io) (\<lambda>io'. disk_bytes img st io' = disk_bytes img st io)"
proof -
  have "\<exists>v. tx_wait dev io = Some (In8 0x3FD v # io)"
    using assms by (subst tx_wait.simps) (auto simp: suite_ready_def serial_tx_empty_def inb_def COM1_def Let_def)
  then show ?thesis
    using disk_bytes_serial [OF assms] by (auto simp: serial_putc_def outb_def COM1_def)
qed

lemma serial_puts_ok:
  assumes "suite_ready img dev hp st" and "0 \<notin> set s"
  shows "run_ok (serial_puts dev (s @ [0]) io) (\<lambda>io'. disk_bytes img st io' = disk_bytes img st io)"
  using assms(2)
proof (induction s arbitrary: io)
  case (Cons c s)
  have "run_ok (if c = 10 then serial_putc dev 13 io else Inr io) (\<lambda>io'. disk_bytes img st io' = disk_bytes img st io)"
    using serial_putc_ok [OF assms(1)] by simp
  then have "run_ok (bind_run (if c = 10 then serial_putc dev 13 io else Inr io) (\<lambda>io.
      bind_run (serial_putc dev c io) (serial_puts dev (s @ [0])))) (\<lambda>io'. disk_bytes img st io' = disk_bytes img st io)"
  proof (rule run_ok_bind)
    fix io1 assume io1: "disk_bytes img st io1 = disk_bytes img st io"
    show "run_ok (bind_run (serial_putc dev c io1) (serial_puts dev (s @ [0]))) (\<lambda>io'. disk_bytes img st io' = disk_bytes img st io)"
    proof (rule run_ok_bind [OF serial_putc_ok [OF assms(1)]])
      fix io2 assume "disk_bytes img st io2 = disk_bytes img st io1"
      then show "run_ok (serial_puts dev (s @ [0]) io2) (\<lambda>io'. disk_bytes img st io' = disk_bytes img st io)"
        using Cons.IH [of io2] Cons.prems io1 by simp
    qed
  qed
  with Cons.prems show ?case by simp
qed simp

lemma b_serial_ok:
  assumes "suite_ready img dev hp st" and "calm img st m n b" and "0 \<notin> set s"
  shows "run_ok (b_serial dev (s @ [0]) b) (calm img st m n)"
  unfolding b_serial_def
  by (rule run_ok_bind [OF serial_puts_ok [OF assms(1,3)]]) (use assms(2) in \<open>simp add: calm_def\<close>)

lemma b_print_ok:
  assumes "calm img st m n b" and "prints f str"
  shows "run_ok (b_print f b) (calm img st m n)"
proof -
  obtain out k where "shows_rows out k (b_screen b)" using assms(1) by (auto simp: calm_def legible_def)
  with assms(2) obtain s' k' where "f (b_screen b) = Inr s'" "shows_rows (fold (tput (color (b_screen b))) str out) k' s'"
    unfolding prints_def by blast
  with assms(1) show ?thesis by (auto simp: b_print_def calm_def legible_def)
qed

lemma prints_tagged:
  assumes "0 \<notin> set t" and "37 \<notin> set t" and "0 \<notin> set (chars msg)"
  shows "prints (printf (\<lambda>_. ascii msg) (t @ chars ''%s'' @ [10, 0]) (word_bytes 0)) (t @ chars msg @ [10])"
proof -
  let ?ps = "map Lit t @ [Conv (Arg_str 0 (chars msg)), Lit 10]"
  have f: "concat (map piece_format ?ps) = t @ chars ''%s'' @ [10]" "concat (map piece_args ?ps) = word_bytes 0"
      "concat (map piece_text ?ps) = t @ chars msg @ [10]"
    by (simp_all only: map_append concat_append literal_pieces) (simp_all add: chars_def)
  have "0 \<notin> set (t @ chars ''%s'' @ [10])" using assms(1) by (auto simp: chars_def)
  then have h: "holds_str (t @ chars ''%s'' @ [10, 0]) (concat (map piece_format ?ps))"
    using holds_str_append [of "t @ chars ''%s'' @ [10]" "[]"] unfolding f by simp
  have "list_all (piece_ok (\<lambda>_. ascii msg)) ?ps"
    using literal_ok [OF assms(1,2), of "\<lambda>_. ascii msg"] holds_ascii [OF assms(3)] by simp
  from prints_printf [OF h this] show ?thesis unfolding f .
qed

lemma put_line_ok:
  assumes "suite_ready img dev hp st" and "calm img st m n b" and "0 \<notin> set (chars tag)" and "37 \<notin> set (chars tag)"
    and "0 \<notin> set (chars msg)"
  shows "run_ok (put_line dev tag msg b) (calm img st m n)"
  unfolding put_line_def ascii_def
  by (rule run_ok_bind [OF b_print_ok [OF assms(2) prints_tagged [OF assms(3-5), unfolded ascii_def]]],
      rule run_ok_bind [OF b_serial_ok [OF assms(1) _ assms(3)]], assumption,
      rule run_ok_bind [OF b_serial_ok [OF assms(1) _ assms(5)]], assumption,
      rule b_serial_ok [OF assms(1), of _ _ _ "[10]", simplified])

lemma CHECK_ok:
  assumes "suite_ready img dev hp st" and "calm img st m n b" and "0 \<notin> set (chars msg)" and "cond"
  shows "run_ok (CHECK dev cond msg b) (calm img st m n)"
  using put_line_ok [OF assms(1,2), of "''[PASS] ''"] assms(3,4) by (simp add: CHECK_def chars_def)

lemma CHECK_EQ_ok:
  assumes "suite_ready img dev hp st" and "calm img st m n b" and "0 \<notin> set (chars msg)" and "x = y"
  shows "run_ok (CHECK_EQ dev x y msg b) (calm img st m n)"
  unfolding CHECK_EQ_def using assms by (rule CHECK_ok)

lemma CHECK_MEMEQ_ok:
  assumes "suite_ready img dev hp st" and "calm img st m n b" and "0 \<notin> set (chars msg)" and "x = y" and "length x = unat k"
  shows "run_ok (CHECK_MEMEQ dev x y k msg b) (calm img st m n)"
proof -
  have "memcmp x y k = Inr 0" using memcmp_loop_spec [of 0 "unat k" x y] assms(4,5) by (auto simp: memcmp_def)
  then show ?thesis using CHECK_ok [OF assms(1-3)] by (simp add: CHECK_MEMEQ_def)
qed

lemma RUN_ok:
  assumes "suite_ready img dev hp st" and "calm img st m n b" and "0 \<notin> set (chars tn)"
    and "\<And>b. calm img st m (n + 1) b \<Longrightarrow> run_ok (testfn b) Q"
  shows "run_ok (RUN dev tn testfn b) Q"
  unfolding RUN_def
  by (rule run_ok_bind [OF put_line_ok [OF assms(1,2)]]) (use assms(3,4) in \<open>auto simp: calm_def chars_def\<close>)

section \<open>Calls of the drivers\<close>

text \<open>The bytes of \<open>fill_pattern\<close>.\<close>

fun pattern :: "nat \<Rightarrow> u32 \<Rightarrow> buffer" where
  "pattern 0 x = []"
| "pattern (Suc n) x = (let x = x * 1664525 + 1013904223 in ucast (drop_bit 24 x) # pattern n x)"

lemma length_pattern [simp]: "length (pattern n x) = n"
  by (induction n x rule: pattern.induct) (auto simp: Let_def)

lemma pattern_loop_spec:
  "i + n \<le> length buf \<Longrightarrow> pattern_loop i n x buf = Inr (take i buf @ pattern n x @ drop (i + n) buf)"
  by (induction n arbitrary: i x buf) (auto simp: Let_def take_Suc_conv_app_nth upd_conv_take_nth_drop add.commute)

lemma fill_pattern_ok: "length buf = unat k \<Longrightarrow> run_ok (fill_pattern buf k seed) (\<lambda>w. w = pattern (unat k) seed)"
  by (simp add: fill_pattern_def pattern_loop_spec)

lemma memset_ok: "length p = unat k \<Longrightarrow> run_ok (memset p v k) (\<lambda>p'. p' = replicate (unat k) v)"
  by (simp add: memset_spec)

lemma b_kmalloc_ok:
  assumes "suite_ready img dev hp st" and "calm img st m n b"
  shows "run_ok (b_kmalloc hp k b) (\<lambda>(p, buf, b'). length buf = unat k \<and> calm img st m n b')"
proof -
  obtain p h where "hp_kmalloc hp k (b_heap b) = Inr (p, h)" "p \<noteq> 0"
    using assms(1) unfolding suite_ready_def heap_never_fails_def by blast
  with assms(2) show ?thesis by (simp add: b_kmalloc_def calm_def)
qed

lemma b_kfree_ok:
  assumes "suite_ready img dev hp st" and "calm img st m n b"
  shows "run_ok (b_kfree hp p b) (calm img st m n)"
proof -
  obtain h where "hp_kfree hp p (b_heap b) = Inr h"
    using assms(1) unfolding suite_ready_def heap_never_fails_def by blast
  with assms(2) show ?thesis by (simp add: b_kfree_def calm_def)
qed

text \<open>At most five sectors, inside the area of the tests.\<close>

lemma short_transfer:
  assumes "suite_ready img dev hp st" and "ss = unat (logical_sector_size (current_disk st))"
    and "unat len \<le> 5 * ss" and "unat lba \<le> 8187"
  shows "unat lba + (unat len + ss - 1) div ss \<le> unat (total_sectors (current_disk st))" "unat len + ss \<le> 2 ^ 32"
proof -
  have ss: "0 < ss" "ss \<le> 4096" using assms(1,2) by (auto simp: suite_ready_def)
  have "(unat len + ss - 1) div ss \<le> 5"
    using ss assms(3) by (intro less_Suc_eq_le [THEN iffD1]) (simp add: div_less_iff_less_mult)
  then show "unat lba + (unat len + ss - 1) div ss \<le> unat (total_sectors (current_disk st))"
    using assms(1,4) by (simp add: suite_ready_def)
  show "unat len + ss \<le> 2 ^ 32" using ss assms(3) by simp
qed

lemma b_disk_write_ok:
  assumes "suite_ready img dev hp st" and "calm img st m n b" and "ss = unat (logical_sector_size (current_disk st))"
    and "unat len \<le> length buf" and "unat len \<le> 5 * ss" and "unat lba \<le> 8187"
  shows "run_ok (b_disk_write dev hp lba buf len b)
     (\<lambda>(k, b'). k = len \<and> calm img st (put_bytes (unat lba * ss) (take (unat len) buf) m) n b')"
proof -
  have st: "disk_attached img dev st" "heap_never_fails hp" using assms(1) by (simp_all add: suite_ready_def)
  show ?thesis
    using disk_write_image [OF st assms(4,3) refl short_transfer(1) [OF assms(1,3,5,6)], of "b_screen b" "b_io b" "b_heap b"] assms(2)
    by (auto simp: b_disk_write_def calm_def)
qed

lemma b_disk_read_ok:
  assumes "suite_ready img dev hp st" and "calm img st m n b" and "ss = unat (logical_sector_size (current_disk st))"
    and "unat len \<le> length buf" and "unat len \<le> 5 * ss" and "unat lba \<le> 8187"
  shows "run_ok (b_disk_read dev hp lba buf len b)
     (\<lambda>(k, r, b'). k = len \<and> r = map m [unat lba * ss ..< unat lba * ss + unat len] @ drop (unat len) buf \<and> calm img st m n b')"
proof -
  have st: "disk_attached img dev st" "heap_never_fails hp" using assms(1) by (simp_all add: suite_ready_def)
  show ?thesis
    using disk_read_image [OF st assms(4,3) refl short_transfer [OF assms(1,3,5,6)], of "b_screen b" "b_io b" "b_heap b"] assms(2)
    by (auto simp: b_disk_read_def calm_def)
qed


lemma b_ata_write_ok:
  assumes "suite_ready img dev hp st" and "calm img st m n b" and "ss = unat (logical_sector_size (current_disk st))"
    and "cnt \<noteq> 0" and "length buf = unat cnt * ss" and "unat lba \<le> 7000"
  shows "run_ok (b_ata_write dev lba cnt buf b) (\<lambda>(ok, b'). ok \<and> calm img st (put_bytes (unat lba * ss) buf m) n b')"
proof -
  have st: "disk_attached img dev st" "curr_disk st = 0" "8192 \<le> unat (total_sectors (current_disk st))"
    using assms(1) by (simp_all add: suite_ready_def)
  have "unat lba + unat cnt \<le> unat (total_sectors (current_disk st))" using st(3) assms(6) unat_u8_less [of cnt] by linarith
  then show ?thesis
    using ata_write_image [OF st(1) _ assms(3), of "unat cnt" cnt lba buf "b_io b"] assms(2,4,5) st(2)
    by (auto simp: b_ata_write_def calm_def)
qed

lemma b_ata_read_ok:
  assumes "suite_ready img dev hp st" and "calm img st m n b" and "ss = unat (logical_sector_size (current_disk st))"
    and "cnt \<noteq> 0" and "length buf = unat cnt * ss" and "unat lba \<le> 7000"
  shows "run_ok (b_ata_read dev lba cnt buf b)
     (\<lambda>(ok, r, b'). ok \<and> r = map m [unat lba * ss ..< unat lba * ss + unat cnt * ss] \<and> calm img st m n b')"
proof -
  have st: "disk_attached img dev st" "curr_disk st = 0" "8192 \<le> unat (total_sectors (current_disk st))"
    using assms(1) by (simp_all add: suite_ready_def)
  have "unat lba + unat cnt \<le> unat (total_sectors (current_disk st))" using st(3) assms(6) unat_u8_less [of cnt] by linarith
  then show ?thesis
    using ata_read_image [OF st(1) _ assms(3), of "unat cnt" cnt lba buf "b_screen b" "b_io b"] assms(2,4,5) st(2)
    by (auto simp: b_ata_read_def calm_def)
qed

section \<open>The tests\<close>

text \<open>Some medium.\<close>

definition sound :: "(nat \<Rightarrow> u16) \<Rightarrow> ata \<Rightarrow> int \<Rightarrow> 'h bench \<Rightarrow> bool" where
  "sound img st n b \<longleftrightarrow> (\<exists>m. calm img st m n b)"

lemma b_kfree_sound: "suite_ready img dev hp st \<Longrightarrow> calm img st m n b \<Longrightarrow> run_ok (b_kfree hp p b) (sound img st n)"
  by (rule run_ok_mono [OF b_kfree_ok]) (auto simp: sound_def)

lemma CHECK_sound: "suite_ready img dev hp st \<Longrightarrow> calm img st m n b \<Longrightarrow> 0 \<notin> set (chars msg) \<Longrightarrow> cond \<Longrightarrow>
    run_ok (CHECK dev cond msg b) (sound img st n)"
  by (rule run_ok_mono [OF CHECK_ok]) (auto simp: sound_def)

lemma each_ok:
  assumes "\<And>x b. x \<in> set xs \<Longrightarrow> I b \<Longrightarrow> run_ok (f x b) I" and "I b"
  shows "run_ok (each f xs b) I"
  using assms by (induction xs arbitrary: b) (auto intro: run_ok_bind)

lemma sector_sizes:
  assumes "suite_ready img dev hp st" and "calm img st m n b"
  shows "b_sector_size b = logical_sector_size (current_disk st)" "logical_sector_size (current_disk st) \<in> {512, 4096}"
  using assms by (simp_all add: calm_def suite_ready_def b_sector_size_def disk_get_current_disk_logical_sector_size_def)

lemma small_round_ok:
  assumes rd: "suite_ready img dev hp st" and "sound img st n b" and "sec = logical_sector_size (current_disk st)"
    and "(i, lba, cnt) \<in> {(i, lba, cnt). cnt \<in> {1, 2, 4} \<and> unat lba \<le> 7000}"
  shows "run_ok (small_round dev hp sec (i, lba, cnt) b) (sound img st n)"
proof -
  obtain m where b: "calm img st m n b" using assms(2) by (auto simp: sound_def)
  define ss where "ss = unat (logical_sector_size (current_disk st))"
  have sec: "sec = 512 \<or> sec = 4096" using sector_sizes(2) [OF rd b] assms(3) by auto
  then have bts: "unat (ucast cnt * sec) = unat (ucast cnt :: u8) * ss" "(ucast cnt :: u8) \<noteq> 0"
    using assms(3,4) by (auto simp: ss_def)
  have lba: "unat lba \<le> 7000" using assms(4) by simp
  show ?thesis
    unfolding small_round_def prod.case Let_def
    by (rule run_ok_bind3 [OF b_kmalloc_ok [OF rd b]], erule conjE,
        rule run_ok_bind3 [OF b_kmalloc_ok [OF rd]], assumption, erule conjE,
        rule run_ok_bind [OF fill_pattern_ok], assumption,
        rule run_ok_bind2 [OF b_ata_write_ok [OF rd _ ss_def bts(2) _ lba]], assumption, simp add: bts(1), erule conjE,
        rule run_ok_bind [OF CHECK_ok [OF rd]], assumption, simp add: chars_def, assumption,
        rule run_ok_bind3 [OF b_ata_read_ok [OF rd _ ss_def bts(2) _ lba]], assumption, simp add: bts(1), (erule conjE)+,
        rule run_ok_bind [OF CHECK_ok [OF rd]], assumption, simp add: chars_def, assumption,
        rule run_ok_bind [OF CHECK_MEMEQ_ok [OF rd]], assumption, simp add: chars_def,
        simp add: read_put_bytes [of "unat lba * ss" "pattern (unat (ucast cnt :: u8) * ss) _", simplified] bts(1), simp add: bts(1),
        rule run_ok_bind [OF b_kfree_ok [OF rd]], assumption, rule b_kfree_sound [OF rd])
qed

lemma test_ata_read_write_small_counts_ok:
  assumes "suite_ready img dev hp st" and "sound img st n b"
  shows "run_ok (test_ata_read_write_small_counts dev hp b) (sound img st n)"
proof -
  obtain m where m: "calm img st m n b" using assms(2) by (auto simp: sound_def)
  show ?thesis
    unfolding test_ata_read_write_small_counts_def sector_sizes(1) [OF assms(1) m]
  proof (rule each_ok)
    fix x :: "u32 \<times> u32 \<times> u16" and b :: "'a bench"
    assume x: "x \<in> set [(0, LBA_BASE + 10, 1), (1, LBA_BASE + 100, 2), (2, LBA_BASE + 200, 4)]" and b: "sound img st n b"
    obtain i lba cnt where e: "x = (i, lba, cnt)" by (cases x)
    have "(i, lba, cnt) \<in> {(i, lba, cnt). cnt \<in> {1, 2, 4} \<and> unat lba \<le> 7000}" using x by (auto simp: e LBA_BASE_def)
    from small_round_ok [OF assms(1) b refl this] show "run_ok (small_round dev hp (logical_sector_size (current_disk st)) x b) (sound img st n)"
      by (simp only: e)
  qed (fact assms(2))
qed

lemma test_disk_zero_length_rw_ok:
  assumes rd: "suite_ready img dev hp st" and "sound img st n b"
  shows "run_ok (test_disk_zero_length_rw dev hp b) (sound img st n)"
proof -
  obtain m where b: "calm img st m n b" using assms(2) by (auto simp: sound_def)
  define lba where "lba = LBA_BASE + 700"
  have lba: "unat lba \<le> 8187" by (simp add: lba_def LBA_BASE_def)
  show ?thesis
    unfolding test_disk_zero_length_rw_def Let_def CHECK_EQ_def lba_def [symmetric]
    by (rule run_ok_bind2 [OF b_disk_write_ok [OF rd b refl _ _ lba]], simp, simp, erule conjE,
        rule run_ok_bind [OF CHECK_ok [OF rd]], assumption, simp add: chars_def, assumption,
        rule run_ok_bind3 [OF b_disk_read_ok [OF rd _ refl _ _ lba]], assumption, simp, simp, (erule conjE)+,
        rule CHECK_sound [OF rd], assumption, simp add: chars_def)
qed

lemma test_disk_wrapper_exact_small_ok:
  assumes rd: "suite_ready img dev hp st" and "sound img st n b"
  shows "run_ok (test_disk_wrapper_exact_small dev hp b) (sound img st n)"
proof -
  obtain m where b: "calm img st m n b" using assms(2) by (auto simp: sound_def)
  define ss where "ss = unat (logical_sector_size (current_disk st))"
  define len where "len = 4 * b_sector_size b"
  define lba where "lba = LBA_BASE + 800"
  have len: "unat len \<le> 5 * ss" using sector_sizes [OF rd b] by (auto simp: len_def ss_def)
  have lba: "unat lba \<le> 8187" by (simp add: lba_def LBA_BASE_def)
  show ?thesis
    unfolding test_disk_wrapper_exact_small_def Let_def CHECK_EQ_def len_def [symmetric] lba_def [symmetric]
    by (rule run_ok_bind3 [OF b_kmalloc_ok [OF rd b]], erule conjE,
        rule run_ok_bind3 [OF b_kmalloc_ok [OF rd]], assumption, erule conjE,
        rule run_ok_bind [OF fill_pattern_ok], assumption,
        rule run_ok_bind2 [OF b_disk_write_ok [OF rd _ ss_def _ len lba]], assumption, simp, erule conjE,
        rule run_ok_bind [OF CHECK_ok [OF rd]], assumption, simp add: chars_def, assumption,
        rule run_ok_bind3 [OF b_disk_read_ok [OF rd _ ss_def _ len lba]], assumption, simp, (erule conjE)+,
        rule run_ok_bind [OF CHECK_ok [OF rd]], assumption, simp add: chars_def, assumption,
        rule run_ok_bind [OF CHECK_MEMEQ_ok [OF rd]], assumption, simp add: chars_def,
        simp add: read_put_bytes [of "unat lba * ss" "pattern (unat len) _", simplified], simp,
        rule run_ok_bind [OF b_kfree_ok [OF rd]], assumption, rule b_kfree_sound [OF rd])
qed

lemma unaligned_round_ok:
  assumes rd: "suite_ready img dev hp st" and "sound img st n b" and "sec = logical_sector_size (current_disk st)"
    and len: "unat len \<le> 5 * unat sec" and lba: "unat lba \<le> 8187"
  shows "run_ok (unaligned_round dev hp sec (i, lba, len) b) (sound img st n)"
proof -
  obtain m where b: "calm img st m n b" using assms(2) by (auto simp: sound_def)
  define ss where "ss = unat (logical_sector_size (current_disk st))"
  define pre where "pre = 4 * sec"
  have pre: "unat pre \<le> 5 * ss" using sector_sizes [OF rd b] by (auto simp: pre_def ss_def assms(3))
  note len = len [unfolded assms(3), folded ss_def]
  show ?thesis
    unfolding unaligned_round_def prod.case Let_def CHECK_EQ_def pre_def [symmetric]
    by (rule run_ok_bind3 [OF b_kmalloc_ok [OF rd b]], erule conjE,
        rule run_ok_bind [OF memset_ok], assumption,
        rule run_ok_bind2 [OF b_disk_write_ok [OF rd _ ss_def _ pre lba]], assumption, simp, erule conjE,
        rule run_ok_bind [OF b_kfree_ok [OF rd]], assumption,
        rule run_ok_bind3 [OF b_kmalloc_ok [OF rd]], assumption, erule conjE,
        rule run_ok_bind3 [OF b_kmalloc_ok [OF rd]], assumption, erule conjE,
        rule run_ok_bind [OF fill_pattern_ok], assumption,
        rule run_ok_bind [OF memset_ok], assumption,
        rule run_ok_bind2 [OF b_disk_write_ok [OF rd _ ss_def _ len lba]], assumption, simp, erule conjE,
        rule run_ok_bind [OF CHECK_ok [OF rd]], assumption, simp add: chars_def, assumption,
        rule run_ok_bind3 [OF b_disk_read_ok [OF rd _ ss_def _ len lba]], assumption, simp, (erule conjE)+,
        rule run_ok_bind [OF CHECK_ok [OF rd]], assumption, simp add: chars_def, assumption,
        rule run_ok_bind [OF CHECK_MEMEQ_ok [OF rd]], assumption, simp add: chars_def,
        simp add: read_put_bytes [of "unat lba * ss" "pattern (unat len) _", simplified], simp,
        rule run_ok_bind [OF b_kfree_ok [OF rd]], assumption, rule b_kfree_sound [OF rd])
qed

lemma test_disk_wrapper_unaligned_sizes_ok:
  assumes "suite_ready img dev hp st" and "sound img st n b"
  shows "run_ok (test_disk_wrapper_unaligned_sizes dev hp b) (sound img st n)"
proof -
  obtain m where m: "calm img st m n b" using assms(2) by (auto simp: sound_def)
  define sec where "sec = logical_sector_size (current_disk st)"
  have sec: "sec = 512 \<or> sec = 4096" using sector_sizes(2) [OF assms(1) m] by (simp add: sec_def)
  show ?thesis
    unfolding test_disk_wrapper_unaligned_sizes_def Let_def sector_sizes(1) [OF assms(1) m] sec_def [symmetric]
  proof (rule each_ok)
    fix x :: "u32 \<times> u32 \<times> u32" and b :: "'a bench"
    assume x: "x \<in> set [(0, LBA_BASE + 1200, 1), (1, LBA_BASE + 1300, sec - 1), (2, LBA_BASE + 1400, sec + 1),
        (3, LBA_BASE + 1500, 3 * sec + 123)]" and b: "sound img st n b"
    obtain i lba len where e: "x = (i, lba, len)" by (cases x)
    have "unat len \<le> 5 * unat sec" "unat lba \<le> 8187" using x sec by (auto simp: e LBA_BASE_def)
    from unaligned_round_ok [OF assms(1) b sec_def this] show "run_ok (unaligned_round dev hp sec x b) (sound img st n)"
      by (simp only: e)
  qed (fact assms(2))
qed

text \<open>Transfers past the end of the disk are refused before any port is touched.\<close>

lemma oob_refused:
  assumes "suite_ready img dev hp st" and "calm img st m n b"
  shows "run_ok (b_ata_read dev 0x0FFFFFF0 0x10 buf b) (\<lambda>(ok, r, b'). \<not> ok \<and> calm img st m n b')"
    and "run_ok (b_ata_write dev 0x0FFFFFF0 0x10 buf b) (\<lambda>(ok, b'). \<not> ok \<and> calm img st m n b')"
proof -
  have "\<not> transfer_allowed (b_ata b) 0 0x0FFFFFF0 0x10"
    using assms unfolding transfer_allowed_iff by (auto simp: calm_def suite_ready_def current_disk_def)
  with assms(2) show "run_ok (b_ata_read dev 0x0FFFFFF0 0x10 buf b) (\<lambda>(ok, r, b'). \<not> ok \<and> calm img st m n b')"
      "run_ok (b_ata_write dev 0x0FFFFFF0 0x10 buf b) (\<lambda>(ok, b'). \<not> ok \<and> calm img st m n b')"
    by (simp_all add: b_ata_read_def b_ata_write_def ata_read_sectors_def ata_write_sectors_def calm_def)
qed

lemma test_ata_oob_guard_ok:
  assumes rd: "suite_ready img dev hp st" and "sound img st n b"
  shows "run_ok (test_ata_oob_guard dev hp b) (sound img st n)"
proof -
  obtain m where b: "calm img st m n b" using assms(2) by (auto simp: sound_def)
  show ?thesis
    unfolding test_ata_oob_guard_def Let_def
    by (rule run_ok_bind3 [OF b_kmalloc_ok [OF rd b]], erule conjE,
        rule run_ok_bind [OF memset_ok], assumption,
        rule run_ok_bind3 [OF oob_refused(1) [OF rd]], assumption, erule conjE,
        rule run_ok_bind [OF CHECK_ok [OF rd]], assumption, simp add: chars_def, assumption,
        rule run_ok_bind2 [OF oob_refused(2) [OF rd]], assumption, erule conjE,
        rule run_ok_bind [OF CHECK_ok [OF rd]], assumption, simp add: chars_def, assumption,
        rule b_kfree_sound [OF rd])
qed

lemma switch_calm:
  assumes "suite_ready img dev hp st" and "calm img st m n b" and "disk_num \<in> {0, 3}"
  shows "b_switch_disk disk_num b = b"
  using assms by (auto simp: b_switch_disk_def switch_disk_def suite_ready_def calm_def)

lemma test_switches_ok:
  assumes "suite_ready img dev hp st" and "sound img st n b"
  shows "run_ok (test_switch_disk_invalid dev b) (sound img st n)" "run_ok (test_disk_basic_info dev b) (sound img st n)"
proof -
  obtain m where b: "calm img st m n b" using assms(2) by (auto simp: sound_def)
  show "run_ok (test_switch_disk_invalid dev b) (sound img st n)"
    unfolding test_switch_disk_invalid_def Let_def CHECK_EQ_def switch_calm [OF assms(1) b, of 3, simplified]
    using b by (rule CHECK_sound [OF assms(1)]) (simp_all add: chars_def)
  show "run_ok (test_disk_basic_info dev b) (sound img st n)"
    unfolding test_disk_basic_info_def Let_def switch_calm [OF assms(1) b, of 0, simplified]
    using b by (rule CHECK_sound [OF assms(1)]) (use sector_sizes [OF assms(1) b] in \<open>auto simp: chars_def\<close>)
qed

section \<open>The slot allocator\<close>

text \<open>Output does not look at the slots: a line may be printed while the tests hold some.\<close>

lemma put_line_slots: "put_line dev tag msg (b\<lparr>b_slots := s\<rparr>) = bind_run (put_line dev tag msg b) (\<lambda>b'. Inr (b'\<lparr>b_slots := s\<rparr>))"
  by (simp add: put_line_def b_print_def b_serial_def bind_run_def split: sum.split)

lemma CHECK_keeps_slots:
  assumes "suite_ready img dev hp st" and "calm img st m n b" and "0 \<notin> set (chars msg)"
  shows "\<exists>b1. CHECK dev True msg (b\<lparr>b_slots := s\<rparr>) = Inr (b1\<lparr>b_slots := s\<rparr>) \<and> calm img st m n b1"
  using CHECK_ok [OF assms(1-3), of True] by (auto simp: CHECK_def put_line_slots run_ok_def)

lemma used_slots_below: "used_slots s \<subseteq> {..< 800000}"
  by (auto simp: in_used_slots)

lemma disk_alloc_slot_ok:
  assumes "slots_inv s" and "card (used_slots s) < 800000"
  shows "run_ok (disk_alloc_slot s) (\<lambda>(slot, s'). (slot \<noteq> DISK_NO_SLOT_AVAILABLE \<and> unat slot < 800000 \<and> unat slot \<notin> used_slots s)
     \<and> slots_inv s' \<and> used_slots s' = insert (unat slot) (used_slots s))"
proof -
  obtain x where "x < 800000" "x \<notin> used_slots s"
    using assms(2) used_slots_below [of s] by (metis card_lessThan lessThan_iff less_irrefl subsetI subset_antisym)
  then have x: "free_run s 1 x" by (simp add: free_run_def DISK_BITMAP_SIZE_def)
  obtain slot s' where r: "disk_alloc_slots 1 s = Inr (slot, s')" "slots_inv s'" "slot \<noteq> DISK_NO_SLOT_AVAILABLE"
      "used_slots s' = {unat slot ..< unat slot + 1} \<union> used_slots s" "free_run s 1 (unat slot)"
    using disk_alloc_slots_search [OF assms(1), of 1] x by (auto simp: first_run_def split: if_splits)
  then show ?thesis by (auto simp: disk_alloc_slot_def free_run_def DISK_BITMAP_SIZE_def)
qed

lemma disk_free_slot_ok:
  assumes "slots_inv s" and "unat slot < 800000"
  shows "run_ok (disk_free_slot slot s) (\<lambda>s'. slots_inv s' \<and> used_slots s' = used_slots s - {unat slot})"
proof -
  obtain s' where "disk_mark_free slot s = Inr s'" "used_slots s' = used_slots s - {unat slot}"
      "disk_last_alloc_index s' = disk_last_alloc_index s"
    using disk_mark_free_in_range [OF assms(2)] by blast
  with assms(1) show ?thesis by (simp add: disk_free_slot_def slots_inv_def)
qed

text \<open>\<open>n\<close> slots that were free are appended to the array and used.\<close>

definition grabbed :: "nat \<Rightarrow> u32 list \<Rightarrow> slot_state \<Rightarrow> u32 list \<Rightarrow> slot_state \<Rightarrow> bool" where
  "grabbed n taken s taken' s' \<longleftrightarrow> slots_inv s' \<and> (\<exists>new. taken' = taken @ new \<and> length new = n
     \<and> (\<forall>x \<in> set new. unat x < 800000) \<and> used_slots s' = unat ` set new \<union> used_slots s \<and> unat ` set new \<inter> used_slots s = {})"

lemma grabbed_Suc:
  assumes "grabbed n (taken @ [slot]) s1 taken' s'" and "unat slot < 800000" and "unat slot \<notin> used_slots s"
    and "used_slots s1 = insert (unat slot) (used_slots s)"
  shows "grabbed (Suc n) taken s taken' s'"
proof -
  obtain new where "slots_inv s'" "taken' = (taken @ [slot]) @ new" "length new = n" "\<forall>x \<in> set new. unat x < 800000"
      "used_slots s' = unat ` set new \<union> used_slots s1" "unat ` set new \<inter> used_slots s1 = {}"
    using assms(1) unfolding grabbed_def by blast
  then show ?thesis using assms(2-4) unfolding grabbed_def by (intro conjI exI [of _ "slot # new"]) auto
qed

lemma alloc_slots_loop_ok:
  assumes "slots_inv s" and "card (used_slots s) + n \<le> 800000"
  shows "run_ok (alloc_slots_loop n taken s) (\<lambda>(ok, taken', s'). ok \<and> grabbed n taken s taken' s')"
  using assms
proof (induction n arbitrary: taken s)
  case (Suc n)
  show ?case
    unfolding alloc_slots_loop.simps
  proof (rule run_ok_bind2 [OF disk_alloc_slot_ok])
    show "slots_inv s" "card (used_slots s) < 800000" using Suc.prems by simp_all
    fix slot s1
    assume a: "(slot \<noteq> DISK_NO_SLOT_AVAILABLE \<and> unat slot < 800000 \<and> unat slot \<notin> used_slots s)
      \<and> slots_inv s1 \<and> used_slots s1 = insert (unat slot) (used_slots s)"
    have "finite (used_slots s)" using used_slots_below [of s] by (rule finite_subset) simp
    then have c: "card (used_slots s1) + n \<le> 800000" using a Suc.prems(2) by simp
    have "run_ok (alloc_slots_loop n (taken @ [slot]) s1) (\<lambda>(ok, taken', s'). ok \<and> grabbed (Suc n) taken s taken' s')"
      using a by (intro run_ok_mono [OF Suc.IH [OF _ c]]) (auto intro: grabbed_Suc)
    with a show "run_ok (if slot = DISK_NO_SLOT_AVAILABLE then Inr (False, taken @ [slot], s1) else alloc_slots_loop n (taken @ [slot]) s1)
       (\<lambda>(ok, taken', s'). ok \<and> grabbed (Suc n) taken s taken' s')" by simp
  qed
qed (simp add: grabbed_def)

lemma free_slots_loop_ok:
  assumes "slots_inv s" and "\<forall>x \<in> set taken. unat x < 800000"
  shows "run_ok (free_slots_loop (length taken) taken s) (\<lambda>s'. slots_inv s' \<and> used_slots s' = used_slots s - unat ` set taken)"
  using assms
proof (induction taken arbitrary: s)
  case (Cons x taken)
  then have x: "unat x < 800000" by simp
  show ?case
    unfolding free_slots_loop.simps length_Cons
    by (rule run_ok_bind [OF disk_free_slot_ok [OF Cons.prems(1) x]], rule run_ok_mono [OF Cons.IH])
      (use Cons.prems(2) in auto)
qed simp

lemma reuse_slots_loop_ok:
  assumes "slots_inv s" and "card (used_slots s) < 800000"
  shows "run_ok (reuse_slots_loop n s) (\<lambda>(ok, s'). ok \<and> slots_inv s' \<and> used_slots s' = used_slots s)"
  using assms
proof (induction n arbitrary: s)
  case (Suc n)
  show ?case
    unfolding reuse_slots_loop.simps
  proof (rule run_ok_bind2 [OF disk_alloc_slot_ok [OF Suc.prems]])
    fix slot s1
    assume a: "(slot \<noteq> DISK_NO_SLOT_AVAILABLE \<and> unat slot < 800000 \<and> unat slot \<notin> used_slots s)
      \<and> slots_inv s1 \<and> used_slots s1 = insert (unat slot) (used_slots s)"
    have "run_ok (bind_run (disk_free_slot slot s1) (reuse_slots_loop n)) (\<lambda>(ok, s'). ok \<and> slots_inv s' \<and> used_slots s' = used_slots s)"
      by (rule run_ok_bind [OF disk_free_slot_ok], use a in blast, use a in blast, rule run_ok_mono [OF Suc.IH])
        (use a Suc.prems(2) in auto)
    with a show "run_ok (if slot = DISK_NO_SLOT_AVAILABLE then Inr (False, s1) else bind_run (disk_free_slot slot s1) (reuse_slots_loop n))
        (\<lambda>(ok, s'). ok \<and> slots_inv s' \<and> used_slots s' = used_slots s)" by simp
  qed
qed simp

lemma test_slot_allocator_small_ok:
  assumes rd: "suite_ready img dev hp st" and "sound img st n b"
  shows "run_ok (test_slot_allocator_small dev b) (sound img st n)"
proof -
  obtain m where b: "calm img st m n b" using assms(2) by (auto simp: sound_def)
  have s: "slots_inv (b_slots b)" "card (used_slots (b_slots b)) + 8 \<le> 800000" using b by (simp_all add: calm_def)
  obtain taken s1 where al: "alloc_slots_loop 8 [] (b_slots b) = Inr (True, taken, s1)" "grabbed 8 [] (b_slots b) taken s1"
    using alloc_slots_loop_ok [OF s, of "[]"] by (auto simp: run_ok_def)
  then have g: "slots_inv s1" "length taken = 8" "\<forall>x \<in> set taken. unat x < 800000" "used_slots s1 - unat ` set taken = used_slots (b_slots b)"
    by (auto simp: grabbed_def)
  obtain s2 where fr: "free_slots_loop 8 taken s1 = Inr s2" "slots_inv s2" "used_slots s2 = used_slots (b_slots b)"
    using free_slots_loop_ok [OF g(1,3)] g(2,4) by (auto simp: run_ok_def)
  obtain s3 where re: "reuse_slots_loop 8 s2 = Inr (True, s3)" "slots_inv s3" "used_slots s3 = used_slots (b_slots b)"
    using reuse_slots_loop_ok [OF fr(2), of 8] s(2) fr(3) by (auto simp: run_ok_def)
  obtain b1 where b1: "CHECK dev True ''disk_alloc_slot x8 ok'' (b\<lparr>b_slots := s1\<rparr>) = Inr b1" "b_slots b1 = s1"
      "calm img st m n (b1\<lparr>b_slots := s3\<rparr>)"
    using CHECK_keeps_slots [OF rd b, of "''disk_alloc_slot x8 ok''" s1] re(2,3) b by (auto simp: calm_def chars_def)
  have "test_slot_allocator_small dev b = CHECK dev True ''disk_free_slot -> slots reusable'' (b1\<lparr>b_slots := s3\<rparr>)"
    using al(1) b1(1,2) fr(1) re(1) by (simp add: test_slot_allocator_small_def)
  then show ?thesis using CHECK_sound [OF rd b1(3)] by (simp add: chars_def)
qed

section \<open>Overlapping writes\<close>

lemma read_two:
  assumes "d \<le> length w1"
  shows "map (put_bytes (a + d) w2 (put_bytes a w1 m)) [a ..< a + (d + length w2)] = take d w1 @ w2"
  using assms by (auto intro!: nth_equalityI simp: put_bytes_def nth_append)

lemma memcpy_ok:
  "length s = unat k \<Longrightarrow> off + unat k \<le> length d \<Longrightarrow> run_ok (memcpy d off s k) (\<lambda>d'. d' = take off d @ s @ drop (off + unat k) d)"
  by (simp add: memcpy_spec)

lemma test_interleaved_writes_reads_small_ok:
  assumes rd: "suite_ready img dev hp st" and "sound img st n b"
  shows "run_ok (test_interleaved_writes_reads_small dev hp b) (sound img st n)"
proof -
  obtain m where b: "calm img st m n b" using assms(2) by (auto simp: sound_def)
  define sec where "sec = b_sector_size b"
  define ss where "ss = unat (logical_sector_size (current_disk st))"
  define lba where "lba = LBA_BASE + 3000"
  define len1 where "len1 = 2 * sec + 17"
  define len2 where "len2 = 3 * sec + 9"
  define total where "total = 1 * sec + len2"
  have sec: "sec = 512 \<or> sec = 4096" "unat (1 * sec) = ss" using sector_sizes [OF rd b] by (auto simp: sec_def ss_def)
  have lba: "unat lba \<le> 8187" "unat (lba + 1) \<le> 8187" "unat (lba + 1) * ss = unat lba * ss + ss"
    by (simp_all add: lba_def LBA_BASE_def distrib_right)
  have len: "unat len1 \<le> 5 * ss" "unat len2 \<le> 5 * ss" "unat total \<le> 5 * ss" "ss \<le> unat len1" "unat len1 \<le> unat total" "unat total = ss + unat len2"
      "(if total < len1 then total else len1) = len1"
    using sec by (auto simp: total_def len1_def len2_def)
  have ps: "ss - unat len1 = 0" "unat len1 \<le> ss + unat len2" using len(4-6) by simp_all
  show ?thesis
    unfolding test_interleaved_writes_reads_small_def Let_def CHECK_EQ_def sec_def [symmetric] lba_def [symmetric]
      len1_def [symmetric] len2_def [symmetric] total_def [symmetric] len(7) sec(2)
    by (rule run_ok_bind3 [OF b_kmalloc_ok [OF rd b]], erule conjE,
        rule run_ok_bind [OF fill_pattern_ok], assumption,
        rule run_ok_bind2 [OF b_disk_write_ok [OF rd _ ss_def _ len(1) lba(1)]], assumption, simp, erule conjE,
        rule run_ok_bind [OF CHECK_ok [OF rd]], assumption, simp add: chars_def, assumption,
        rule run_ok_bind [OF b_kfree_ok [OF rd]], assumption,
        rule run_ok_bind3 [OF b_kmalloc_ok [OF rd]], assumption, erule conjE,
        rule run_ok_bind [OF fill_pattern_ok], assumption,
        rule run_ok_bind2 [OF b_disk_write_ok [OF rd _ ss_def _ len(2) lba(2)]], assumption, simp, erule conjE,
        rule run_ok_bind [OF CHECK_ok [OF rd]], assumption, simp add: chars_def, assumption,
        rule run_ok_bind3 [OF b_kmalloc_ok [OF rd]], assumption, erule conjE,
        rule run_ok_bind3 [OF b_disk_read_ok [OF rd _ ss_def _ len(3) lba(1)]], assumption, simp, (erule conjE)+,
        rule run_ok_bind [OF CHECK_ok [OF rd]], assumption, simp add: chars_def, assumption,
        rule run_ok_bind3 [OF b_kmalloc_ok [OF rd]], assumption, erule conjE,
        rule run_ok_bind [OF memset_ok], assumption,
        rule run_ok_bind3 [OF b_kmalloc_ok [OF rd]], assumption, erule conjE,
        rule run_ok_bind [OF fill_pattern_ok], assumption,
        rule run_ok_bind [OF memcpy_ok], simp, simp add: len(5),
        rule run_ok_bind [OF b_kfree_ok [OF rd]], assumption,
        rule run_ok_bind [OF memcpy_ok], simp, simp add: len(5,6),
        rule run_ok_bind [OF CHECK_MEMEQ_ok [OF rd]], assumption, simp add: chars_def,
        simp add: len(5,6) lba(3) read_two [of ss "pattern (unat len1) _" _ "pattern (unat len2) _", simplified, OF len(4)] ps, simp add: len(4,6) ps min_absorb2,
        rule run_ok_bind [OF b_kfree_ok [OF rd]], assumption,
        rule run_ok_bind [OF b_kfree_ok [OF rd]], assumption, rule b_kfree_sound [OF rd])
qed

section \<open>The suite\<close>

lemma RUN_sound:
  assumes "suite_ready img dev hp st" and "sound img st n b" and "0 \<notin> set (chars tn)"
    and "\<And>b. sound img st (n + 1) b \<Longrightarrow> run_ok (testfn b) (sound img st (n + 1))"
  shows "run_ok (RUN dev tn testfn b) (sound img st (n + 1))"
proof -
  obtain m where "calm img st m n b" using assms(2) by (auto simp: sound_def)
  from RUN_ok [OF assms(1) this assms(3)] show ?thesis using assms(4) unfolding sound_def by blast
qed

lemma b_serial_sound:
  assumes "suite_ready img dev hp st" and "sound img st n b" and "t = s @ [0]" and "0 \<notin> set s"
  shows "run_ok (b_serial dev t b) (sound img st n)"
proof -
  obtain m where "calm img st m n b" using assms(2) by (auto simp: sound_def)
  then show ?thesis unfolding assms(3) by (rule run_ok_mono [OF b_serial_ok [OF assms(1) _ assms(4)]]) (auto simp: sound_def)
qed

lemma b_print_sound:
  assumes "sound img st n b" and "prints f str"
  shows "run_ok (b_print f b) (sound img st n)"
proof -
  obtain m where "calm img st m n b" using assms(1) by (auto simp: sound_def)
  then show ?thesis by (rule run_ok_mono [OF b_print_ok [OF _ assms(2)]]) (auto simp: sound_def)
qed

lemma prints_summary:
  assumes "v \<noteq> 0x80000000" and "u \<noteq> 0x80000000"
  shows "prints (printf (\<lambda>_. ascii ''PASSED'') (10 # chars ''=== DISK DRIVER TESTS: %s (%d failed of %d) ==='' @ [10, 0])
       (word_bytes 0 @ word_bytes v @ word_bytes u))
     (10 # chars ''=== DISK DRIVER TESTS: PASSED ('' @ dec_int (sint v) @ chars '' failed of '' @ dec_int (sint u) @ chars '') ==='' @ [10])"
proof -
  let ?ps = "map Lit (10 # chars ''=== DISK DRIVER TESTS: '') @ Conv (Arg_str 0 (chars ''PASSED'')) # map Lit (chars '' ('')
    @ Conv (Arg_int v) # map Lit (chars '' failed of '') @ Conv (Arg_int u) # map Lit (chars '') ==='' @ [10])"
  have f: "10 # chars ''=== DISK DRIVER TESTS: %s (%d failed of %d) ==='' @ [10] = concat (map piece_format ?ps)"
      "word_bytes 0 @ word_bytes v @ word_bytes u = concat (map piece_args ?ps)"
      "10 # chars ''=== DISK DRIVER TESTS: PASSED ('' @ dec_int (sint v) @ chars '' failed of '' @ dec_int (sint u) @ chars '') ==='' @ [10]
         = concat (map piece_text ?ps)"
    by (simp_all add: chars_def)
  have "holds_str ((10 # chars ''=== DISK DRIVER TESTS: %s (%d failed of %d) ==='' @ [10]) @ [0]) (concat (map piece_format ?ps))"
    unfolding f(1) [symmetric] by (rule holds_str_append) (simp add: chars_def)
  then have h: "holds_str (10 # chars ''=== DISK DRIVER TESTS: %s (%d failed of %d) ==='' @ [10, 0]) (concat (map piece_format ?ps))"
    by (simp only: append_Cons append_assoc append_Nil)
  have "list_all (piece_ok (\<lambda>_. ascii ''PASSED'')) ?ps"
    using assms by (simp add: chars_def holds_str_def ascii_def)
  from prints_printf [OF h this] show ?thesis by (simp only: f(2,3))
qed

text \<open>The state the suite starts from: the counters are zero, the screen is legible, eight slots are free.\<close>

definition suite_start :: "'h bench \<Rightarrow> bool" where
  "suite_start b \<longleftrightarrow> g_failures b = 0 \<and> g_tests_run b = 0 \<and> legible (b_screen b)
     \<and> slots_inv (b_slots b) \<and> card (used_slots (b_slots b)) + 8 \<le> 800000"

text \<open>What follows the last test.\<close>

lemma report_results_ok:
  assumes "suite_ready img dev hp st" and "sound img st 9 b"
  shows "run_ok (report_results dev b) (\<lambda>b'. g_failures b' = 0 \<and> g_tests_run b' = 9 \<and> (\<exists>io. b_io b' = Out8 0xF4 0x10 # io))"
proof -
  have f: "g_failures b = 0" "g_tests_run b = 9" using assms(2) by (auto simp: sound_def calm_def)
  have p: "prints (printf (\<lambda>_. ascii ''PASSED'') (10 # chars ''=== DISK DRIVER TESTS: %s (%d failed of %d) ==='' @ [10, 0])
         (word_bytes 0 @ word_bytes (of_int 0) @ word_bytes (of_int 9)))
      (10 # chars ''=== DISK DRIVER TESTS: PASSED ('' @ dec_int (sint (of_int 0 :: u32)) @ chars '' failed of '' @ dec_int (sint (of_int 9 :: u32))
        @ chars '') ==='' @ [10])"
    by (rule prints_summary) simp_all
  show ?thesis
    unfolding report_results_def Let_def f simp_thms if_False
    by (rule run_ok_bind [OF b_print_sound [OF assms(2) p]],
        rule run_ok_bind [OF b_serial_sound [OF assms(1), of _ _ _ "10 # chars ''=== DISK DRIVER TESTS: ''"]], assumption,
        simp add: ascii_def, simp add: chars_def,
        rule run_ok_bind [OF b_serial_sound [OF assms(1), of _ _ _ "chars ''PASSED''"]], assumption, simp add: ascii_def, simp add: chars_def,
        rule run_ok_bind [OF b_serial_sound [OF assms(1), of _ _ _ "chars '' ==='' @ [10]"]], assumption, simp, simp add: chars_def)
      (auto simp: sound_def calm_def qemu_exit_pass_def qemu_exit_code_def outb_def)
qed

lemma all_tests_ok:
  assumes rd: "suite_ready img dev hp st" and "sound img st 0 b"
  shows "run_ok (all_tests dev hp b) (sound img st 9)"
proof -
  have run: "run_ok (RUN dev tn f b) (sound img st k)"
    if "sound img st n b" "0 \<notin> set (chars tn)" "k = n + 1" "\<And>n b. sound img st n b \<Longrightarrow> run_ok (f b) (sound img st n)"
    for tn f and b :: "'a bench" and n k
    unfolding that(3) by (rule RUN_sound [OF rd that(1,2,4)])
  show ?thesis
    unfolding all_tests_def
    by (rule run_ok_bind [OF run [OF assms(2), where k = 1]], simp add: chars_def, simp, rule test_switches_ok(2) [OF rd], assumption,
        rule run_ok_bind [OF run [where k = 2]], assumption, simp add: chars_def, simp, rule test_ata_read_write_small_counts_ok [OF rd], assumption,
        rule run_ok_bind [OF run [where k = 3]], assumption, simp add: chars_def, simp, rule test_disk_zero_length_rw_ok [OF rd], assumption,
        rule run_ok_bind [OF run [where k = 4]], assumption, simp add: chars_def, simp, rule test_disk_wrapper_exact_small_ok [OF rd], assumption,
        rule run_ok_bind [OF run [where k = 5]], assumption, simp add: chars_def, simp, rule test_disk_wrapper_unaligned_sizes_ok [OF rd], assumption,
        rule run_ok_bind [OF run [where k = 6]], assumption, simp add: chars_def, simp, rule test_ata_oob_guard_ok [OF rd], assumption,
        rule run_ok_bind [OF run [where k = 7]], assumption, simp add: chars_def, simp, rule test_switches_ok(1) [OF rd], assumption,
        rule run_ok_bind [OF run [where k = 8]], assumption, simp add: chars_def, simp, rule test_slot_allocator_small_ok [OF rd], assumption,
        rule run, assumption, simp add: chars_def, simp, rule test_interleaved_writes_reads_small_ok [OF rd])
qed

text \<open>The two lines printed before \<open>switch_disk(0)\<close> do not depend on the current disk.\<close>

lemma output_before_switch:
  "bind_run (b_serial dev t b) (\<lambda>b. bind_run (b_print f b) (\<lambda>b. k (b_switch_disk d b))) =
     bind_run (b_serial dev t (b_switch_disk d b)) (\<lambda>b. bind_run (b_print f b) k)"
  by (cases b) (simp add: b_serial_def b_print_def b_switch_disk_def bind_run_def split: sum.split)


text \<open>A machine with one drive of 8192 sectors.\<close>

definition bench_disks :: ata where
  "bench_disks = \<lparr>disks = [disk_static\<lparr>capabilities := (0x200, 0), total_sectors := 8192, logical_sector_size := 512,
     base_io_port := 0x1F0, valid := True\<rparr>, disk_static, disk_static, disk_static], curr_disk = 0\<rparr>"

definition first_bench :: "unit bench" where
  "first_bench = \<lparr>g_failures = 0, g_tests_run = 0, b_ata = bench_disks, b_slots = slots_static,
     b_screen = screen_boot (replicate 2000 EMPTY_LETTER), b_io = [], b_heap = ()\<rparr>"


end
