(* ===== verification/Vmm_Tlb.thy ===== *)
theory Vmm_Tlb
  imports Vmm_Fault
begin

text \<open>
  The translation cache of the processor and the instructions of memory/vmm.c that concern it. The processor may keep
  the translation of any page it has walked and uses it without looking at the page tables again; it does not keep
  absent pages. The operations of the other theories walk the tables; here they are paired with the cache.
\<close>

section \<open>The cache\<close>

text \<open>From page addresses to frame addresses.\<close>

type_synonym tlb = "u32 \<rightharpoonup> u32"

definition tlb_translate :: "tlb \<Rightarrow> 'h vmm \<Rightarrow> u32 \<Rightarrow> u32 option" where
  "tlb_translate t s v = (case t (get_frame_addr v) of Some p \<Rightarrow> Some (p + get_frame_offset v) | None \<Rightarrow> translate s v)"

text \<open>What an access may add.\<close>

definition tlb_fill :: "u32 \<Rightarrow> 'h vmm \<Rightarrow> tlb \<Rightarrow> tlb" where
  "tlb_fill v s t = (case translate s (get_frame_addr v) of Some p \<Rightarrow> t(get_frame_addr v \<mapsto> p) | None \<Rightarrow> t)"

text \<open>\<open>invlpg\<close>, a reload of \<open>cr3\<close> with its own value, and with a new directory.\<close>

definition flush_page :: "u32 \<Rightarrow> tlb \<Rightarrow> tlb" where
  "flush_page vir_addr t = t(get_frame_addr vir_addr := None)"

definition flush_tlb :: "tlb \<Rightarrow> tlb" where
  "flush_tlb t = Map.empty"

definition load_page_dir :: "u32 \<Rightarrow> tlb \<times> 'h vmm \<Rightarrow> tlb \<times> 'h vmm" where
  "load_page_dir page_dir_addr = (\<lambda>(t, s). (Map.empty, s\<lparr>cr3 := page_dir_addr\<rparr>))"

text \<open>\<open>vmm_switch_vm_context\<close> with the reload, \<open>vmm_unmap_page\<close> and \<open>vmm_swap_out_page\<close> with the invalidation they end with.\<close>

definition switch_and_load :: "u32 \<Rightarrow> tlb \<Rightarrow> 'h vmm \<Rightarrow> (tlb \<times> 'h vmm) run" where
  "switch_and_load vm_context t s = bind_run (vmm_switch_vm_context vm_context s) (\<lambda>s. Inr (load_page_dir (cr3 s) (t, s)))"

definition unmap_and_flush :: "'h services \<Rightarrow> u32 \<Rightarrow> tlb \<Rightarrow> 'h vmm \<Rightarrow> (tlb \<times> 'h vmm) run" where
  "unmap_and_flush sv vir_addr t s = bind_run (vmm_unmap_page sv vir_addr s) (\<lambda>s. Inr (flush_page vir_addr t, s))"

definition swap_out_and_flush :: "'h services \<Rightarrow> u32 \<Rightarrow> tlb \<Rightarrow> 'h vmm \<Rightarrow> (bool \<times> tlb \<times> 'h vmm) run" where
  "swap_out_and_flush sv vir_addr t s =
     bind_run (vmm_swap_out_page sv vir_addr s) (\<lambda>(ok, s). Inr (ok, if ok then flush_page vir_addr t else t, s))"

section \<open>Coherence\<close>

definition coherent :: "tlb \<Rightarrow> 'h vmm \<Rightarrow> bool" where
  "coherent t s \<longleftrightarrow> (\<forall>v p. t (get_frame_addr v) = Some p \<longrightarrow> translate s v = Some (p + get_frame_offset v))"

lemma coherent_translate: "coherent t s \<Longrightarrow> tlb_translate t s v = translate s v"
  by (auto simp: coherent_def tlb_translate_def split: option.splits)

lemma coherent_empty [simp]: "coherent Map.empty s"
  by (simp add: coherent_def)

lemma offset_of_frame [simp]: "get_frame_offset (get_frame_addr v) = 0"
  by (rule bit_word_eqI) (simp add: bit_frame_offset bit_get_frame_addr)

lemma coherent_fill:
  assumes "coherent t s" and "paging_enabled s" and "aligned (cr3 s)"
  shows "coherent (tlb_fill v s t) s"
proof -
  have "translate s v' = Some (p + get_frame_offset v')" if "translate s (get_frame_addr v) = Some p" "get_frame_addr v' = get_frame_addr v" for v' p
  proof -
    have "get_frame_addr v' = get_frame_addr (get_frame_addr v)" using that(2) by simp
    then have "get_directory_index v' = get_directory_index (get_frame_addr v)" "get_table_index v' = get_table_index (get_frame_addr v)"
      unfolding same_page_iff by simp_all
    with that(1) show ?thesis by (auto simp: translate_eq [OF assms(2,3)] Let_def split: if_splits)
  qed
  with assms(1) show ?thesis by (auto simp: coherent_def tlb_fill_def split: option.splits)
qed

lemma coherent_flush:
  assumes "coherent t s" and "\<And>v'. get_frame_addr v' \<noteq> get_frame_addr v \<Longrightarrow> translate s' v' = translate s v'"
  shows "coherent (flush_page v t) s'"
  using assms by (simp add: coherent_def flush_page_def)

lemma switch_coherent: "switch_and_load vm_context t s = Inr (t', s') \<Longrightarrow> coherent t' s' \<and> vmm_switch_vm_context vm_context s = Inr s'"
  by (auto simp: switch_and_load_def load_page_dir_def)

text \<open>A change that only adds translations needs no invalidation.\<close>

lemma coherent_extend:
  assumes "coherent t s" and "\<And>v'. translate s v' \<noteq> None \<Longrightarrow> translate s' v' = translate s v'"
  shows "coherent t s'"
  using assms by (metis coherent_def option.distinct(1))

section \<open>Unmapping\<close>

lemma unmap_page_window:
  assumes "mappable s v" and "\<not> is_swapped (pde s (get_directory_index v))" and "is_page_present (mem s (pte_addr s v))"
    and "pmm_free_frame (get_frame_addr (mem s (pte_addr s v))) (pmm s) = Inr p"
  shows "vmm_unmap_page sv v s = Inr (set_pte v 0 (s\<lparr>pmm := p\<rparr>))"
proof -
  let ?e = "entry_addr (get_page_table_vir_addr (get_directory_index v)) (get_table_index v)"
  have ok: "vm_ok s" "is_page_present (pde s (get_directory_index v))" "current_directory s \<noteq> 0"
    using assms(1) by (simp_all add: mappable_def vm_ok_def)
  have m: "mappable (s\<lparr>pmm := p\<rparr>) v" using assms(1) by simp
  have "load ?e s = Inr (mem s (pte_addr s v))" using window_pte [OF assms(1)] by (simp add: load_def)
  moreover have "store ?e 0 (s\<lparr>pmm := p\<rparr>) = Inr (set_pte v 0 (s\<lparr>pmm := p\<rparr>))"
    using window_pte [OF m] by (simp add: store_def set_pte_def)
  ultimately show ?thesis
    using get_page_entry_window [OF ok(1,2) assms(2), of sv] assms(3,4) ok(3)
    by (simp add: vmm_unmap_page_def vmm_release_frame_def)
qed

text \<open>Swapping a page out ends with the same invalidation.\<close>

lemma swap_out_flushes:
  assumes "vmm_swap_out_page sv v s = Inr (True, s')" and "coherent t s"
    and "\<And>v'. get_frame_addr v' \<noteq> get_frame_addr v \<Longrightarrow> translate s' v' = translate s v'"
  shows "\<exists>t'. swap_out_and_flush sv v t s = Inr (True, t', s') \<and> coherent t' s'"
  using assms(1) coherent_flush [OF assms(2,3)] by (simp add: swap_out_and_flush_def)

section \<open>Properties\<close>

text \<open>The page at 0x5000 is in frame 0x9000, and the cache holds it.\<close>

lemma space_with_page_cached: "coherent [0x5000 \<mapsto> 0x9000] space_with_page"
proof -
  have "translate space_with_page v = Some (0x9000 + get_frame_offset v)" if "get_frame_addr v = 0x5000" for v
    using translate_set_pte [OF small_space_mappable, of "0x9003" v] that
    by (simp add: space_with_page_def is_page_present_def PRESENT_def get_frame_addr_def)
  then show ?thesis by (simp add: coherent_def)
qed





end
