(* ===== verification/Spec2Isabelle.thy ===== *)
theory Spec2Isabelle
  imports Large_Run Disk_Tests_Properties Vmm_Tlb
begin

text \<open>
  A verification development for a small i686 kernel: boot, segment and interrupt tables, PIC and PIT,
  keyboard, VGA text screen, an ATA PIO disk driver, a physical frame allocator, paging with demand
  allocation and swapping, a slab heap, processes with a round-robin scheduler, and a shell.

  \<^bold>\<open>The parts and how they interact.\<close> \<open>kernel_main\<close> (kernel.c) fills the descriptor tables, remaps the PIC,
  identifies the disks, then starts the memory managers bottom up: \<open>pmm_init\<close> marks the frames of the image, the
  stack, the heap and the VGA buffer used; \<open>vmm_init\<close> maps the same pages to themselves and turns paging on;
  \<open>init_kmalloc\<close> puts one slab per size class into the heap pages. From then on the shell polls the keyboard's ring,
  which the keyboard interrupt fills; the timer interrupt drives the scheduler; page faults go to the memory
  manager, which takes frames from the frame allocator, queue nodes from the heap and swap slots from the disk.

  \<^bold>\<open>Conventions\<close> (Kernel_Prelude). Machine integers are words of their C width. A call that may not return has the
  type \<open>'a run\<close>, a sum of \<open>halt\<close> and the result: \<open>panic\<close> and failed assertions with their text, accesses outside an
  array or through a dead pointer, traps, and loops that never end are values of \<open>halt\<close>. Arrays are lists or
  functions with the bound checked at each access; static variables are records passed and returned. Code
  that a component calls through another one (kmalloc, kfree, the disk, the context switch) is an argument of
  its definitions, and the theory that models that code supplies it. \<open>run_ok\<close> says that a call returns a result with
  a given property, and its rules follow the sequence of calls. The interfaces are locales: \<open>cell_allocator\<close> (an
  allocator that never hands out a used cell; interpreted by the frame and the slot allocators), \<open>fifo\<close> (a bounded
  queue; interpreted by the keyboard ring) and, in Ata_Properties, \<open>sector_reads\<close> (what the sector commands deliver, from which
  the behaviour of \<open>disk_read\<close> follows; interpreted by a drive that answers and by one that stores).

  \<^bold>\<open>Theories and sources.\<close>
  \<^item> Pmm: memory/pmm.c. Bitmap, last freed frame, next-fit index. \<open>pmm_run\<close> is the step relation of its clients;
    its invariant gives frame ownership, next-fit allocation, and what \<open>pmm_init\<close> reserves.
  \<^item> Disk_Slots: the slot bitmap of drivers/disk.c. Next-fit allocation of runs, release, and their round trip.
  \<^item> Ata, Ata_Properties: the rest of drivers/disk.c. Polling, IDENTIFY, sector transfers, \<open>disk_read\<close> and \<open>disk_write\<close>
    over a history of port accesses with the drive as a parameter. A transfer moves exactly the requested
    sectors, a read of any length fills exactly its bytes, transfers past the end of the disk are refused.
  \<^item> Ata_Drive: a drive with a medium, as a function of the port history. What \<open>disk_write\<close> stores, \<open>disk_read\<close> returns.
  \<^item> Disk_Tests, Disk_Tests_Properties: tests/disk_tests.c, run against that drive. Every check of the suite passes.
  \<^item> CString, Stdlib: std/string.c, memory/utills.c, std/stdlib.c over bounded buffers.
  \<^item> Screen, Stdio: drivers/screen.c, std/stdio.c, errors.c, std/assert.c. The screen shows the last rows of the text
    printed so far; \<open>printf\<close> renders its format.
  \<^item> Ports: drivers/io.h, interupts/pic.c, drivers/pit.c (initialisation), drivers/pci.c as port events.
  \<^item> Keyboard, Shell: drivers/keyboard.c, shell.c. The ring is a queue, the scancode machine is total, and a typed
    line is executed as a reference interpreter says.
  \<^item> Descriptors: gdt.c, interupts/idt.c. Encoded descriptors decode to what was asked for; the registers they are loaded into.
  \<^item> Vmm, Vmm_Properties, Vmm_Init, Vmm_Swap: memory/vmm.c. Page tables are words of physical memory, every access
    goes through the two-level walk. Mapping changes exactly one page's translation; the page queue is first in
    first out; the mutual recursion of page lookup, swap-in and swap-out is bounded by the queue; \<open>vmm_init\<close>.
  \<^item> Vmm_Fault, Vmm_Tlb: \<open>page_fault_handler\<close> on absent and on present pages, and the processor's translation cache with
    the invalidations of memory/vmm.c: they suffice when a page is unmapped and are missing when one is replaced.
  \<^item> Kmalloc, Kmalloc_Properties: memory/kmalloc.c. Slabs are free lists threaded through virtual memory.
  \<^item> Large_Pages, Large_Blocks, Large_Heap: the large blocks of memory/kmalloc.c in the address space the kernel boots
    into. \<open>large_heap k B fl s\<close> relates an abstract list of blocks \<open>B\<close> (record, size, first page, frames) to the doubly
    linked records, the page table and the frame allocator; \<open>kmalloc\<close> pushes a block or gives everything back, \<open>kfree\<close>
    deletes one anywhere in the list. The first block and the blocks from page 76 on are the exceptions, stated as theorems.
  \<^item> Scheduler: processes/scheduler.c and the timer handler of drivers/pit.c. The ready queue is a ring.
  \<^item> Process: processes/process.c, pcb.c, pid.c and context_switch.asm. A new process starts at its entry point and
    a process that is switched away from resumes with its registers.
  \<^item> Kernel: interupts/interupts_handler.c and kernel.c. Dispatch and boot order.
  \<^item> Interrupts: interupts/isr_stubs.asm. The frame around \<open>isr_handler\<close>; an interrupt is invisible to the code it interrupts.
  \<^item> System: the running kernel as a step relation, in which timer and keyboard interrupts and single characters of the
    shell's loop interleave. States stay well formed and always have a next step; the steps refine \<open>shell_read\<close>.
  \<^item> Startup: start.asm and \<open>kernel_main\<close> as a whole, whatever the devices answer, followed by the steps of System.
  \<^item> Demand_Paging: \<open>page_fault_handler\<close> in that address space, with the queue's nodes from the kernel's own heap.
  \<^item> Large_Run: histories of large allocations, writes and page faults in the kernel Startup brings up. Every byte of every
    block that is held has a physical address of its own, outside the kernel's frames, and keeps what is written to it.
  \<^item> Boot: \<open>vmm_init\<close> followed by \<open>init_kmalloc\<close> and the first allocation. This theory: the frame allocator with \<open>vmm_init\<close>.

  \<^bold>\<open>Bounds and loops.\<close> Loops with a counter recurse on what is left of it. Polling and retry loops that only the
  hardware or a corrupt list can end (\<open>wait_until_free\<close>, \<open>write_retry\<close>, \<open>read_retry\<close>, \<open>scan_slabs\<close>, \<open>find_large\<close>, \<open>kfree_loop\<close>,
  \<open>remove_loop\<close>) are partial functions whose missing result is \<open>Halted\<close>. \<open>vmm_get_page_entry\<close> runs with depth one more
  than the length of the page queue: each nested call has taken a page off the queue, and
  \<open>get_page_entry_depth_bounded\<close> shows that more depth changes nothing. The shell's endless loop is cut at its
  rounds. The layout theorems are for images up to 0x39C000, where no two kernel pages share a table index. Addresses of
  large blocks are never used again and the page tables are one table: pages 0 to 147 above the heap lie below the
  entries of the kernel image, page 76 has the entry of the VGA buffer. \<open>large_heap\<close> is for blocks below page 148.
  The records of large blocks and the nodes of the page queue are the 254 objects of the first slab of 16 bytes; Large_Run
  allows 76 pages and 170 faults, so that they suffice.

  \<^bold>\<open>Not modelled.\<close> Vmm and the theories above it walk the page tables at every access; only Vmm_Tlb adds the cache, to the
  operations named there and not to the nested swaps inside them. bootloader.asm is
  real-mode code that calls the BIOS; the build does not assemble it, and GRUB, which loads the image instead, is not code of
  the repository: \<open>loaded\<close> states the memory it leaves. The branch of \<open>kernel_main\<close> for
  test builds is \<open>run_disk_tests\<close>, with the heap as an argument. An access to an unmapped page stops the code that
  makes it instead of entering \<open>page_fault_handler\<close> and resuming. Interrupts preempt the shell between characters, not inside the
  C functions, and not \<open>kernel_main\<close> between \<open>sti\<close> and the shell. The drive of Ata_Drive is a specification of the
  hardware, not code of the repository; it ignores a cache flush in the middle of a write,
  for which the ATA standard leaves the outcome open.
\<close>

section \<open>Kernel memory and frames handed out\<close>

text \<open>
  C9. The two memory managers agree on what belongs to the kernel: after \<open>pmm_init\<close> and \<open>vmm_init\<close> on the build's
  layout, every address of a page the physical manager reserved translates to itself, and whatever sequence
  of allocations and releases follows, no frame that is handed out lies under such a page.
\<close>

theorem kernel_memory_isolated:
  assumes "0x100000 \<le> ke" and "ke \<le> 0x39C000" and "\<not> paging_enabled s" and "aligned kdir" and "kdir \<noteq> 0"
    and "\<forall>i < 1024. mem s (entry_addr kdir i) = 0" and "pmm_run (kernel_layout ke) p held"
  shows "\<exists>s'. vmm_init sv (kernel_layout ke) kdir s = Inr s'
     \<and> (\<forall>v. frame_no v \<in> used_frames (snd (pmm_init (kernel_layout ke) (pmm s))) \<longrightarrow>
          translate s' v = Some v \<and> frame_no v \<notin> held \<and> (\<forall>a p'. pmm_alloc_frame p = (a, p') \<longrightarrow> a = 0 \<or> frame_no a \<noteq> frame_no v))"
proof -
  note inv = pmm_run_inv [OF assms(7)]
  have "frame_no a \<notin> reserved_frames (kernel_layout ke)" if "pmm_alloc_frame p = (a, p')" "a \<noteq> 0" for a p'
    using pmm_run_inv [OF pmm_run.alloc [OF assms(7) that]] by blast
  moreover have "held \<inter> reserved_frames (kernel_layout ke) = {}" using inv by blast
  moreover obtain s' where "vmm_init sv (kernel_layout ke) kdir s = Inr s'"
      "\<forall>v. frame_no v \<in> used_frames (snd (pmm_init (kernel_layout ke) (pmm s))) \<longrightarrow> translate s' v = Some v"
    using vmm_init_identity [OF assms(1-6), of sv] by (elim exE conjE)
  ultimately show ?thesis unfolding pmm_init_used by (intro exI [of _ s']) fastforce
qed

theorem kernel_memory_isolated_witness:
  "\<exists>s' a p'. vmm_init idle_services (kernel_layout 0x110000) 0x108000 boot_machine = Inr s' \<and> translate s' 0xB8000 = Some 0xB8000
     \<and> pmm_alloc_frame (snd (pmm_init (kernel_layout 0x110000) pmm_static)) = (a, p') \<and> (a = 0 \<or> frame_no a \<noteq> 184)"
proof -
  have ke: "(0x100000 :: u32) \<le> 0x110000" "(0x110000 :: u32) \<le> 0x39C000" by simp_all
  have fr: "frame_no 0xB8000 \<in> used_frames (snd (pmm_init (kernel_layout 0x110000) (pmm boot_machine)))"
    unfolding pmm_init_used by (subst reserved_frames_layout) (simp_all add: frame_no_def)
  obtain a p' where a: "pmm_alloc_frame (snd (pmm_init (kernel_layout 0x110000) pmm_static)) = (a, p')" by fastforce
  have v: "frame_no 0xB8000 = 184" by (simp add: frame_no_def)
  show ?thesis
    using kernel_memory_isolated [OF ke boot_machine_ok pmm_run.init, of idle_services] fr a v by (metis (no_types, lifting))
qed

end
